(* ===== verification/Prelude.thy ===== *)
theory Prelude
  imports Main "HOL-Library.Word" "HOL-Library.Monad_Syntax" "HOL-Library.State_Monad"
begin

text \<open>
  Shared vocabulary of the development: machine words at the width the C sources
  give them, byte buffers with checked reads (a read outside the object is
  \<^term>\<open>None\<close>), the byte order of the little-endian Android hosts, and a small
  weakest-precondition calculus for the state monad in which the handlers are written.
\<close>

unbundle bit_operations_syntax

section \<open>Words, buffers and checked reads\<close>

type_synonym u8 = "8 word"
type_synonym u16 = "16 word"
type_synonym u32 = "32 word"
type_synonym u64 = "64 word"
type_synonym buf = "u8 list"

text \<open>Unsigned conversions between the widths, as C's implicit and explicit casts do them.\<close>

abbreviation u8to16 :: "u8 \<Rightarrow> u16" where "u8to16 \<equiv> ucast"
abbreviation u8to32 :: "u8 \<Rightarrow> u32" where "u8to32 \<equiv> ucast"
abbreviation u16to8 :: "u16 \<Rightarrow> u8" where "u16to8 \<equiv> ucast"
abbreviation u32to8 :: "u32 \<Rightarrow> u8" where "u32to8 \<equiv> ucast"
abbreviation u16to32 :: "u16 \<Rightarrow> u32" where "u16to32 \<equiv> ucast"
abbreviation u32to16 :: "u32 \<Rightarrow> u16" where "u32to16 \<equiv> ucast"

text \<open>\<open>*(buf + i)\<close> for a byte pointer.\<close>

definition rd8 :: "buf \<Rightarrow> nat \<Rightarrow> u8 option" where
  "rd8 b i = (if i < length b then Some (b ! i) else None)"

text \<open>\<open>memcpy(dst, buf + off, n)\<close>: the bytes copied.\<close>

definition rd_bytes :: "buf \<Rightarrow> nat \<Rightarrow> nat \<Rightarrow> buf option" where
  "rd_bytes b off n = (if off + n \<le> length b then Some (take n (drop off b)) else None)"

text \<open>\<open>memcpy(buf + off, src, n)\<close>: the buffer after the copy.\<close>

definition wr_bytes :: "buf \<Rightarrow> nat \<Rightarrow> buf \<Rightarrow> buf option" where
  "wr_bytes b off src =
     (if off + length src \<le> length b
      then Some (take off b @ src @ drop (off + length src) b) else None)"

text \<open>The C string at the start of a buffer: the bytes before the first terminator.\<close>

definition cstring :: "buf \<Rightarrow> buf" where
  "cstring b = takeWhile (\<lambda>c. c \<noteq> 0) b"

text \<open>Little-endian composition and decomposition of 16 and 32 bit objects.\<close>

definition le16 :: "u8 \<Rightarrow> u8 \<Rightarrow> u16" where
  "le16 a b = u8to16 a OR push_bit 8 (u8to16 b)"

definition be16 :: "u8 \<Rightarrow> u8 \<Rightarrow> u16" where
  "be16 a b = push_bit 8 (u8to16 a) OR u8to16 b"

definition le32 :: "u8 \<Rightarrow> u8 \<Rightarrow> u8 \<Rightarrow> u8 \<Rightarrow> u32" where
  "le32 a b c d = u8to32 a OR push_bit 8 (u8to32 b) OR
     push_bit 16 (u8to32 c) OR push_bit 24 (u8to32 d)"

definition st16 :: "u16 \<Rightarrow> buf" where
  "st16 x = [u16to8 x, u16to8 (drop_bit 8 x)]"

definition st32 :: "u32 \<Rightarrow> buf" where
  "st32 x = [u32to8 x, u32to8 (drop_bit 8 x),
             u32to8 (drop_bit 16 x), u32to8 (drop_bit 24 x)]"

text \<open>\<open>*((uint16_t *) (buf + i))\<close> and \<open>*((uint32_t *) (buf + i))\<close>: native loads.\<close>

definition ld16 :: "buf \<Rightarrow> nat \<Rightarrow> u16 option" where
  "ld16 b i = do { x \<leftarrow> rd8 b i; y \<leftarrow> rd8 b (i + 1); Some (le16 x y) }"

definition ld32 :: "buf \<Rightarrow> nat \<Rightarrow> u32 option" where
  "ld32 b i = do { x \<leftarrow> rd8 b i; y \<leftarrow> rd8 b (i + 1); z \<leftarrow> rd8 b (i + 2); t \<leftarrow> rd8 b (i + 3);
                   Some (le32 x y z t) }"

text \<open>\<open>((uint16_t) buf[i] << 8) | buf[i + 1]\<close>: a big-endian load spelled out.\<close>

definition rdbe16 :: "buf \<Rightarrow> nat \<Rightarrow> u16 option" where
  "rdbe16 b i = do { x \<leftarrow> rd8 b i; y \<leftarrow> rd8 b (i + 1); Some (be16 x y) }"

text \<open>Network byte order: on a little-endian host the conversions swap the bytes.\<close>

definition ntohs :: "u16 \<Rightarrow> u16" where
  "ntohs x = push_bit 8 x OR drop_bit 8 x"

definition ntohl :: "u32 \<Rightarrow> u32" where
  "ntohl x = le32 (u32to8 (drop_bit 24 x)) (u32to8 (drop_bit 16 x))
                  (u32to8 (drop_bit 8 x)) (u32to8 x)"

abbreviation htons :: "u16 \<Rightarrow> u16" where "htons \<equiv> ntohs"
abbreviation htonl :: "u32 \<Rightarrow> u32" where "htonl \<equiv> ntohl"

named_theorems byte_defs "loads, stores and byte-order conversions unfolded to bits"
declare le16_def [byte_defs] be16_def [byte_defs] le32_def [byte_defs]
  st16_def [byte_defs] st32_def [byte_defs] ntohs_def [byte_defs] ntohl_def [byte_defs]

lemma ntohs_ntohs [simp]: "ntohs (ntohs x) = x"
  by (rule bit_eqI) (auto simp: ntohs_def bit_simps)

lemma ntohs_inj [simp]: "ntohs x = ntohs y \<longleftrightarrow> x = y"
  by (metis ntohs_ntohs)

lemma bit_u8_lt: "bit (a :: u8) n \<Longrightarrow> n < 8"
  using bit_imp_le_length [of a n] by simp

lemma le32_bytes [simp]:
  "u32to8 (le32 a b c d) = a" "u32to8 (drop_bit 8 (le32 a b c d)) = b"
  "u32to8 (drop_bit 16 (le32 a b c d)) = c" "u32to8 (drop_bit 24 (le32 a b c d)) = d"
  by (rule bit_eqI; auto simp: le32_def bit_simps dest: bit_u8_lt)+

lemma le32_split [simp]:
  "le32 (u32to8 x) (u32to8 (drop_bit 8 x)) (u32to8 (drop_bit 16 x)) (u32to8 (drop_bit 24 x)) = x"
proof (rule bit_word_eqI)
  fix n
  assume "n < LENGTH(32)"
  then have n: "n < 32" by simp
  consider "n < 8" | "8 \<le> n" "n < 16" | "16 \<le> n" "n < 24" | "24 \<le> n" by linarith
  then show "bit (le32 (u32to8 x) (u32to8 (drop_bit 8 x)) (u32to8 (drop_bit 16 x))
      (u32to8 (drop_bit 24 x))) n = bit x n"
    using n by cases (auto simp: le32_def bit_simps)
qed

lemma ntohl_le32 [simp]: "ntohl (le32 a b c d) = le32 d c b a"
  by (simp add: ntohl_def)

lemma ntohl_ntohl [simp]: "ntohl (ntohl x) = x"
  by (simp add: ntohl_def)

lemma ntohl_inj [simp]: "ntohl x = ntohl y \<longleftrightarrow> x = y"
  by (metis ntohl_ntohl)

lemma st32_le32 [simp]: "st32 (le32 a b c d) = [a, b, c, d]"
  by (simp add: st32_def)

lemma st16_le16 [simp]: "st16 (le16 a b) = [a, b]"
  by (auto simp: byte_defs bit_eq_iff bit_simps dest: bit_u8_lt)

lemma le16_split: "le16 (u16to8 x) (u16to8 (drop_bit 8 x)) = x"
  by (rule bit_word_eqI) (auto simp: le16_def bit_simps)

lemma ntohs_le16 [simp]: "ntohs (le16 a b) = be16 a b"
  by (auto simp: byte_defs bit_eq_iff bit_simps dest: bit_u8_lt)

lemma ntohs_be16 [simp]: "ntohs (be16 a b) = le16 a b"
  by (metis ntohs_le16 ntohs_ntohs)

lemma length_st16 [simp]: "length (st16 x) = 2"
  by (simp add: st16_def)

lemma length_st32 [simp]: "length (st32 x) = 4"
  by (simp add: st32_def)

lemma le16_plus: "le16 a b = u8to16 a + 256 * u8to16 b"
proof -
  have "u8to16 a AND push_bit 8 (u8to16 b) = 0"
    by (auto simp: bit_eq_iff bit_simps dest: bit_u8_lt)
  then show ?thesis
    by (simp add: le16_def disjunctive_add_eq_or [symmetric] push_bit_eq_mult ac_simps)
qed

lemma unat_lt_256 [simp]: "unat (x :: u8) < 256"
proof -
  have "unat x < 2 ^ LENGTH(8)" by (rule unsigned_less)
  then show ?thesis by simp
qed

lemma unat_le_255 [simp]: "unat (x :: u8) \<le> 255"
  using unat_lt_256 [of x] by linarith

lemma unat_lt_65536 [simp]: "unat (x :: u16) < 65536"
proof -
  have "unat x < 2 ^ LENGTH(16)" by (rule unsigned_less)
  then show ?thesis by simp
qed

lemma unat_lt_2_32 [simp]: "unat (x :: u32) < 4294967296"
proof -
  have "unat x < 2 ^ LENGTH(32)" by (rule unsigned_less)
  then show ?thesis by simp
qed

lemma unat_le_65535 [simp]: "unat (x :: u16) \<le> 65535"
  using unat_lt_65536 [of x] by linarith

lemma unat_ucast_8_16 [simp]: "unat (u8to16 a) = unat a"
  by (simp add: unsigned_ucast_eq take_bit_nat_eq_self less_le_trans [OF unsigned_less])

lemma unat_ucast_8_32 [simp]: "unat (u8to32 a) = unat a"
  by (simp add: unsigned_ucast_eq take_bit_nat_eq_self less_le_trans [OF unsigned_less])

lemma unat_ucast_16_32 [simp]: "unat (u16to32 a) = unat a"
  by (simp add: unsigned_ucast_eq take_bit_nat_eq_self less_le_trans [OF unsigned_less])

lemma unat_plus_u8: "unat (x :: u8) + unat y < 256 \<Longrightarrow> unat (x + y) = unat x + unat y"
  by (simp add: unat_word_ariths)

lemma unat_plus_u16: "unat (x :: u16) + unat y < 65536 \<Longrightarrow> unat (x + y) = unat x + unat y"
  by (simp add: unat_word_ariths)

lemma unat_plus_u32: "unat (x :: u32) + unat y < 4294967296 \<Longrightarrow> unat (x + y) = unat x + unat y"
  by (simp add: unat_word_ariths)

lemma unat_le16: "unat (le16 a b) = unat a + 256 * unat b"
proof -
  have "unat (256 * u8to16 b) = 256 * unat b"
    using unat_lt_256 [of b] by (simp add: unat_word_ariths)
  moreover have "unat a + 256 * unat b < 65536"
    using unat_lt_256 [of a] unat_lt_256 [of b] by linarith
  ultimately show ?thesis
    by (simp add: le16_plus unat_word_ariths)
qed

lemma unat_be16: "unat (be16 a b) = 256 * unat a + unat b"
  by (metis unat_le16 ntohs_le16 ntohs_be16 add.commute be16_def le16_def or.commute)

lemma unat_not_u16: "unat (NOT x :: u16) = 65535 - unat x"
proof -
  have "NOT x = (- 1) - x"
    by (simp add: not_eq_complement)
  moreover have "x \<le> - 1"
    by (rule word_n1_ge)
  moreover have "unat (- 1 :: u16) = 65535"
    by (simp add: unsigned_minus_1_eq_mask mask_eq_exp_minus_1)
  ultimately show ?thesis
    by (simp only: unat_sub)
qed

subsection \<open>Reads\<close>

lemma rd8_Some [simp]: "rd8 b i = Some x \<longleftrightarrow> i < length b \<and> x = b ! i"
  by (auto simp: rd8_def)

lemma rd8_None [simp]: "rd8 b i = None \<longleftrightarrow> length b \<le> i"
  by (auto simp: rd8_def)

lemma rd8_in [simp]: "i < length b \<Longrightarrow> rd8 b i = Some (b ! i)"
  by simp

lemma rd_bytes_Some [simp]:
  "rd_bytes b off n = Some x \<longleftrightarrow> off + n \<le> length b \<and> x = take n (drop off b)"
  by (auto simp: rd_bytes_def)

lemma rd_bytes_in: "off + n \<le> length b \<Longrightarrow> rd_bytes b off n = Some (take n (drop off b))"
  by simp

lemma ld16_in: "i + 1 < length b \<Longrightarrow> ld16 b i = Some (le16 (b ! i) (b ! (i + 1)))"
  by (simp add: ld16_def)

lemma ld32_in:
  "i + 3 < length b \<Longrightarrow>
     ld32 b i = Some (le32 (b ! i) (b ! (i + 1)) (b ! (i + 2)) (b ! (i + 3)))"
  by (simp add: ld32_def)

lemma rdbe16_in: "i + 1 < length b \<Longrightarrow> rdbe16 b i = Some (be16 (b ! i) (b ! (i + 1)))"
  by (simp add: rdbe16_def)

lemma rdbe16_Some:
  "rdbe16 b i = Some x \<longleftrightarrow> i + 1 < length b \<and> x = be16 (b ! i) (b ! (i + 1))"
  by (auto simp: rdbe16_def bind_eq_Some_conv)

lemma rdbe16_None [simp]: "rdbe16 b i = None \<longleftrightarrow> length b \<le> i + 1"
  by (auto simp: rdbe16_def bind_eq_None_conv)

lemma rd_bytes_None [simp]: "rd_bytes b off n = None \<longleftrightarrow> length b < off + n"
  by (auto simp: rd_bytes_def)

text \<open>Reading at the start of what is left of a buffer.\<close>

lemma rd8_drop: "drop i b = x # r \<Longrightarrow> rd8 b i = Some x"
  by (metis rd8_in nth_via_drop drop_eq_Nil list.distinct(1) not_le)

lemma rdbe16_drop: "drop i b = x # y # r \<Longrightarrow> rdbe16 b i = Some (be16 x y)"
proof -
  assume d: "drop i b = x # y # r"
  moreover from d have "drop (i + 1) b = y # r"
    by (metis drop_drop add.commute drop_Suc_Cons drop0 plus_1_eq_Suc One_nat_def)
  ultimately show ?thesis by (simp add: rdbe16_def rd8_drop)
qed

lemma rd_bytes_drop:
  assumes "drop i b = x @ r" "i \<le> length b"
  shows "rd_bytes b i (length x) = Some x"
proof -
  have "length b - i = length x + length r"
    using arg_cong [OF assms(1), of length] by simp
  with assms show ?thesis by simp
qed

text \<open>A chain of checked reads succeeds when each of its steps does.\<close>

lemma bind_NoneE:
  assumes "Option.bind x f = None"
  obtains "x = None" | y where "x = Some y" "f y = None"
  using assms by (cases x) auto

lemma bind_SomeE:
  assumes "Option.bind x f = Some z"
  obtains y where "x = Some y" "f y = Some z"
  using assms by (cases x) auto

text \<open>A 16 bit length or type in network order.\<close>

definition be_bytes :: "nat \<Rightarrow> buf" where
  "be_bytes n = [word_of_nat (n div 256), word_of_nat n]"

lemma length_be_bytes [simp]: "length (be_bytes n) = 2"
  by (simp add: be_bytes_def)

lemma rdbe16_be_bytes:
  assumes "drop i b = be_bytes n @ r" "n < 65536"
  shows "rdbe16 b i = Some (word_of_nat n)"
proof -
  have "unat (be16 (word_of_nat (n div 256)) (word_of_nat n)) = n"
    using assms(2) mult_div_mod_eq [of 256 n]
    by (simp add: unat_be16 unat_of_nat div_less_iff_less_mult)
  then have "be16 (word_of_nat (n div 256)) (word_of_nat n) = word_of_nat n"
    using assms(2) by (simp add: word_unat_eq_iff unat_of_nat)
  then show ?thesis
    using rdbe16_drop assms(1) by (simp add: be_bytes_def)
qed

lemma wr_bytes_in:
  "off + length src \<le> length b \<Longrightarrow>
     wr_bytes b off src = Some (take off b @ src @ drop (off + length src) b)"
  by (simp add: wr_bytes_def)

lemma length_wr_bytes: "wr_bytes b off src = Some b' \<Longrightarrow> length b' = length b"
  by (auto simp: wr_bytes_def split: if_splits)

lemmas reads_in = rd8_in rd_bytes_in ld16_in ld32_in rdbe16_in wr_bytes_in

section \<open>A weakest-precondition calculus for the state monad\<close>

text \<open>
  \<open>wp m Q s\<close>: running \<open>m\<close> from \<open>s\<close> ends in a result and a state that
  satisfy \<open>Q\<close>. Every program of the monad returns, so this is total correctness.
\<close>

definition wp :: "('s, 'a) state \<Rightarrow> ('a \<Rightarrow> 's \<Rightarrow> bool) \<Rightarrow> 's \<Rightarrow> bool" where
  "wp m Q s = (case run_state m s of (a, s') \<Rightarrow> Q a s')"

lemma wp_return [simp]: "wp (State_Monad.return x) Q = Q x"
  by (simp add: wp_def fun_eq_iff)

lemma wp_bind [simp]: "wp (State_Monad.bind m f) Q = wp m (\<lambda>a. wp (f a) Q)"
  by (simp add: wp_def fun_eq_iff split: prod.splits)

lemma wp_get [simp]: "wp State_Monad.get Q = (\<lambda>s. Q s s)"
  by (simp add: wp_def fun_eq_iff)

lemma wp_set [simp]: "wp (State_Monad.set t) Q = (\<lambda>s. Q () t)"
  by (simp add: wp_def fun_eq_iff)

lemma wp_update [simp]: "wp (State_Monad.update f) Q = (\<lambda>s. Q () (f s))"
  by (simp add: wp_def fun_eq_iff State_Monad.update_def)

lemma wp_if: "wp (if b then m else n) Q = (if b then wp m Q else wp n Q)"
  by simp

lemma wp_mono: "wp m Q s \<Longrightarrow> (\<And>a t. Q a t \<Longrightarrow> R a t) \<Longrightarrow> wp m R s"
  by (auto simp: wp_def split: prod.splits)

lemma wp_conj: "wp m Q s \<Longrightarrow> wp m R s \<Longrightarrow> wp m (\<lambda>a t. Q a t \<and> R a t) s"
  by (auto simp: wp_def split: prod.splits)

lemma wp_run: "wp m Q s \<longleftrightarrow> Q (fst (run_state m s)) (snd (run_state m s))"
  by (simp add: wp_def split: prod.splits)

end
