(* ===== verification/Util.thy ===== *)
theory Util
  imports Prelude
begin

text \<open>
  The helpers of \<open>util.c\<close>: the Internet checksum, the serial-number comparison of
  TCP sequence numbers, the hexadecimal conversions and \<open>trim\<close>.
\<close>

section \<open>The Internet checksum: \<open>calc_checksum\<close>\<close>

text \<open>The first loop and the odd byte after it, over the bytes still unread.\<close>

fun checksum_sum :: "u32 \<Rightarrow> buf \<Rightarrow> u32" where
  "checksum_sum acc (a # b # rest) = checksum_sum (acc + u16to32 (le16 a b)) rest"
| "checksum_sum acc [a] = acc + u8to32 a"
| "checksum_sum acc [] = acc"

text \<open>The second loop: \<open>while (sum >> 16) sum = (sum & 0xFFFF) + (sum >> 16)\<close>.\<close>

lemma unat_and_mask16: "unat (s AND 0xFFFF :: u32) = unat s mod 65536"
proof -
  have "s AND 0xFFFF = take_bit 16 s"
    by (simp add: take_bit_eq_mask mask_eq_exp_minus_1)
  then show ?thesis
    by (simp add: take_bit_eq_mod unat_mod_distrib)
qed

lemma unat_drop16: "unat (drop_bit 16 s :: u32) = unat s div 65536"
  by (simp add: drop_bit_eq_div unat_div_distrib)

lemma unat_fold_step:
  "unat ((s AND 0xFFFF) + drop_bit 16 s :: u32) = unat s mod 65536 + unat s div 65536"
proof -
  have "unat s div 65536 < 65536"
    using unat_lt_2_32 [of s] by (simp add: div_less_iff_less_mult)
  then have "unat s mod 65536 + unat s div 65536 < 4294967296"
    using mod_less_divisor [of 65536 "unat s"] by linarith
  then show ?thesis
    by (simp add: unat_word_ariths unat_and_mask16 unat_drop16)
qed

function checksum_fold :: "u32 \<Rightarrow> u32" where
  "checksum_fold acc =
     (if drop_bit 16 acc \<noteq> 0 then checksum_fold ((acc AND 0xFFFF) + drop_bit 16 acc) else acc)"
  by pat_completeness auto
termination
proof (relation "measure unat", goal_cases)
  case 1
  show ?case by simp
next
  case (2 acc)
  then have "0 < unat acc div 65536"
    by (metis unat_drop16 unat_eq_zero neq0_conv)
  moreover have "65536 * (unat acc div 65536) + unat acc mod 65536 = unat acc"
    by (rule mult_div_mod_eq)
  ultimately have "unat acc mod 65536 + unat acc div 65536 < unat acc" by linarith
  then show ?case by (simp only: in_measure unat_fold_step)
qed

declare checksum_fold.simps [simp del]

definition calc_checksum :: "u16 \<Rightarrow> buf \<Rightarrow> u16" where
  "calc_checksum start buffer = u32to16 (checksum_fold (checksum_sum (u16to32 start) buffer))"

section \<open>Serial-number comparison: \<open>compare_u32\<close>\<close>

definition compare_u32 :: "u32 \<Rightarrow> u32 \<Rightarrow> int" where
  "compare_u32 s1 s2 =
     (if s1 = s2 then 0
      else if (s1 < s2 \<and> s2 - s1 < 0x7FFFFFFF) \<or> (s2 < s1 \<and> s1 - s2 > 0x7FFFFFFF) then -1
      else 1)"

section \<open>Hexadecimal conversions\<close>

text \<open>Characters are their byte codes; \<open>48\<close> is \<open>'0'\<close>, \<open>97\<close> is \<open>'a'\<close>, \<open>65\<close> is \<open>'A'\<close>.\<close>

definition char2nible :: "u8 \<Rightarrow> u8" where
  "char2nible c =
     (if 48 \<le> c \<and> c \<le> 57 then c - 48
      else if 97 \<le> c \<and> c \<le> 102 then (c - 97) + 10
      else if 65 \<le> c \<and> c \<le> 70 then (c - 65) + 10
      else 255)"

text \<open>
  The loop of \<open>hex2bytes\<close> over the string without its terminator: on an odd length the
  last step reads the terminator \<open>0\<close> as its second digit.
\<close>

fun hex2bytes :: "buf \<Rightarrow> buf" where
  "hex2bytes (c # d # rest) = (push_bit 4 (char2nible c) OR char2nible d) # hex2bytes rest"
| "hex2bytes [c] = [push_bit 4 (char2nible c) OR char2nible 0]"
| "hex2bytes [] = []"

definition hex_str :: "buf" where
  "hex_str = [48, 49, 50, 51, 52, 53, 54, 55, 56, 57, 65, 66, 67, 68, 69, 70]"

fun hex :: "buf \<Rightarrow> buf" where
  "hex (x # data) = hex_str ! unat (drop_bit 4 x AND 0x0F) # hex_str ! unat (x AND 0x0F) # 32 # hex data"
| "hex [] = []"

section \<open>Properties of the checksum\<close>

text \<open>The number a buffer stands for: its little-endian 16 bit words added up.\<close>

fun buf_sum :: "buf \<Rightarrow> nat" where
  "buf_sum (a # b # rest) = unat a + 256 * unat b + buf_sum rest"
| "buf_sum [a] = unat a"
| "buf_sum [] = 0"

text \<open>Ones'-complement normal form: the representative of \<open>n\<close> modulo 65535 that is 0 only for 0.\<close>

definition ones_norm :: "nat \<Rightarrow> nat" where
  "ones_norm n = (if n = 0 then 0 else (n - 1) mod 65535 + 1)"

lemma ones_norm_le: "ones_norm n \<le> 65535"
  using mod_less_divisor [of 65535 "n - 1"] unfolding ones_norm_def
  by (cases "n = 0") (simp_all add: Suc_leI del: mod_less_divisor)

lemma ones_norm_small: "n < 65536 \<Longrightarrow> ones_norm n = n"
  by (auto simp: ones_norm_def)

lemma ones_norm_eq_0 [simp]: "ones_norm n = 0 \<longleftrightarrow> n = 0"
  by (simp add: ones_norm_def)

lemma ones_norm_add_multiple: "0 < n \<Longrightarrow> ones_norm (n + 65535 * k) = ones_norm n"
proof -
  assume "0 < n"
  then have "n + 65535 * k - 1 = (n - 1) + 65535 * k" by linarith
  then have "(n + 65535 * k - 1) mod 65535 = (n - 1) mod 65535"
    by (metis mod_mult_self2)
  with \<open>0 < n\<close> show ?thesis by (simp add: ones_norm_def)
qed

lemma ones_norm_split: "n = ones_norm n + 65535 * (if n = 0 then 0 else (n - 1) div 65535)"
proof (cases "n = 0")
  case False
  then show ?thesis
    using mult_div_mod_eq [of 65535 "n - 1"] by (simp add: ones_norm_def)
qed simp

lemma ones_norm_add_left: "ones_norm (ones_norm m + n) = ones_norm (m + n)"
proof (cases "m = 0")
  case False
  then have m: "m = ones_norm m + 65535 * ((m - 1) div 65535)"
    using ones_norm_split [of m] by simp
  have "ones_norm m + n > 0" using False by (simp add: ones_norm_def)
  then have "ones_norm (ones_norm m + n + 65535 * ((m - 1) div 65535)) = ones_norm (ones_norm m + n)"
    by (rule ones_norm_add_multiple)
  moreover have "ones_norm m + n + 65535 * ((m - 1) div 65535) = m + n"
    using m by linarith
  ultimately show ?thesis by (simp only:)
qed (simp add: ones_norm_def)

lemma ones_norm_complement: "ones_norm (n + (65535 - ones_norm n)) = 65535"
proof -
  define k where "k = (if n = 0 then 0 else (n - 1) div 65535)"
  have "n = ones_norm n + 65535 * k"
    unfolding k_def by (rule ones_norm_split)
  then have "n + (65535 - ones_norm n) = 65535 + 65535 * k"
    using ones_norm_le [of n] by linarith
  then show ?thesis
    using ones_norm_add_multiple [of 65535 k] by (simp add: ones_norm_def)
qed

lemma checksum_fold_value: "unat (checksum_fold s) = ones_norm (unat s)"
proof (induction s rule: checksum_fold.induct)
  case (1 s)
  show ?case
  proof (cases "drop_bit 16 s = 0")
    case True
    then have "unat s div 65536 = 0" by (metis unat_drop16 unat_0)
    then have "unat s < 65536" by (simp add: div_eq_0_iff)
    with True show ?thesis by (simp add: checksum_fold.simps [of s] ones_norm_small)
  next
    case False
    then have h: "0 < unat s div 65536" by (metis unat_drop16 unat_eq_zero neq0_conv)
    have "ones_norm (unat s mod 65536 + unat s div 65536 + 65535 * (unat s div 65536)) =
          ones_norm (unat s mod 65536 + unat s div 65536)"
      using h by (intro ones_norm_add_multiple) linarith
    moreover have "unat s mod 65536 + unat s div 65536 + 65535 * (unat s div 65536) = unat s"
      using mult_div_mod_eq [of 65536 "unat s"] by linarith
    ultimately have "ones_norm (unat s) = ones_norm (unat s mod 65536 + unat s div 65536)" by simp
    with False "1.IH" show ?thesis
      by (simp add: checksum_fold.simps [of s] unat_fold_step)
  qed
qed

lemma checksum_sum_value:
  "unat acc + buf_sum b < 4294967296 \<Longrightarrow> unat (checksum_sum acc b) = unat acc + buf_sum b"
proof (induction acc b rule: checksum_sum.induct)
  case (1 acc x y rest)
  have "unat (acc + u16to32 (le16 x y)) = unat acc + (unat x + 256 * unat y)"
    using "1.prems" by (simp add: unat_word_ariths unat_le16)
  then show ?case using "1.IH" "1.prems" by simp
qed (simp_all add: unat_word_ariths)

lemma buf_sum_bound: "buf_sum b \<le> 65535 * ((length b + 1) div 2)"
proof (induction b rule: buf_sum.induct)
  case (1 x y rest)
  have "unat x \<le> 255" "unat y \<le> 255" by (rule unat_le_255)+
  then have "unat x + 256 * unat y \<le> 65535" by linarith
  then have "buf_sum (x # y # rest) \<le> 65535 + 65535 * ((length rest + 1) div 2)"
    using "1.IH" by (simp only: buf_sum.simps)
  then show ?case by simp
qed (simp_all add: le_trans [OF unat_le_255])

lemma buf_sum_append: "even (length a) \<Longrightarrow> buf_sum (a @ b) = buf_sum a + buf_sum b"
  by (induction a rule: buf_sum.induct) simp_all

lemma buf_sum_st16 [simp]: "buf_sum (st16 x) = unat x"
proof -
  have "le16 (u16to8 x) (u16to8 (drop_bit 8 x)) = x"
    by (auto simp: byte_defs bit_eq_iff bit_simps)
  then have "unat x = unat (u16to8 x) + 256 * unat (u16to8 (drop_bit 8 x))"
    by (metis unat_le16)
  then show ?thesis by (simp add: st16_def)
qed

lemma calc_checksum_value:
  assumes "unat start + buf_sum b < 4294967296"
  shows "unat (calc_checksum start b) = ones_norm (unat start + buf_sum b)"
proof -
  have "unat (checksum_fold (checksum_sum (u16to32 start) b)) = ones_norm (unat start + buf_sum b)"
    using assms by (simp add: checksum_fold_value checksum_sum_value)
  then show ?thesis
    using ones_norm_le [of "unat start + buf_sum b"]
    by (simp add: calc_checksum_def unsigned_ucast_eq take_bit_nat_eq_self)
qed

text \<open>
  What the packet builders rely on, as an interface: a checksum over a start value and a
  buffer whose value is the normal form of the start plus the buffer's weight, up to the
  packet size the 32 bit accumulator holds.
\<close>

locale internet_checksum =
  fixes csum :: "u16 \<Rightarrow> buf \<Rightarrow> u16"
    and weight :: "buf \<Rightarrow> nat"
    and limit :: nat
  assumes csum_value:
      "length b \<le> limit \<Longrightarrow> unat (csum s b) = ones_norm (unat s + weight b)"
    and weight_append: "even (length a) \<Longrightarrow> weight (a @ b) = weight a + weight b"
    and weight_st16: "weight (st16 x) = unat x"
begin

text \<open>The running checksum over an even block and then the next is the checksum of both.\<close>

lemma csum_append:
  assumes "even (length a)" "length (a @ b) \<le> limit"
  shows "csum (csum s a) b = csum s (a @ b)"
proof -
  have "unat (csum (csum s a) b) = ones_norm (unat s + weight a + weight b)"
    using assms by (simp add: csum_value ones_norm_add_left)
  also have "\<dots> = unat (csum s (a @ b))"
    using assms by (simp add: csum_value weight_append add.assoc)
  finally show ?thesis by (simp add: word_unat_eq_iff)
qed

lemma csum_nonzero:
  assumes "length b \<le> limit" "0 < weight b"
  shows "csum s b \<noteq> 0"
proof -
  have "0 < ones_norm (unat s + weight b)"
    using assms(2) by (simp add: ones_norm_def)
  then show ?thesis
    using csum_value [OF assms(1), of s] by (metis less_irrefl unat_0)
qed

text \<open>
  A receiver that sums a block in which the field was zero when the sum was taken and then
  holds the complement of it gets all ones: the check of RFC 1071.
\<close>

lemma csum_verifies:
  assumes "even (length a)" "length (a @ st16 x @ b) \<le> limit"
    and x: "x = NOT (csum s (a @ st16 0 @ b))"
  shows "csum s (a @ st16 x @ b) = 0xFFFF"
proof -
  let ?S = "unat s + weight a + weight b"
  have w: "weight (a @ st16 y @ b) = weight a + unat y + weight b" for y
    using assms(1) by (simp add: weight_append weight_st16 [symmetric])
  have len: "length (a @ st16 0 @ b) \<le> limit" using assms(2) by simp
  have "unat (csum s (a @ st16 0 @ b)) = ones_norm ?S"
    using csum_value [OF len, of s] w [of 0] by (simp add: ac_simps)
  then have "unat x = 65535 - ones_norm ?S"
    using x by (simp add: unat_not_u16)
  then have "unat (csum s (a @ st16 x @ b)) = ones_norm (?S + (65535 - ones_norm ?S))"
    using csum_value [OF assms(2), of s] w [of x] by (simp add: ac_simps)
  then have "unat (csum s (a @ st16 x @ b)) = unat (0xFFFF :: u16)"
    by (simp add: ones_norm_complement)
  then show ?thesis by (simp add: word_unat_eq_iff)
qed

end

text \<open>131000 bytes: two maximal IP packets, still within the 32 bit accumulator.\<close>

lemma calc_checksum_no_overflow:
  assumes "length b \<le> 131000"
  shows "unat (start :: u16) + buf_sum b < 4294967296"
proof -
  have "buf_sum b \<le> 65535 * ((length b + 1) div 2)" by (rule buf_sum_bound)
  also have "\<dots> \<le> 65535 * 65500" using assms by simp
  finally show ?thesis using unat_lt_65536 [of start] by linarith
qed

interpretation ics: internet_checksum calc_checksum buf_sum 131000
  by unfold_locales
    (auto intro: calc_checksum_value calc_checksum_no_overflow buf_sum_append)

section \<open>Properties of the serial-number comparison\<close>

text \<open>How far \<open>t\<close> is ahead of \<open>s\<close> on the circle of 32 bit sequence numbers.\<close>

definition ahead :: "u32 \<Rightarrow> u32 \<Rightarrow> nat" where
  "ahead s t = unat (t - s)"

lemma ahead_self [simp]: "ahead s s = 0"
  by (simp add: ahead_def)

lemma ahead_eq_0 [simp]: "ahead s t = 0 \<longleftrightarrow> s = t"
  by (auto simp: ahead_def unat_eq_zero)

lemma ahead_cases:
  "ahead s t = (if unat s \<le> unat t then unat t - unat s else unat t + 4294967296 - unat s)"
  by (simp add: ahead_def unat_sub_if')

lemma compare_u32_exact:
  "compare_u32 s t =
     (if s = t then 0
      else if (s < t \<and> ahead s t < 0x7FFFFFFF) \<or> (t < s \<and> ahead s t \<le> 0x80000000) then -1
      else 1)"
proof -
  have "t < s \<Longrightarrow> s - t > 0x7FFFFFFF \<longleftrightarrow> ahead s t \<le> 0x80000000"
    using unat_lt_2_32 [of s]
    by (simp add: word_less_nat_alt ahead_cases unat_sub_if') linarith
  moreover have "t - s < 0x7FFFFFFF \<longleftrightarrow> ahead s t < 0x7FFFFFFF"
    by (simp add: word_less_nat_alt ahead_def)
  ultimately show ?thesis by (auto simp: compare_u32_def)
qed

lemma ahead_diff:
  assumes "ahead b s \<le> ahead b t"
  shows "ahead s t = ahead b t - ahead b s"
proof -
  have "t - s = (t - b) - (s - b)" by simp
  moreover have "s - b \<le> t - b" using assms by (simp add: ahead_def word_le_nat_alt)
  ultimately show ?thesis by (simp only: ahead_def unat_sub)
qed

lemma ahead_swap: "s \<noteq> t \<Longrightarrow> ahead s t = 4294967296 - ahead t s"
  using unat_lt_2_32 [of s] unat_lt_2_32 [of t]
  unfolding ahead_cases word_unat_eq_iff by presburger

text \<open>
  Inside a window of less than \<open>0x7FFFFFFF\<close> sequence numbers that starts at any base, the
  comparison is the order of the distances from the base, wrap-around or not.
\<close>

lemma compare_u32_window:
  assumes "ahead b s < 0x7FFFFFFF" "ahead b t < 0x7FFFFFFF"
  shows "compare_u32 s t = sgn (int (ahead b s) - int (ahead b t))"
proof -
  consider (eq) "ahead b s = ahead b t" | (less) "ahead b s < ahead b t"
    | (greater) "ahead b t < ahead b s" by linarith
  then show ?thesis
  proof cases
    case eq
    then have "ahead s t = 0" using ahead_diff [of b s t] by simp
    with eq show ?thesis by (simp add: compare_u32_exact)
  next
    case less
    then have "ahead s t = ahead b t - ahead b s" using ahead_diff [of b s t] by simp
    then have "0 < ahead s t" "ahead s t < 0x7FFFFFFF" using less assms by simp_all
    then have "compare_u32 s t = -1"
      by (cases s t rule: linorder_cases) (simp_all add: compare_u32_exact)
    with less show ?thesis by simp
  next
    case greater
    then have "ahead t s = ahead b s - ahead b t" using ahead_diff [of b t s] by simp
    then have d: "0 < ahead t s" "ahead t s < 0x7FFFFFFF" using greater assms by simp_all
    then have "s \<noteq> t" by auto
    then have "0x80000000 < ahead s t" using d ahead_swap [of s t] by linarith
    then have "compare_u32 s t = 1" using \<open>s \<noteq> t\<close> by (simp add: compare_u32_exact)
    with greater show ?thesis by simp
  qed
qed

lemma compare_u32_less:
  assumes "ahead b s < 0x7FFFFFFF" "ahead b t < 0x7FFFFFFF"
  shows "compare_u32 s t < 0 \<longleftrightarrow> ahead b s < ahead b t"
    and "compare_u32 s t > 0 \<longleftrightarrow> ahead b t < ahead b s"
  using compare_u32_window [OF assms] by (auto simp: sgn_if)

lemma compare_u32_range: "compare_u32 s t \<in> {-1, 0, 1}"
  by (simp add: compare_u32_def)

lemma compare_u32_eq_0 [simp]: "compare_u32 s t = 0 \<longleftrightarrow> s = t"
  by (simp add: compare_u32_def)

section \<open>Hexadecimal round trip\<close>

lemma char2nible_hex_str:
  assumes "n < 16"
  shows "char2nible (hex_str ! n) = word_of_nat n" "hex_str ! n \<noteq> 32"
proof -
  have "n \<in> {0, 1, 2, 3, 4, 5, 6, 7, 8, 9, 10, 11, 12, 13, 14, 15}"
    using assms unfolding insert_iff empty_iff by presburger
  then show "char2nible (hex_str ! n) = word_of_nat n" "hex_str ! n \<noteq> 32"
    by (auto simp: hex_str_def char2nible_def)
qed

lemma unat_nibble: "unat (x AND 0x0F :: u8) < 16"
proof -
  have "x AND 0x0F = take_bit 4 x" by (simp add: take_bit_eq_mask mask_eq_exp_minus_1)
  then show ?thesis by (simp add: take_bit_eq_mod unat_mod_distrib)
qed

lemma nibbles_join: "push_bit 4 (drop_bit 4 x AND 0x0F) OR (x AND 0x0F) = (x :: u8)"
proof -
  have m: "(0x0F :: u8) = mask 4" by (simp add: mask_eq_exp_minus_1)
  show ?thesis
    unfolding m by (rule bit_word_eqI) (auto simp: bit_simps)
qed

lemma hex2bytes_hex: "hex2bytes (filter (\<lambda>c. c \<noteq> 32) (hex data)) = data"
proof (induction data)
  case (Cons x data)
  note n = char2nible_hex_str [OF unat_nibble [of x]] char2nible_hex_str [OF unat_nibble [of "drop_bit 4 x"]]
  show ?case using Cons.IH nibbles_join [of x] by (simp add: n)
qed simp

section \<open>Blanks around a string: \<open>trim\<close>\<close>

definition is_space :: "u8 \<Rightarrow> bool" where
  "is_space c \<longleftrightarrow> c = 32 \<or> 9 \<le> c \<and> c \<le> 13"

text \<open>The two loops: the start moves up to a byte that is no blank, the end down to one or to the start.\<close>

function skip_spaces :: "buf \<Rightarrow> nat \<Rightarrow> nat option" where
  "skip_spaces b i = do {
     c \<leftarrow> rd8 b i;
     if is_space c then skip_spaces b (i + 1) else Some i
   }"
  by pat_completeness auto
termination by (relation "measure (\<lambda>(b, i). length b - i)") (auto simp: rd8_def split: if_splits)

declare skip_spaces.simps [simp del]

fun trim_end :: "buf \<Rightarrow> nat \<Rightarrow> nat \<Rightarrow> nat" where
  "trim_end b i 0 = 0"
| "trim_end b i (Suc e) = (if Suc e > i \<and> is_space (b ! Suc e) then trim_end b i e else Suc e)"

text \<open>The offset that is returned and the buffer; \<^term>\<open>None\<close> when a byte outside is read.\<close>

definition trim :: "buf \<Rightarrow> (nat \<times> buf) option" where
  "trim b = do {
     i \<leftarrow> skip_spaces b 0;
     if b ! i = 0 then Some (i, b)
     else do {
       let n = length (cstring (drop i b));
       if i + n < length b then Some (i, b[trim_end b i (i + n - 1) + 1 := 0]) else None
     }
   }"

definition stripped :: "buf \<Rightarrow> buf" where
  "stripped s = rev (dropWhile is_space (rev (dropWhile is_space s)))"

lemma skip_spaces_string:
  assumes "0 \<notin> set s"
  shows "skip_spaces (p @ s @ 0 # r) (length p) = Some (length p + length (takeWhile is_space s))"
  using assms
proof (induction s arbitrary: p)
  case (Cons c s)
  have "skip_spaces (p @ (c # s) @ 0 # r) (length p) =
      (if is_space c then skip_spaces ((p @ [c]) @ s @ 0 # r) (length (p @ [c])) else Some (length p))"
    by (subst skip_spaces.simps) (simp add: rd8_def)
  then show ?case using Cons.IH [of "p @ [c]"] Cons.prems by simp
qed (simp add: skip_spaces.simps rd8_def is_space_def)

lemma trim_end_string:
  "length p = i \<Longrightarrow> s \<noteq> [] \<Longrightarrow> \<not> is_space (hd s) \<Longrightarrow>
     trim_end (p @ s @ r) i (i + length s - 1) + 1 = i + length (dropWhile is_space (rev s))"
proof (induction s arbitrary: r rule: rev_induct)
  case (snoc c s)
  show ?case
  proof (cases "s = []")
    case True
    with snoc.prems show ?thesis by (cases i) simp_all
  next
    case False
    define e where "e = i + length s - 1"
    have e: "i + length s = Suc e" "i < Suc e" using False by (cases s; simp add: e_def)+
    have IH: "trim_end (p @ s @ [c] @ r) i e + 1 = i + length (dropWhile is_space (rev s))"
      unfolding e_def by (rule snoc.IH) (use snoc.prems False in \<open>auto simp: hd_append\<close>)
    have "(p @ s @ [c] @ r) ! Suc e = c" using snoc.prems(1) by (simp add: nth_append flip: e(1))
    moreover have "i + length (s @ [c]) - 1 = Suc e" using e(1) by simp
    ultimately have "trim_end (p @ (s @ [c]) @ r) i (i + length (s @ [c]) - 1) =
        (if is_space c then trim_end (p @ s @ [c] @ r) i e else Suc e)"
      using e(2) by (simp only: append_assoc trim_end.simps) simp
    then show ?thesis using IH e(1) by simp
  qed
qed simp

text \<open>\<open>trim\<close> returns the string without the blanks before and after it, and accesses nothing else.\<close>

lemma trim_strips:
  assumes "0 \<notin> set s"
  shows "\<exists>i b. trim (s @ 0 # r) = Some (i, b) \<and> cstring (drop i b) = stripped s \<and> length b = length (s @ 0 # r)"
proof -
  define p t where "p = takeWhile is_space s" and "t = dropWhile is_space s"
  have s: "s = p @ t" by (simp add: p_def t_def)
  have start: "skip_spaces (s @ 0 # r) 0 = Some (length p)" using skip_spaces_string [OF assms, of "[]" r] by (simp add: p_def)
  have zeros: "cstring (u @ 0 # v) = u" if "0 \<notin> set u" for u v :: buf
    using that by (induction u) (auto simp: cstring_def)
  show ?thesis
  proof (cases "t = []")
    case True
    then have "stripped s = []" by (simp add: stripped_def flip: t_def)
    then show ?thesis using True start by (simp add: trim_def s cstring_def)
  next
    case False
    define q z where "q = rev (dropWhile is_space (rev t))" and "z = rev (takeWhile is_space (rev t))"
    have t: "t = q @ z" by (simp add: q_def z_def flip: rev_append)
    have hd: "\<not> is_space (hd t)" using False hd_dropWhile [of is_space s] by (simp add: t_def)
    have e: "trim_end (s @ 0 # r) (length p) (length p + length t - 1) + 1 = length p + length q"
      using trim_end_string [of p "length p" t "0 # r"] False hd by (simp add: s q_def)
    have no: "0 \<notin> set t" "0 \<notin> set q" using assms s t by auto
    have "(s @ 0 # r) ! length p \<noteq> 0" using False no(1) by (cases t) (auto simp: s)
    moreover have "cstring (drop (length p) (s @ 0 # r)) = t" using zeros [OF no(1)] by (simp add: s)
    ultimately have "trim (s @ 0 # r) = Some (length p, (s @ 0 # r)[length p + length q := 0])"
      using start e by (simp add: trim_def Let_def) (simp add: s)
    moreover obtain v where "(z @ 0 # r)[0 := 0] = 0 # v" by (cases z) auto
    then have "drop (length p) ((s @ 0 # r)[length p + length q := 0]) = q @ 0 # v"
      by (simp add: s t drop_update_swap list_update_append)
    ultimately show ?thesis using zeros [OF no(2)] by (simp add: stripped_def q_def t_def)
  qed
qed

section \<open>Claims\<close>

text \<open>
  The checksum field a packet builder stores (the complement of \<open>calc_checksum\<close> over the
  block with a zero field) makes the block verify: summing it again gives all ones.
\<close>

theorem checksum_field_verifies:
  assumes "even (length a)" "length a + length b \<le> 130998"
  shows "calc_checksum s (a @ st16 (NOT (calc_checksum s (a @ st16 0 @ b))) @ b) = 0xFFFF"
  by (rule ics.csum_verifies) (use assms in auto)

theorem checksum_field_verifies_witness:
  "calc_checksum 0 ([0x45, 0, 0, 20] @ st16 (NOT (calc_checksum 0 ([0x45, 0, 0, 20] @ st16 0 @ [127, 0, 1]))) @
     [127, 0, 1]) = 0xFFFF"
  by (rule checksum_field_verifies) simp_all

text \<open>
  C35: the value of the checksum: the ones'-complement sum of the start value and the
  little-endian 16 bit words of the buffer (a last odd byte counts alone), for every buffer
  of at most 131000 bytes; the folding loop ends and the 32 bit accumulator never overflows.
\<close>

theorem calc_checksum_ones_sum:
  assumes "length b \<le> 131000"
  shows "unat (calc_checksum s b) = ones_norm (unat s + buf_sum b)"
  using assms by (rule ics.csum_value)

theorem calc_checksum_ones_sum_witness:
  "unat (calc_checksum 0xFFFF [1, 2, 3]) = ones_norm (unat (0xFFFF :: u16) + buf_sum [1, 2, 3])"
  by (rule calc_checksum_ones_sum) simp

text \<open>
  C36: within a window of fewer than \<open>0x7FFFFFFF\<close> sequence numbers above any base,
  \<open>compare_u32\<close> is the sign of the difference of the distances from that base, whether or
  not the numbers wrapped around.
\<close>

theorem compare_u32_is_window_order:
  assumes "ahead b s < 0x7FFFFFFF" "ahead b t < 0x7FFFFFFF"
  shows "compare_u32 s t = sgn (int (ahead b s) - int (ahead b t))"
  using assms by (rule compare_u32_window)

theorem compare_u32_is_window_order_witness:
  "compare_u32 5 0xFFFFFFF0 = sgn (int (ahead 0xFFFFFF00 5) - int (ahead 0xFFFFFF00 0xFFFFFFF0))"
  by (rule compare_u32_is_window_order) (simp_all add: ahead_def)

text \<open>
  At the distance \<open>0x7FFFFFFF\<close> the comparison is not antisymmetric: each of the two
  numbers is reported as the greater one, or neither, depending on the wrap-around.
\<close>

theorem compare_u32_not_antisymmetric:
  "compare_u32 0 0x7FFFFFFF = 1 \<and> compare_u32 0x7FFFFFFF 0 = 1"
  by (simp add: compare_u32_def)

text \<open>\<open>hex2bytes\<close> reads back what \<open>hex\<close> prints, once the separating blanks are removed.\<close>

theorem hex_roundtrip: "hex2bytes (filter (\<lambda>c. c \<noteq> 32) (hex data)) = data"
  by (rule hex2bytes_hex)

end
