(* ===== verification/Tls.thy ===== *)
theory Tls
  imports Prelude
begin

text \<open>
  The server-name parser of \<open>tls.c\<close>. A result is \<^term>\<open>None\<close> when the code would read
  outside the packet bytes, \<open>Some None\<close> when it returns 0 and \<open>Some (Some name)\<close> when it
  returns 1 with \<open>name\<close> in \<open>server_name\<close>. The log calls are left out; the counters keep
  their C widths (\<open>index\<close> is a \<open>uint8_t\<close>, \<open>eindex\<close> a \<open>uint16_t\<close>).
\<close>

definition TLS_SNI_LENGTH :: nat where "TLS_SNI_LENGTH = 255"
definition TLS_HANDSHAKE_RECORD :: u8 where "TLS_HANDSHAKE_RECORD = 22"
definition TLS_MESSAGE_CLIENTHELLO :: u8 where "TLS_MESSAGE_CLIENTHELLO = 1"
definition TLS_EXTENSION_TYPE_SERVER_NAME :: u16 where "TLS_EXTENSION_TYPE_SERVER_NAME = 0"

lemmas tls_consts = TLS_SNI_LENGTH_def TLS_HANDSHAKE_RECORD_def TLS_MESSAGE_CLIENTHELLO_def
  TLS_EXTENSION_TYPE_SERVER_NAME_def

text \<open>The body of the server-name extension, \<open>eindex\<close> at its first byte.\<close>

definition sni_name :: "buf \<Rightarrow> u16 \<Rightarrow> u16 \<Rightarrow> buf option option" where
  "sni_name edata edatalen eindex =
     (if unat eindex + 1 \<ge> unat edatalen then Some None
      else do {
        sni_len \<leftarrow> rdbe16 edata (unat eindex);
        let eindex = eindex + 2;
        if unat eindex + unat sni_len \<ge> unat edatalen then Some None
        else if eindex \<ge> edatalen then Some None
        else do {
          sni_type \<leftarrow> rd8 edata (unat eindex);
          let eindex = eindex + 1;
          if sni_type \<noteq> 0 then Some None
          else if unat eindex + 1 \<ge> unat edatalen then Some None
          else do {
            name_len \<leftarrow> rdbe16 edata (unat eindex);
            let eindex = eindex + 2;
            if unat eindex + unat name_len \<ge> unat edatalen then Some None
            else if unat name_len \<ge> TLS_SNI_LENGTH then Some None
            else do {
              name \<leftarrow> rd_bytes edata (unat eindex) (unat name_len);
              Some (Some name)
            }
          }
        }
      })"

text \<open>The loop over the extensions.\<close>

function sni_ext :: "buf \<Rightarrow> u16 \<Rightarrow> u16 \<Rightarrow> buf option option" where
  "sni_ext edata edatalen eindex =
     (if eindex < edatalen then
        if unat eindex + 1 \<ge> unat edatalen then Some None
        else (case rdbe16 edata (unat eindex) of None \<Rightarrow> None | Some ext_type \<Rightarrow>
          if unat (eindex + 2) + 1 \<ge> unat edatalen then Some None
          else (case rdbe16 edata (unat (eindex + 2)) of None \<Rightarrow> None | Some ext_len \<Rightarrow>
            if unat (eindex + 4) + unat ext_len > unat edatalen then Some None
            else if ext_type = TLS_EXTENSION_TYPE_SERVER_NAME
            then sni_name edata edatalen (eindex + 4)
            else sni_ext edata edatalen (eindex + 4 + ext_len)))
      else Some None)"
  by pat_completeness auto

text \<open>The 16 bit counter does not wrap while the guards hold.\<close>

lemma unat_add2_u16: "unat (i :: u16) + 1 < unat (n :: u16) \<Longrightarrow> unat (i + 2) = unat i + 2"
proof -
  assume "unat i + 1 < unat n"
  then have "unat i + 2 < 65536" using unat_lt_65536 [of n] by linarith
  then show ?thesis using unat_plus_u16 [of i 2] by simp
qed

lemma unat_add4_u16: "unat (i :: u16) + 3 < unat (n :: u16) \<Longrightarrow> unat (i + 4) = unat i + 4"
proof -
  assume "unat i + 3 < unat n"
  then have "unat i + 4 < 65536" using unat_lt_65536 [of n] by linarith
  then show ?thesis using unat_plus_u16 [of i 4] by simp
qed

lemma sni_ext_advance:
  assumes "unat (i :: u16) + 1 < unat (n :: u16)" "unat (i + 2) + 1 < unat n"
    "unat (i + 4) + unat (l :: u16) \<le> unat n"
  shows "unat (i + 4 + l) = unat i + 4 + unat l"
proof -
  have "unat i + 3 < unat n" using assms(1,2) by (simp add: unat_add2_u16)
  then have "unat (i + 4) = unat i + 4" by (rule unat_add4_u16)
  moreover have "unat (i + 4) + unat l < 65536"
    using assms(3) unat_lt_65536 [of n] by (simp only: le_less_trans)
  ultimately show ?thesis by (simp only: unat_plus_u16)
qed

termination sni_ext
  by (relation "measure (\<lambda>(_, n, i). unat n - unat i)")
    (auto simp: sni_ext_advance not_le not_less word_less_nat_alt)

declare sni_ext.simps [simp del]

text \<open>From the session identifier to the extensions: \<open>index\<close> wraps at 256.\<close>

definition sni_hello :: "buf \<Rightarrow> nat \<Rightarrow> buf option option" where
  "sni_hello data datalen =
     (let index = 6 + 3 + 2 + 32 :: u8 in
      if unat index \<ge> datalen then Some None
      else do {
        session_len \<leftarrow> rd8 data (unat index);
        let index = index + (1 + session_len);
        if unat index + 1 \<ge> datalen then Some None
        else do {
          suites_len \<leftarrow> rdbe16 data (unat index);
          let index = index + (2 + u16to8 suites_len);
          if unat index \<ge> datalen then Some None
          else do {
            compression_len \<leftarrow> rd8 data (unat index);
            let index = index + (1 + compression_len);
            if unat index + 1 \<ge> datalen then Some None
            else do {
              edatalen \<leftarrow> rdbe16 data (unat index);
              let index = index + 2;
              if edatalen = 0 \<or> unat index + unat edatalen \<noteq> datalen then Some None
              else sni_ext (drop (unat index) data) edatalen 0
            }
          }
        }
      })"

definition parse_sni :: "buf \<Rightarrow> u16 \<Rightarrow> buf option option" where
  "parse_sni data datalen =
     (if datalen < 6 then Some None
      else do {
        content_type \<leftarrow> rd8 data 0;
        major_version \<leftarrow> rd8 data 1;
        content_length \<leftarrow> rdbe16 data 3;
        message_type \<leftarrow> rd8 data 5;
        if content_type \<noteq> TLS_HANDSHAKE_RECORD \<or> major_version < 3 \<or>
           5 + unat content_length \<noteq> unat datalen \<or> message_type \<noteq> TLS_MESSAGE_CLIENTHELLO
        then Some None
        else sni_hello data (unat datalen)
      })"

section \<open>The parser stays inside the packet\<close>

lemma sni_name_safe: "unat n \<le> length e \<Longrightarrow> sni_name e n i \<noteq> None"
  by (auto simp: sni_name_def Let_def word_less_nat_alt word_le_nat_alt
      elim!: bind_NoneE split: if_splits iff del: not_None_eq)

lemma sni_name_length: "sni_name e n i = Some (Some name) \<Longrightarrow> length name < TLS_SNI_LENGTH"
  by (auto simp: sni_name_def Let_def elim!: bind_SomeE split: if_splits)

lemma sni_ext_safe: "unat n \<le> length e \<Longrightarrow> sni_ext e n i \<noteq> None"
proof (induction e n i rule: sni_ext.induct)
  case (1 e n i)
  then show ?case
    by (subst sni_ext.simps)
      (auto simp: sni_name_safe iff del: not_None_eq split: option.splits if_splits)
qed

lemma sni_ext_length: "sni_ext e n i = Some (Some name) \<Longrightarrow> length name < TLS_SNI_LENGTH"
proof (induction e n i rule: sni_ext.induct)
  case (1 e n i)
  then show ?case
    using sni_ext.simps [of e n i]
    by (auto dest: sni_name_length split: option.splits if_splits)
qed

lemma sni_hello_safe: "n \<le> length d \<Longrightarrow> sni_hello d n \<noteq> None"
  by (auto simp: sni_hello_def Let_def sni_ext_safe
      elim!: bind_NoneE split: if_splits iff del: not_None_eq)

lemma sni_hello_length: "sni_hello d n = Some (Some name) \<Longrightarrow> length name < TLS_SNI_LENGTH"
  by (auto simp: sni_hello_def Let_def elim!: bind_SomeE split: if_splits) (erule sni_ext_length)

lemma parse_sni_safe: "unat n \<le> length d \<Longrightarrow> parse_sni d n \<noteq> None"
  by (auto simp: parse_sni_def word_less_nat_alt sni_hello_safe
      elim!: bind_NoneE split: if_splits iff del: not_None_eq)

lemma parse_sni_length: "parse_sni d n = Some (Some name) \<Longrightarrow> length name < TLS_SNI_LENGTH"
  by (auto simp: parse_sni_def dest: sni_hello_length elim!: bind_SomeE split: if_splits)

section \<open>Reading back an encoded client hello\<close>

text \<open>
  The wire format the parser is meant for: an extension is its type, its length and its
  body; the server-name body is a list length, the type 0, the name's length and the name.
\<close>

definition enc_ext :: "nat \<times> buf \<Rightarrow> buf" where
  "enc_ext x = be_bytes (fst x) @ be_bytes (length (snd x)) @ snd x"

definition enc_sni :: "buf \<Rightarrow> buf" where
  "enc_sni name = be_bytes (length name + 3) @ [0] @ be_bytes (length name) @ name"

definition client_hello :: "u8 \<Rightarrow> u8 \<Rightarrow> buf \<Rightarrow> buf \<Rightarrow> buf \<Rightarrow> buf \<Rightarrow> buf \<Rightarrow> buf" where
  "client_hello major minor fixed sid suites compr exts =
     (let body = 1 # fixed @ word_of_nat (length sid) # sid @ be_bytes (length suites) @ suites @
                 word_of_nat (length compr) # compr @ be_bytes (length exts) @ exts
      in 22 # major # minor # be_bytes (length body) @ body)"

definition exts_with_sni :: "(nat \<times> buf) list \<Rightarrow> buf \<Rightarrow> buf \<Rightarrow> buf" where
  "exts_with_sni pre name post =
     concat (map enc_ext pre) @ enc_ext (0, enc_sni name) @ post"

lemma length_enc_ext [simp]: "length (enc_ext x) = 4 + length (snd x)"
  by (simp add: enc_ext_def)

lemma length_enc_sni [simp]: "length (enc_sni name) = 5 + length name"
  by (simp add: enc_sni_def)

lemma unat_of_nat_u16: "n < 65536 \<Longrightarrow> unat (word_of_nat n :: u16) = n"
  by (simp add: unat_of_nat)

lemma unat_of_nat_u8: "n < 256 \<Longrightarrow> unat (word_of_nat n :: u8) = n"
  by (simp add: unat_of_nat)

lemma sni_ext_step:
  assumes d: "drop (unat i) e = enc_ext (t, body) @ r" and "t < 65536" and n: "unat n = length e"
  shows "sni_ext e n i =
     (if t = 0 then sni_name e n (i + 4) else sni_ext e n (i + 4 + word_of_nat (length body)))"
    and "unat (i + 4) = unat i + 4"
    and "unat (i + 4 + word_of_nat (length body)) = unat i + 4 + length body"
proof -
  have len: "unat n = unat i + 4 + length body + length r"
    using arg_cong [OF d, of length] n by simp
  then have lb: "length body < 65536" using unat_lt_65536 [of n] by linarith
  have d2: "drop (unat i + 2) e = be_bytes (length body) @ body @ r"
    using arg_cong [OF d, of "drop 2"] by (simp add: enc_ext_def add.commute)
  have t: "rdbe16 e (unat i) = Some (word_of_nat t)"
    using assms by (intro rdbe16_be_bytes [where r = "be_bytes (length body) @ body @ r"])
      (simp_all add: enc_ext_def)
  have l: "rdbe16 e (unat i + 2) = Some (word_of_nat (length body))"
    using d2 lb by (intro rdbe16_be_bytes) simp_all
  have z: "(word_of_nat t :: u16) = 0 \<longleftrightarrow> t = 0"
    using unat_of_nat_u16 [OF assms(2)] by (auto simp: unat_eq_zero [symmetric])
  have u: "unat (i + 2) = unat i + 2" "unat (i + 4) = unat i + 4"
    using len by (simp_all add: unat_add2_u16 [of i n] unat_add4_u16 [of i n])
  have l2: "rdbe16 e (unat (i + 2)) = Some (word_of_nat (length body))"
    unfolding u by (rule l)
  have g: "i < n" "\<not> unat n \<le> unat i + 1" "\<not> unat n \<le> unat (i + 2) + 1"
      "\<not> unat n < unat (i + 4) + unat (word_of_nat (length body) :: u16)"
    using len by (simp_all add: word_less_nat_alt u unat_of_nat_u16 [OF lb])
  show "sni_ext e n i =
     (if t = 0 then sni_name e n (i + 4) else sni_ext e n (i + 4 + word_of_nat (length body)))"
    by (subst sni_ext.simps) (simp only: g t l2 z tls_consts if_True if_False option.case)
  show "unat (i + 4) = unat i + 4" by (rule u)
  have "unat (i + 4) + unat (word_of_nat (length body) :: u16) < 65536"
    using len unat_lt_65536 [of n] unfolding u unat_of_nat_u16 [OF lb] by linarith
  then show "unat (i + 4 + word_of_nat (length body)) = unat i + 4 + length body"
    by (simp only: unat_plus_u16 u unat_of_nat_u16 [OF lb])
qed

lemma sni_ext_skip:
  assumes "drop (unat i) e = concat (map enc_ext pre) @ r"
    "\<forall>x \<in> set pre. 0 < fst x \<and> fst x < 65536" "unat n = length e"
  obtains j where "sni_ext e n i = sni_ext e n j" "drop (unat j) e = r"
  using assms(1,2)
proof (induction pre arbitrary: i thesis)
  case (Cons x pre)
  obtain t body where x: "x = (t, body)" by (cases x)
  have d: "drop (unat i) e = enc_ext (t, body) @ concat (map enc_ext pre) @ r"
    using Cons.prems(2) x by simp
  have t: "0 < t" "t < 65536" using Cons.prems(3) x by auto
  let ?j = "i + 4 + word_of_nat (length body)"
  have "drop (unat ?j) e = concat (map enc_ext pre) @ r"
    using arg_cong [OF d, of "drop (4 + length body)"]
    unfolding sni_ext_step(3) [OF d t(2) assms(3)] by (simp add: add.commute add.left_commute)
  then obtain j where "sni_ext e n ?j = sni_ext e n j" "drop (unat j) e = r"
    using Cons.IH [of ?j] Cons.prems(3) by auto
  then show ?case
    using Cons.prems(1) sni_ext_step(1) [OF d t(2) assms(3)] t(1) by simp
qed simp

lemma sni_name_hit:
  assumes d: "drop (unat i) e = enc_sni name @ post" and n: "unat n = length e"
    and "length name < TLS_SNI_LENGTH" and p: "post \<noteq> []"
  shows "sni_name e n i = Some (Some name)"
proof -
  have len: "unat n = unat i + 5 + length name + length post"
    using arg_cong [OF d, of length] n by simp
  have post: "0 < length post" using p by simp
  have big: "unat n < 65536" by simp
  have u: "unat (i + 2) = unat i + 2" "unat (i + 2 + 1) = unat i + 3" "unat (i + 2 + 1 + 2) = unat i + 5"
    using unat_plus_u16 [of i 2] unat_plus_u16 [of i 3] unat_plus_u16 [of i 5] len big
    by (simp_all add: add.assoc)
  have nl: "length name < 255" using assms(3) by (simp add: tls_consts)
  have v: "unat (word_of_nat (length name + 3) :: u16) = length name + 3"
          "unat (word_of_nat (length name) :: u16) = length name"
    using nl by (intro unat_of_nat_u16; linarith)+
  have r1: "rdbe16 e (unat i) = Some (word_of_nat (length name + 3))"
    using d nl by (intro rdbe16_be_bytes [where r = "[0] @ be_bytes (length name) @ name @ post"])
      (simp_all add: enc_sni_def)
  have r2: "rd8 e (unat i + 2) = Some 0"
    using arg_cong [OF d, of "drop 2"]
    by (intro rd8_drop [where r = "be_bytes (length name) @ name @ post"])
      (simp add: enc_sni_def add.commute)
  have r3: "rdbe16 e (unat i + 3) = Some (word_of_nat (length name))"
    using arg_cong [OF d, of "drop 3"] nl
    by (intro rdbe16_be_bytes [where r = "name @ post"]) (simp_all add: enc_sni_def add.commute)
  have r4: "rd_bytes e (unat i + 5) (length name) = Some name"
    using arg_cong [OF d, of "drop 5"] len n
    by (intro rd_bytes_drop [where r = post]) (simp_all add: enc_sni_def add.commute)
  have g: "\<not> unat n \<le> unat i + 1" "\<not> unat n \<le> unat i + 2 + (length name + 3)" "\<not> n \<le> i + 2"
      "\<not> unat n \<le> unat i + 3 + 1" "\<not> unat n \<le> unat i + 5 + length name" "\<not> TLS_SNI_LENGTH \<le> length name"
    using len post nl by (simp_all add: word_le_nat_alt u(1) tls_consts)
  show ?thesis
    by (simp only: sni_name_def Let_def u v r1 r2 r3 r4 g if_False bind.simps simp_thms)
qed

text \<open>As the last extension, the name's end is the end of the extensions, which the code refuses.\<close>

lemma sni_name_last:
  assumes d: "drop (unat i) e = enc_sni name" and n: "unat n = length e"
    and "length name < 65533"
  shows "sni_name e n i = Some None"
proof -
  have len: "unat n = unat i + 5 + length name"
    using arg_cong [OF d, of length] n by simp
  have "unat n < 65536" by simp
  then have u: "unat (i + 2) = unat i + 2"
    using unat_plus_u16 [of i 2] len by simp
  have r1: "rdbe16 e (unat i) = Some (word_of_nat (length name + 3))"
    using d assms(3) by (intro rdbe16_be_bytes [where r = "[0] @ be_bytes (length name) @ name"])
      (simp_all add: enc_sni_def)
  have v: "unat (word_of_nat (length name + 3) :: u16) = length name + 3"
    using assms(3) by (intro unat_of_nat_u16) linarith
  have g: "\<not> unat n \<le> unat i + 1" "unat n \<le> unat i + 2 + (length name + 3)"
    using len by simp_all
  show ?thesis
    by (simp only: sni_name_def Let_def u v r1 g if_False if_True bind.simps simp_thms)
qed

lemma length_concat_exts: "length (exts_with_sni pre name post) =
    length (concat (map enc_ext pre)) + 9 + length name + length post"
  by (simp add: exts_with_sni_def)

text \<open>The extension loop on an encoded list, for either continuation after the name.\<close>

lemma sni_ext_exts:
  assumes "\<forall>x \<in> set pre. 0 < fst x \<and> fst x < 65536" "length name < TLS_SNI_LENGTH"
    and n: "unat n = length (exts_with_sni pre name post)"
  shows "sni_ext (exts_with_sni pre name post) n 0 = Some (if post = [] then None else Some name)"
proof -
  let ?e = "exts_with_sni pre name post"
  have "drop (unat (0 :: u16)) ?e = concat (map enc_ext pre) @ enc_ext (0, enc_sni name) @ post"
    by (simp add: exts_with_sni_def)
  then obtain j where j: "sni_ext ?e n 0 = sni_ext ?e n j"
      "drop (unat j) ?e = enc_ext (0, enc_sni name) @ post"
    using sni_ext_skip [OF _ assms(1) n] by blast
  have 0: "(0 :: nat) < 65536" by simp
  note step = sni_ext_step [OF j(2) 0 n]
  have d: "drop (unat (j + 4)) ?e = enc_sni name @ post"
    using arg_cong [OF j(2), of "drop 4"] unfolding step(2) by (simp add: enc_ext_def add.commute)
  have "sni_name ?e n (j + 4) = Some (if post = [] then None else Some name)"
    using sni_name_hit [OF d n assms(2)] sni_name_last [of "j + 4" ?e name n] d n assms(2)
    by (auto simp: tls_consts)
  then show ?thesis using j(1) step(1) by simp
qed

text \<open>
  The bytes before the extensions, when they fit below the wrap of the 8 bit \<open>index\<close>.
\<close>

lemma parse_sni_hello:
  assumes fixed: "length fixed = 37" and maj: "3 \<le> major"
    and fits: "49 + length sid + length suites + length compr < 256"
    and exts: "exts \<noteq> []" "length (client_hello major minor fixed sid suites compr exts) < 65536"
  shows "parse_sni (client_hello major minor fixed sid suites compr exts)
           (word_of_nat (length (client_hello major minor fixed sid suites compr exts))) =
         sni_ext exts (word_of_nat (length exts)) 0"
proof -
  let ?d = "client_hello major minor fixed sid suites compr exts"
  let ?s = "length sid" and ?u = "length suites" and ?c = "length compr"
  have len: "length ?d = 49 + ?s + ?u + ?c + length exts"
    using fixed by (simp add: client_hello_def Let_def)
  have le: "0 < length exts" using exts(1) by simp
  have nn: "unat (word_of_nat (length ?d) :: u16) = length ?d"
    using exts(2) by (rule unat_of_nat_u16)
  have d43: "drop 43 ?d = word_of_nat ?s # sid @ be_bytes ?u @ suites @ word_of_nat ?c # compr @
      be_bytes (length exts) @ exts"
    using fixed by (simp add: client_hello_def Let_def be_bytes_def)
  have d44: "drop (44 + ?s) ?d = be_bytes ?u @ suites @ word_of_nat ?c # compr @
      be_bytes (length exts) @ exts"
    using arg_cong [OF d43, of "drop (Suc ?s)"] by (simp add: add.commute)
  have d46: "drop (46 + ?s + ?u) ?d = word_of_nat ?c # compr @ be_bytes (length exts) @ exts"
    using arg_cong [OF d44, of "drop (2 + ?u)"] by (simp add: add.commute add.left_commute)
  have d47: "drop (47 + ?s + ?u + ?c) ?d = be_bytes (length exts) @ exts"
    using arg_cong [OF d46, of "drop (Suc ?c)"] by (simp add: add.commute add.left_commute)
  have d49: "drop (49 + ?s + ?u + ?c) ?d = exts"
    using arg_cong [OF d47, of "drop 2"] by (simp add: add.commute add.left_commute)
  have su: "u16to8 (word_of_nat ?u) = word_of_nat ?u"
    using fits by (simp add: word_unat_eq_iff unsigned_ucast_eq unat_of_nat take_bit_eq_mod)
  have w: "(43 :: u8) + (1 + word_of_nat ?s) = word_of_nat (44 + ?s)"
      "word_of_nat (44 + ?s) + ((2 :: u8) + word_of_nat ?u) = word_of_nat (46 + ?s + ?u)"
      "word_of_nat (46 + ?s + ?u) + ((1 :: u8) + word_of_nat ?c) = word_of_nat (47 + ?s + ?u + ?c)"
      "word_of_nat (47 + ?s + ?u + ?c) + (2 :: u8) = word_of_nat (49 + ?s + ?u + ?c)"
    by (simp_all add: add.commute add.left_commute)
  have u: "unat (word_of_nat (44 + ?s) :: u8) = 44 + ?s"
      "unat (word_of_nat (46 + ?s + ?u) :: u8) = 46 + ?s + ?u"
      "unat (word_of_nat (47 + ?s + ?u + ?c) :: u8) = 47 + ?s + ?u + ?c"
      "unat (word_of_nat (49 + ?s + ?u + ?c) :: u8) = 49 + ?s + ?u + ?c"
    using fits by (intro unat_of_nat_u8; linarith)+
  have e: "unat (word_of_nat (length exts) :: u16) = length exts"
    using exts(2) len by (intro unat_of_nat_u16) linarith
  have e0: "(word_of_nat (length exts) :: u16) \<noteq> 0"
    using e le by (metis unat_0 less_irrefl)
  have r1: "rd8 ?d 43 = Some (word_of_nat ?s)" using d43 by (rule rd8_drop)
  have r2: "rdbe16 ?d (44 + ?s) = Some (word_of_nat ?u)"
    using d44 fits by (intro rdbe16_be_bytes) simp_all
  have r3: "rd8 ?d (46 + ?s + ?u) = Some (word_of_nat ?c)" using d46 by (rule rd8_drop)
  have r4: "rdbe16 ?d (47 + ?s + ?u + ?c) = Some (word_of_nat (length exts))"
    using d47 exts(2) len by (intro rdbe16_be_bytes [where r = exts]) simp_all
  have k: "(6 + 3 + 2 + 32 :: u8) = 43" "unat (43 :: u8) = 43" by simp_all
  have g: "\<not> length ?d \<le> 43" "\<not> length ?d \<le> 44 + ?s + 1" "\<not> length ?d \<le> 46 + ?s + ?u"
      "\<not> length ?d \<le> 47 + ?s + ?u + ?c + 1" "49 + ?s + ?u + ?c + length exts = length ?d"
    using len le by simp_all
  have h: "sni_hello ?d (length ?d) = sni_ext exts (word_of_nat (length exts)) 0"
    by (simp only: sni_hello_def Let_def k r1 w su r2 r3 r4 u e e0 d49 g bind.simps if_False simp_thms)
  have c: "unat (word_of_nat (length ?d - 5) :: u16) = length ?d - 5"
    using exts(2) by (intro unat_of_nat_u16) linarith
  have r5: "rdbe16 ?d 3 = Some (word_of_nat (length ?d - 5))"
    using exts(2) len fixed
    by (intro rdbe16_be_bytes [where r = "drop 5 ?d"])
      (simp_all add: client_hello_def Let_def)
  have r6: "rd8 ?d 0 = Some 22" "rd8 ?d 1 = Some major" "rd8 ?d 5 = Some 1"
    by (simp_all add: client_hello_def Let_def be_bytes_def)
  have "\<not> word_of_nat (length ?d) < (6 :: u16)"
    unfolding word_less_nat_alt nn using len by simp
  moreover have "\<not> major < 3" using maj by simp
  moreover have "5 + (length ?d - 5) = length ?d" using len by simp
  ultimately show ?thesis
    by (simp only: parse_sni_def tls_consts nn c r5 r6 h bind.simps if_False simp_thms)
qed

text \<open>
  The server name of a client hello whose bytes before the extensions stay below the wrap of
  \<open>index\<close>: found when another extension follows, missed when the name is the last extension.
\<close>

lemma parse_sni_client_hello:
  assumes "length fixed = 37" "3 \<le> major" "49 + length sid + length suites + length compr < 256"
    and pre: "\<forall>x \<in> set pre. 0 < fst x \<and> fst x < 65536" and name: "length name < TLS_SNI_LENGTH"
    and d: "d = client_hello major minor fixed sid suites compr (exts_with_sni pre name post)"
    and n: "length d < 65536"
  shows "parse_sni d (word_of_nat (length d)) = Some (if post = [] then None else Some name)"
proof -
  let ?e = "exts_with_sni pre name post"
  have "?e \<noteq> []" using length_concat_exts [of pre name post] by force
  then have "parse_sni d (word_of_nat (length d)) = sni_ext ?e (word_of_nat (length ?e)) 0"
    using assms(1-3) n unfolding d by (intro parse_sni_hello) simp_all
  moreover have "length ?e < 65536"
    using n assms(1) unfolding d by (simp add: client_hello_def Let_def)
  ultimately show ?thesis
    using sni_ext_exts [OF pre name] by (simp add: unat_of_nat_u16)
qed

section \<open>Claims\<close>

text \<open>
  C27: \<open>parse_sni\<close> never reads outside the \<open>datalen\<close> bytes it is given, whatever they are, and
  never stores a name that does not fit the caller's buffer with its terminator.
\<close>

theorem parse_sni_memory_safe:
  assumes "unat datalen \<le> length data"
  shows "\<exists>r. parse_sni data datalen = Some r \<and> (\<forall>name. r = Some name \<longrightarrow> length name < TLS_SNI_LENGTH)"
  using parse_sni_safe [OF assms] parse_sni_length by (cases "parse_sni data datalen") auto

theorem parse_sni_memory_safe_witness:
  "\<exists>r. parse_sni [22, 3, 1, 0, 5] 5 = Some r"
  using parse_sni_memory_safe [of 5 "[22, 3, 1, 0, 5]"] by auto

text \<open>
  C29: for a well-formed client hello whose session id, cipher suites and compression methods
  keep the 8 bit \<open>index\<close> from wrapping, \<open>parse_sni\<close> returns the server name if and only if
  some byte follows the server-name extension; a name in the last extension is missed.
\<close>

theorem parse_sni_finds_name:
  assumes "length fixed = 37" "3 \<le> major" "49 + length sid + length suites + length compr < 256"
    and "\<forall>x \<in> set pre. 0 < fst x \<and> fst x < 65536" "length name < TLS_SNI_LENGTH"
    and "d = client_hello major minor fixed sid suites compr (exts_with_sni pre name post)"
    and "length d < 65536"
  shows "parse_sni d (word_of_nat (length d)) = Some (if post = [] then None else Some name)"
  using assms by (rule parse_sni_client_hello)

theorem parse_sni_finds_name_witness:
  "let d = client_hello 3 1 (replicate 37 0) [] [0, 47] [0] (exts_with_sni [(10, [1, 2])] [97, 46, 98] [0, 11, 0, 0])
   in parse_sni d (word_of_nat (length d)) =
     Some (if [0, 11, 0, 0] = ([] :: buf) then None else Some [97, 46, 98])"
  unfolding Let_def
  by (rule parse_sni_finds_name [OF _ _ _ _ _ refl])
    (simp_all add: tls_consts client_hello_def exts_with_sni_def length_concat_exts)

end
