(* ===== verification/Dns.thy ===== *)
theory Dns
  imports Prelude
begin

text \<open>
  The DNS response parser of \<open>dns.c\<close>: \<open>get_qname\<close> with its compression pointers, and
  \<open>parse_dns_response\<close>, whose calls of \<open>dns_resolved\<close> are the list it returns. A result
  is \<^term>\<open>None\<close> when the code would read outside the response or write outside a
  name buffer. Log calls are left out; addresses stay the bytes \<open>inet_ntop\<close> prints.
\<close>

definition DNS_QNAME_MAX :: nat where "DNS_QNAME_MAX = 255"
definition DNS_QCLASS_IN :: u16 where "DNS_QCLASS_IN = 1"
definition DNS_QTYPE_A :: u16 where "DNS_QTYPE_A = 1"
definition DNS_QTYPE_AAAA :: u16 where "DNS_QTYPE_AAAA = 28"

lemmas dns_consts = DNS_QNAME_MAX_def DNS_QCLASS_IN_def DNS_QTYPE_A_def DNS_QTYPE_AAAA_def

section \<open>Names: \<open>get_qname\<close>\<close>

text \<open>The locals of the loop: \<open>c\<close>, \<open>noff\<close>, \<open>ptr\<close>, \<open>len\<close>, the argument \<open>off\<close> and the name buffer.\<close>

record qname_state =
  qn_c :: bool
  qn_noff :: u8
  qn_ptr :: u16
  qn_len :: u8
  qn_off :: u16
  qn_name :: buf

text \<open>The branch of a compression pointer: the state after it, or \<open>Inl\<close> for the \<open>break\<close>.\<close>

definition qname_jump :: "buf \<Rightarrow> nat \<Rightarrow> qname_state \<Rightarrow> (qname_state + qname_state) option" where
  "qname_jump data datalen s = do {
     low \<leftarrow> rd8 data (unat (qn_ptr s) + 1);
     let jump = u8to16 (qn_len s AND 0x3F) * 256 + u8to16 low;
     if unat jump \<ge> datalen then Some (Inl s)
     else do {
       len \<leftarrow> rd8 data (unat jump);
       let s' = s\<lparr>qn_ptr := jump, qn_len := len\<rparr>;
       Some (Inr (if \<not> qn_c s then s'\<lparr>qn_c := True, qn_off := qn_off s + 2\<rparr> else s'))
     }
   }"

text \<open>The branch of a label.\<close>

definition qname_label :: "buf \<Rightarrow> nat \<Rightarrow> qname_state \<Rightarrow> (qname_state + qname_state) option" where
  "qname_label data datalen s = do {
     label \<leftarrow> rd_bytes data (unat (qn_ptr s) + 1) (unat (qn_len s));
     name \<leftarrow> wr_bytes (qn_name s) (unat (qn_noff s)) label;
     name \<leftarrow> wr_bytes name (unat (qn_noff s) + unat (qn_len s)) [46];
     let s' = s\<lparr>qn_name := name, qn_noff := qn_noff s + (qn_len s + 1)\<rparr>;
     let jump = (word_of_nat (unat (qn_ptr s) + 1 + unat (qn_len s)) :: u16);
     if unat jump \<ge> datalen then Some (Inl s')
     else do {
       len \<leftarrow> rd8 data (unat jump);
       Some (Inr (s'\<lparr>qn_ptr := jump, qn_len := len\<rparr>))
     }
   }"

text \<open>The loop; \<open>count\<close> is the \<open>uint8_t\<close> that ends it after 26 rounds.\<close>

function qname_loop :: "buf \<Rightarrow> nat \<Rightarrow> nat \<Rightarrow> qname_state \<Rightarrow> qname_state option" where
  "qname_loop data datalen count s =
     (if qn_len s = 0 then Some s
      else if count > 25 then Some s
      else
        (case (if unat (qn_ptr s) + 1 < datalen \<and> qn_len s AND 0xC0 \<noteq> 0
               then qname_jump data datalen s
               else if unat (qn_ptr s) + 1 + unat (qn_len s) < datalen \<and>
                       unat (qn_noff s) + unat (qn_len s) \<le> DNS_QNAME_MAX
               then qname_label data datalen s
               else Some (Inl s)) of
           None \<Rightarrow> None
         | Some (Inl s') \<Rightarrow> Some s'
         | Some (Inr s') \<Rightarrow> qname_loop data datalen (count + 1) s'))"
  by pat_completeness auto
termination
  by (relation "measure (\<lambda>(_, _, count, _). 26 - count)") auto

declare qname_loop.simps [simp del]

text \<open>The return value is the offset after the name, \<open>-1\<close> for an invalid one.\<close>

definition get_qname :: "buf \<Rightarrow> nat \<Rightarrow> u16 \<Rightarrow> buf \<Rightarrow> (int \<times> buf) option" where
  "get_qname data datalen off qname = do {
     qname \<leftarrow> wr_bytes qname 0 [0];
     if unat off \<ge> datalen then Some (-1, qname)
     else do {
       len \<leftarrow> rd8 data (unat off);
       s \<leftarrow> qname_loop data datalen 0
              \<lparr>qn_c = False, qn_noff = 0, qn_ptr = off, qn_len = len, qn_off = off, qn_name = qname\<rparr>;
       let ptr = qn_ptr s + 1;
       if qn_len s > 0 \<or> qn_noff s = 0 then Some (-1, qn_name s)
       else do {
         name \<leftarrow> wr_bytes (qn_name s) (unat (qn_noff s) - 1) [0];
         Some (if qn_c s then uint (qn_off s) else uint ptr, name)
       }
     }
   }"

section \<open>Responses: \<open>parse_dns_response\<close>\<close>

text \<open>One call of \<open>dns_resolved\<close>; the address is the bytes handed to \<open>inet_ntop\<close>.\<close>

record dns_report =
  rr_qname :: buf
  rr_aname :: buf
  rr_resource :: buf
  rr_ttl :: u32

text \<open>The loop over the answers, \<open>n\<close> of them left; the reports made before a \<open>return\<close> stay made.\<close>

fun dns_answers :: "buf \<Rightarrow> nat \<Rightarrow> buf \<Rightarrow> nat \<Rightarrow> int \<Rightarrow> buf \<Rightarrow> dns_report list option" where
  "dns_answers data datalen qname 0 off name = Some []"
| "dns_answers data datalen qname (Suc n) off name = do {
     (off, name) \<leftarrow> get_qname data datalen (word_of_int off) name;
     if off > 0 \<and> off + 10 \<le> int datalen then do {
       qtype \<leftarrow> ld16 data (nat off);
       qclass \<leftarrow> ld16 data (nat off + 2);
       ttl \<leftarrow> ld32 data (nat off + 4);
       rdlength \<leftarrow> ld16 data (nat off + 8);
       let qtype = ntohs qtype;
       let qclass = ntohs qclass;
       let ttl = ntohl ttl;
       let rdlength = ntohs rdlength;
       let off = off + 10;
       if off + uint rdlength \<le> int datalen then
         if qclass = DNS_QCLASS_IN \<and> (qtype = DNS_QTYPE_A \<or> qtype = DNS_QTYPE_AAAA) then
           let size = (if qtype = DNS_QTYPE_A then 4 else 16) in
           if off + int size \<le> int datalen then do {
             rd \<leftarrow> rd_bytes data (nat off) size;
             rest \<leftarrow> dns_answers data datalen qname n (off + uint rdlength) name;
             Some (\<lparr>rr_qname = qname, rr_aname = cstring name, rr_resource = rd, rr_ttl = ttl\<rparr> # rest)
           }
           else Some []
         else dns_answers data datalen qname n (off + uint rdlength) name
       else Some []
     }
     else Some []
   }"

text \<open>
  \<open>name\<close> is the 256 byte local of the C function. The header's bit fields are those of the
  little-endian layout: \<open>qr\<close> is bit 7 of its third byte, \<open>opcode\<close> bits 3 to 6.
\<close>

definition parse_dns_response :: "buf \<Rightarrow> nat \<Rightarrow> buf \<Rightarrow> dns_report list option" where
  "parse_dns_response data datalen name =
     (if datalen < 12 + 1 then Some []
      else do {
        flags \<leftarrow> rd8 data 2;
        q_count \<leftarrow> ld16 data 4;
        ans_count \<leftarrow> ld16 data 6;
        let qcount = unat (ntohs q_count);
        let acount = unat (ntohs ans_count);
        if bit flags 7 \<and> drop_bit 3 flags AND 0x0F = 0 \<and> qcount > 0 \<and> acount > 0 then do {
          (off, name) \<leftarrow> get_qname data datalen 12 name;
          if off > 0 \<and> off + 4 \<le> int datalen
          then dns_answers data datalen (cstring name) acount (off + 4) name
          else Some []
        }
        else Some []
      })"

section \<open>The parser stays inside its buffers\<close>

lemma wr_bytes_None [simp]: "wr_bytes b off src = None \<longleftrightarrow> length b < off + length src"
  by (auto simp: wr_bytes_def)

text \<open>Both branches computed out, for a state whose reads are in range.\<close>

definition jump_target :: "buf \<Rightarrow> qname_state \<Rightarrow> u16" where
  "jump_target data s = u8to16 (qn_len s AND 0x3F) * 256 + u8to16 (data ! (unat (qn_ptr s) + 1))"

lemma qname_jump_eq:
  assumes "datalen \<le> length data" "unat (qn_ptr s) + 1 < datalen"
  shows "qname_jump data datalen s =
    Some (if unat (jump_target data s) \<ge> datalen then Inl s
          else let s' = s\<lparr>qn_ptr := jump_target data s, qn_len := data ! unat (jump_target data s)\<rparr>
               in Inr (if \<not> qn_c s then s'\<lparr>qn_c := True, qn_off := qn_off s + 2\<rparr> else s'))"
proof -
  have "rd8 data (unat (qn_ptr s) + 1) = Some (data ! (unat (qn_ptr s) + 1))"
    using assms by (intro rd8_in) linarith
  moreover have "\<not> datalen \<le> unat (jump_target data s) \<Longrightarrow>
      rd8 data (unat (jump_target data s)) = Some (data ! unat (jump_target data s))"
    using assms(1) by (intro rd8_in) linarith
  ultimately show ?thesis
    by (cases "datalen \<le> unat (jump_target data s)")
      (simp_all only: qname_jump_def Let_def bind.simps jump_target_def [symmetric] simp_thms if_True if_False)
qed

definition label_target :: "qname_state \<Rightarrow> u16" where
  "label_target s = word_of_nat (unat (qn_ptr s) + 1 + unat (qn_len s))"

definition put_label :: "buf \<Rightarrow> qname_state \<Rightarrow> qname_state" where
  "put_label data s = s\<lparr>
     qn_name := take (unat (qn_noff s)) (qn_name s) @
        take (unat (qn_len s)) (drop (unat (qn_ptr s) + 1) data) @
        46 # drop (unat (qn_noff s) + unat (qn_len s) + 1) (qn_name s),
     qn_noff := qn_noff s + (qn_len s + 1)\<rparr>"

lemma put_label_sel [simp]:
  "qn_c (put_label data s) = qn_c s" "qn_ptr (put_label data s) = qn_ptr s"
  "qn_off (put_label data s) = qn_off s" "qn_noff (put_label data s) = qn_noff s + (qn_len s + 1)"
  by (simp_all add: put_label_def)

lemma qname_label_eq:
  assumes "datalen \<le> length data" "length (qn_name s) = DNS_QNAME_MAX + 1"
    "unat (qn_ptr s) + 1 + unat (qn_len s) < datalen"
    "unat (qn_noff s) + unat (qn_len s) \<le> DNS_QNAME_MAX"
  shows "qname_label data datalen s =
    Some (if unat (label_target s) \<ge> datalen then Inl (put_label data s)
          else Inr ((put_label data s)\<lparr>qn_ptr := label_target s,
                      qn_len := data ! unat (label_target s)\<rparr>))"
proof -
  let ?l = "take (unat (qn_len s)) (drop (unat (qn_ptr s) + 1) data)"
  let ?n = "take (unat (qn_noff s)) (qn_name s) @ ?l @ drop (unat (qn_noff s) + unat (qn_len s)) (qn_name s)"
  have ll: "length ?l = unat (qn_len s)" using assms by simp
  have r: "rd_bytes data (unat (qn_ptr s) + 1) (unat (qn_len s)) = Some ?l"
    using assms by (intro rd_bytes_in) linarith
  have w1: "wr_bytes (qn_name s) (unat (qn_noff s)) ?l = Some ?n"
    using assms ll by (simp add: wr_bytes_def)
  have w2: "wr_bytes ?n (unat (qn_noff s) + unat (qn_len s)) [46] =
      Some (take (unat (qn_noff s)) (qn_name s) @ ?l @
            46 # drop (unat (qn_noff s) + unat (qn_len s) + 1) (qn_name s))"
    using assms ll by (simp add: wr_bytes_def)
  have "\<not> datalen \<le> unat (label_target s) \<Longrightarrow>
      rd8 data (unat (label_target s)) = Some (data ! unat (label_target s))"
    using assms(1) by (intro rd8_in) linarith
  then show ?thesis
    by (cases "datalen \<le> unat (label_target s)")
      (simp_all only: qname_label_def Let_def bind.simps r w1 w2 label_target_def [symmetric]
        put_label_def [symmetric] simp_thms if_True if_False)
qed

lemma length_put_label:
  assumes "length (qn_name s) = DNS_QNAME_MAX + 1" "unat (qn_ptr s) + 1 + unat (qn_len s) < length data"
    "unat (qn_noff s) + unat (qn_len s) \<le> DNS_QNAME_MAX"
  shows "length (qn_name (put_label data s)) = DNS_QNAME_MAX + 1"
  using assms by (simp add: put_label_def)

lemma qname_loop_safe:
  assumes "datalen \<le> length data" "length (qn_name s) = DNS_QNAME_MAX + 1"
  shows "\<exists>s'. qname_loop data datalen count s = Some s' \<and> length (qn_name s') = DNS_QNAME_MAX + 1"
  using assms
proof (induction data datalen count s rule: qname_loop.induct)
  case (1 data datalen count s)
  note unfold = qname_loop.simps [of data datalen count s]
  consider (stop) "qn_len s = 0 \<or> count > 25"
    | (jump) "qn_len s \<noteq> 0" "\<not> count > 25" "unat (qn_ptr s) + 1 < datalen \<and> qn_len s AND 0xC0 \<noteq> 0"
    | (label) "qn_len s \<noteq> 0" "\<not> count > 25" "\<not> (unat (qn_ptr s) + 1 < datalen \<and> qn_len s AND 0xC0 \<noteq> 0)"
        "unat (qn_ptr s) + 1 + unat (qn_len s) < datalen \<and> unat (qn_noff s) + unat (qn_len s) \<le> DNS_QNAME_MAX"
    | (neither) "qn_len s \<noteq> 0" "\<not> count > 25" "\<not> (unat (qn_ptr s) + 1 < datalen \<and> qn_len s AND 0xC0 \<noteq> 0)"
        "\<not> (unat (qn_ptr s) + 1 + unat (qn_len s) < datalen \<and> unat (qn_noff s) + unat (qn_len s) \<le> DNS_QNAME_MAX)"
    by blast
  then show ?case
  proof cases
    case stop
    then show ?thesis using "1.prems" by (auto simp: unfold)
  next
    case jump
    then have j: "qname_jump data datalen s \<in> {Some (Inl s), Some (Inr (s\<lparr>qn_ptr := jump_target data s,
        qn_len := data ! unat (jump_target data s), qn_c := True, qn_off := qn_off s + 2\<rparr>)),
        Some (Inr (s\<lparr>qn_ptr := jump_target data s, qn_len := data ! unat (jump_target data s)\<rparr>))}"
      using "1.prems"(1) by (auto simp: qname_jump_eq Let_def)
    then show ?thesis
      using jump "1.prems" "1.IH" by (auto simp: unfold)
  next
    case label
    let ?s = "(put_label data s)\<lparr>qn_ptr := label_target s, qn_len := data ! unat (label_target s)\<rparr>"
    have l: "length (qn_name (put_label data s)) = DNS_QNAME_MAX + 1"
      using label "1.prems" by (intro length_put_label) auto
    have "qname_label data datalen s \<in> {Some (Inl (put_label data s)), Some (Inr ?s)}"
      using label "1.prems" by (auto simp: qname_label_eq)
    then show ?thesis
      using label "1.prems" "1.IH" l by (auto simp: unfold simp del: One_nat_def)
  next
    case neither
    then show ?thesis using "1.prems" by (auto simp: unfold)
  qed
qed

lemma get_qname_safe:
  assumes "datalen \<le> length data" "length qname = DNS_QNAME_MAX + 1"
  shows "\<exists>r name. get_qname data datalen off qname = Some (r, name) \<and>
           length name = DNS_QNAME_MAX + 1 \<and> -1 \<le> r \<and> r < 65536"
proof -
  have w: "wr_bytes qname 0 [0] = Some (0 # drop 1 qname)"
    using assms(2) by (simp add: wr_bytes_def)
  show ?thesis
  proof (cases "unat off \<ge> datalen")
    case True
    then show ?thesis using w assms(2) by (simp add: get_qname_def)
  next
    case False
    then have r: "rd8 data (unat off) = Some (data ! unat off)" using assms(1) by simp
    let ?s = "\<lparr>qn_c = False, qn_noff = 0, qn_ptr = off, qn_len = data ! unat off, qn_off = off,
                qn_name = 0 # drop 1 qname\<rparr>"
    obtain s where s: "qname_loop data datalen 0 ?s = Some s" "length (qn_name s) = DNS_QNAME_MAX + 1"
      using qname_loop_safe [OF assms(1), of ?s 0] assms(2) by auto
    have b: "uint (x :: u16) < 65536" "-1 \<le> uint x" for x
      using uint_lt2p [of x] order_trans [OF _ uint_ge_0 [of x], of "-1"] by simp_all
    have n: "unat (qn_noff s) \<le> DNS_QNAME_MAX" by (simp add: dns_consts)
    have "qn_noff s \<noteq> 0 \<Longrightarrow> \<exists>name. wr_bytes (qn_name s) (unat (qn_noff s) - 1) [0] = Some name \<and>
        length name = DNS_QNAME_MAX + 1"
      using n s(2) by (auto simp: wr_bytes_def unat_eq_zero [symmetric])
    then show ?thesis
      using False w r s b by (auto simp: get_qname_def Let_def)
  qed
qed

lemma dns_answers_safe:
  assumes "datalen \<le> length data" "length name = DNS_QNAME_MAX + 1"
  shows "\<exists>rs. dns_answers data datalen qname n off name = Some rs \<and> length rs \<le> n"
  using assms(2)
proof (induction n arbitrary: off name)
  case (Suc n)
  obtain r name' where g: "get_qname data datalen (word_of_int off) name = Some (r, name')"
      "length name' = DNS_QNAME_MAX + 1"
    using get_qname_safe [OF assms(1) Suc.prems] by blast
  show ?case
  proof (cases "r > 0 \<and> r + 10 \<le> int datalen")
    case True
    then have bound: "nat r + 10 \<le> length data" using assms(1) by linarith
    have IH: "\<exists>rs. dns_answers data datalen qname n off' name' = Some rs \<and> length rs \<le> n" for off'
      using g(2) by (rule Suc.IH)
    have rd: "r + 10 + int size \<le> int datalen \<Longrightarrow>
        rd_bytes data (nat (r + 10)) size = Some (take size (drop (nat (r + 10)) data))" for size
      using True assms(1) by (intro rd_bytes_in) linarith
    have l16: "\<exists>x. ld16 data (nat r + k) = Some x" if "k \<le> 8" for k
      using bound that by (simp add: ld16_def)
    have l32: "\<exists>x. ld32 data (nat r + 4) = Some x"
      using bound by (simp add: ld32_def)
    obtain a b c d where l:
      "ld16 data (nat r) = Some a" "ld16 data (nat r + 2) = Some b"
      "ld32 data (nat r + 4) = Some c" "ld16 data (nat r + 8) = Some d"
      using l16 [of 0] l16 [of 2] l16 [of 8] l32 by auto
    obtain rs where rs: "dns_answers data datalen qname n (r + 10 + uint (ntohs d)) name' = Some rs"
        "length rs \<le> n"
      using IH by blast
    show ?thesis
      using rs(2) True by (auto simp: Let_def g l rs(1) rd simp del: rd_bytes_Some add_2_eq_Suc')
  qed (use g in auto)
qed simp

lemma parse_dns_response_safe:
  assumes "datalen \<le> length data" "length name = DNS_QNAME_MAX + 1"
  shows "\<exists>rs. parse_dns_response data datalen name = Some rs"
proof (cases "datalen < 13")
  case False
  then have l: "rd8 data 2 = Some (data ! 2)" "ld16 data 4 = Some (le16 (data ! 4) (data ! (4 + 1)))"
      "ld16 data 6 = Some (le16 (data ! 6) (data ! (6 + 1)))"
    using assms(1) by (simp_all add: ld16_in)
  obtain r name' where g: "get_qname data datalen 12 name = Some (r, name')"
      "length name' = DNS_QNAME_MAX + 1"
    using get_qname_safe [OF assms] by blast
  have "\<exists>rs. dns_answers data datalen q n off name' = Some rs" for q n off
    using dns_answers_safe [OF assms(1) g(2)] by blast
  then show ?thesis
    by (simp add: parse_dns_response_def l g(1) Let_def)
qed (simp add: parse_dns_response_def)

section \<open>Reading back an encoded name\<close>

text \<open>The wire format of a name: each label after its length, then a zero byte.\<close>

definition enc_label :: "buf \<Rightarrow> buf" where
  "enc_label l = word_of_nat (length l) # l"

definition enc_name :: "buf list \<Rightarrow> buf" where
  "enc_name ls = concat (map enc_label ls) @ [0]"

text \<open>The text of a name: every label followed by a dot, the last dot left out.\<close>

definition dotted :: "buf list \<Rightarrow> buf" where
  "dotted ls = butlast (concat (map (\<lambda>l. l @ [46]) ls))"

definition valid_labels :: "buf list \<Rightarrow> bool" where
  "valid_labels ls \<longleftrightarrow> ls \<noteq> [] \<and> (\<forall>l \<in> set ls. 0 < length l \<and> length l < 64 \<and> 0 \<notin> set l) \<and>
     length (concat (map enc_label ls)) \<le> DNS_QNAME_MAX"

lemma length_concat_label: "length (concat (map (\<lambda>l. l @ [46]) ls)) = length (concat (map enc_label ls))"
  by (induction ls) (simp_all add: enc_label_def)

lemma label_no_pointer: "n < 64 \<Longrightarrow> (word_of_nat n :: u8) AND 0xC0 = 0"
proof -
  assume "n < 64"
  then have "(word_of_nat n :: u8) < 64" by (simp add: word_less_nat_alt unat_of_nat)
  then have "(word_of_nat n :: u8) AND mask 6 = word_of_nat n" by (intro less_mask_eq) simp
  then have "(word_of_nat n :: u8) AND 0xC0 = word_of_nat n AND (mask 6 AND 0xC0)"
    by (metis and.assoc)
  also have "(mask 6 AND 0xC0 :: u8) = 0" by (simp add: mask_eq_exp_minus_1)
  finally show ?thesis by simp
qed

text \<open>
  One round of the loop over a label that fits: the label and its dot are stored and the
  cursor moves to the next length byte.
\<close>

lemma qname_loop_label:
  assumes len: "datalen \<le> length data" "datalen \<le> 65535" "length (qn_name s) = DNS_QNAME_MAX + 1"
    and at: "drop (unat (qn_ptr s)) data = enc_label l @ c # r"
    and here: "qn_len s = word_of_nat (length l)" "0 < length l" "length l < 64"
    and fit: "unat (qn_ptr s) + length l + 1 < datalen"
      "unat (qn_noff s) + length l + 1 \<le> DNS_QNAME_MAX" and count: "count \<le> 25"
  shows "\<exists>s'. qname_loop data datalen count s = qname_loop data datalen (count + 1) s' \<and>
    drop (unat (qn_ptr s')) data = c # r \<and> unat (qn_ptr s') = unat (qn_ptr s) + length l + 1 \<and>
    qn_len s' = c \<and> unat (qn_noff s') = unat (qn_noff s) + length l + 1 \<and> qn_c s' = qn_c s \<and>
    qn_off s' = qn_off s \<and> length (qn_name s') = DNS_QNAME_MAX + 1 \<and>
    take (unat (qn_noff s')) (qn_name s') = take (unat (qn_noff s)) (qn_name s) @ l @ [46]"
proof -
  have ul: "unat (qn_len s) = length l" using here by (simp add: unat_of_nat)
  have nz: "qn_len s \<noteq> 0" using ul here(2) by auto
  have np: "qn_len s AND 0xC0 = 0" using here label_no_pointer by simp
  have lt: "unat (label_target s) = unat (qn_ptr s) + length l + 1"
    using fit(1) len(2) ul by (simp add: label_target_def unat_of_nat del: of_nat_Suc of_nat_add)
  have d: "drop (unat (label_target s)) data = c # r"
  proof -
    have "drop (unat (label_target s)) data = drop (length l + 1) (drop (unat (qn_ptr s)) data)"
      by (simp add: lt add.commute add.left_commute)
    then show ?thesis by (simp add: at enc_label_def)
  qed
  have dl: "take (unat (qn_len s)) (drop (unat (qn_ptr s) + 1) data) = l"
  proof -
    have "drop (unat (qn_ptr s) + 1) data = drop 1 (drop (unat (qn_ptr s)) data)" by simp
    then show ?thesis by (simp add: at enc_label_def ul)
  qed
  let ?s = "(put_label data s)\<lparr>qn_ptr := label_target s, qn_len := data ! unat (label_target s)\<rparr>"
  have u1: "unat (qn_len s + 1) = length l + 1" using here(3) ul by (simp add: unat_plus_u8)
  have no: "unat (qn_noff s + (qn_len s + 1)) = unat (qn_noff s) + length l + 1"
    using fit(2) u1 by (subst unat_plus_u8) (simp_all add: dns_consts)
  have "qname_label data datalen s = Some (Inr ?s)"
    using len fit lt ul by (subst qname_label_eq) simp_all
  then have "qname_loop data datalen count s = qname_loop data datalen (count + 1) ?s"
    using nz np count fit ul by (subst qname_loop.simps) (simp add: dns_consts)
  moreover have "data ! unat (label_target s) = c" using d by (rule nth_via_drop)
  moreover have "length (qn_name (put_label data s)) = DNS_QNAME_MAX + 1"
    using len fit ul by (intro length_put_label) (simp_all add: dns_consts)
  moreover have "take (unat (qn_noff s) + length l + 1) (qn_name (put_label data s)) =
      take (unat (qn_noff s)) (qn_name s) @ l @ [46]"
    using fit(2) len(3) dl by (simp add: put_label_def)
  ultimately show ?thesis
    by (intro exI [of _ ?s]) (simp add: d [unfolded lt, simplified] lt no)
qed

lemma qname_loop_labels:
  assumes "datalen \<le> length data" "datalen \<le> 65535" "length (qn_name s) = DNS_QNAME_MAX + 1"
    and "drop (unat (qn_ptr s)) data = concat (map enc_label ls) @ 0 # r" "qn_len s = data ! unat (qn_ptr s)"
    and "\<forall>l \<in> set ls. 0 < length l \<and> length l < 64" "count + length ls \<le> 26"
    and "unat (qn_ptr s) + length (concat (map enc_label ls)) < datalen"
    and "unat (qn_noff s) + length (concat (map enc_label ls)) \<le> DNS_QNAME_MAX"
  shows "\<exists>s'. qname_loop data datalen count s = Some s' \<and> qn_len s' = 0 \<and> qn_c s' = qn_c s \<and>
    qn_off s' = qn_off s \<and> unat (qn_ptr s') = unat (qn_ptr s) + length (concat (map enc_label ls)) \<and>
    unat (qn_noff s') = unat (qn_noff s) + length (concat (map enc_label ls)) \<and>
    length (qn_name s') = DNS_QNAME_MAX + 1 \<and>
    take (unat (qn_noff s')) (qn_name s') =
      take (unat (qn_noff s)) (qn_name s) @ concat (map (\<lambda>l. l @ [46]) ls)"
  using assms
proof (induction ls arbitrary: s count)
  case Nil
  then have "qn_len s = 0" by (simp add: nth_via_drop)
  with Nil.prems show ?case by (subst qname_loop.simps) simp
next
  case (Cons l ls)
  obtain c t where ct: "concat (map enc_label ls) @ 0 # r = c # t"
    by (cases "concat (map enc_label ls) @ 0 # r") auto
  have at: "drop (unat (qn_ptr s)) data = enc_label l @ c # t"
    using Cons.prems(4) ct by simp
  have here: "qn_len s = word_of_nat (length l)"
    using Cons.prems(5) at nth_via_drop by (fastforce simp: enc_label_def)
  have ll: "length (enc_label l) = length l + 1" by (simp add: enc_label_def)
  obtain s' where s': "qname_loop data datalen count s = qname_loop data datalen (count + 1) s'"
    "drop (unat (qn_ptr s')) data = c # t" "unat (qn_ptr s') = unat (qn_ptr s) + length l + 1"
    "qn_len s' = c" "unat (qn_noff s') = unat (qn_noff s) + length l + 1" "qn_c s' = qn_c s"
    "qn_off s' = qn_off s" "length (qn_name s') = DNS_QNAME_MAX + 1"
    "take (unat (qn_noff s')) (qn_name s') = take (unat (qn_noff s)) (qn_name s) @ l @ [46]"
    using qname_loop_label [OF Cons.prems(1,2,3) at here, of count] Cons.prems ll by auto
  have "qn_len s' = data ! unat (qn_ptr s')" using s'(2,4) by (simp add: nth_via_drop)
  then obtain s2 where "qname_loop data datalen (count + 1) s' = Some s2" "qn_len s2 = 0"
    "qn_c s2 = qn_c s'" "qn_off s2 = qn_off s'"
    "unat (qn_ptr s2) = unat (qn_ptr s') + length (concat (map enc_label ls))"
    "unat (qn_noff s2) = unat (qn_noff s') + length (concat (map enc_label ls))"
    "length (qn_name s2) = DNS_QNAME_MAX + 1"
    "take (unat (qn_noff s2)) (qn_name s2) =
      take (unat (qn_noff s')) (qn_name s') @ concat (map (\<lambda>l. l @ [46]) ls)"
    using Cons.IH [OF Cons.prems(1,2) s'(8), of "count + 1"] Cons.prems s' ct ll by auto
  then show ?case using s' ll by (intro exI [of _ s2]) simp
qed

text \<open>Where the loop ends on a terminator, the caller sees the name as a C string.\<close>

lemma cstring_dotted:
  assumes "valid_labels ls" "length name = DNS_QNAME_MAX + 1"
    and "take (length (concat (map enc_label ls))) name = concat (map (\<lambda>l. l @ [46]) ls)"
  shows "\<exists>name'. wr_bytes name (length (concat (map enc_label ls)) - 1) [0] = Some name' \<and>
           cstring name' = dotted ls"
proof -
  let ?n = "length (concat (map enc_label ls))" and ?t = "concat (map (\<lambda>l. l @ [46]) ls)"
  have n: "0 < ?n" "?n \<le> DNS_QNAME_MAX"
    using assms(1) by (cases ls; auto simp: valid_labels_def enc_label_def)+
  have nz: "0 \<notin> set (dotted ls)"
    using assms(1) by (auto simp: dotted_def valid_labels_def dest!: in_set_butlastD)
  have "take (?n - 1) name = dotted ls"
    using n assms(2) arg_cong [OF assms(3), of butlast] by (simp add: dotted_def butlast_take)
  moreover have "wr_bytes name (?n - 1) [0] = Some (take (?n - 1) name @ 0 # drop ?n name)"
    using n assms(2) by (subst wr_bytes_in) (simp_all add: dns_consts)
  moreover have "cstring (dotted ls @ 0 # x) = dotted ls" for x
    using nz unfolding cstring_def by (subst takeWhile_append2) auto
  ultimately show ?thesis by simp
qed

text \<open>
  An uncompressed name of up to 26 labels is read back, and the offset returned is the one
  after its terminating zero byte.
\<close>

lemma get_qname_plain:
  assumes "datalen \<le> length data" "datalen \<le> 65535" "length qname = DNS_QNAME_MAX + 1"
    and "drop (unat off) data = enc_name ls @ r" "unat off + length (enc_name ls) \<le> datalen"
    and "valid_labels ls" "length ls \<le> 26"
  shows "\<exists>name. get_qname data datalen off qname =
           Some (uint off + int (length (enc_name ls)), name) \<and> cstring name = dotted ls"
proof -
  let ?n = "length (concat (map enc_label ls))"
  let ?s = "\<lparr>qn_c = False, qn_noff = 0, qn_ptr = off, qn_len = data ! unat off, qn_off = off,
              qn_name = 0 # drop 1 qname\<rparr>"
  have n: "length (enc_name ls) = ?n + 1" "0 < ?n" "?n \<le> DNS_QNAME_MAX"
    using assms(6) by (cases ls; auto simp: valid_labels_def enc_label_def enc_name_def)+
  have w: "wr_bytes qname 0 [0] = Some (0 # drop 1 qname)"
    using assms(3) by (simp add: wr_bytes_def)
  have rd: "rd8 data (unat off) = Some (data ! unat off)"
    using assms(1,5) n(1) by (intro rd8_in) linarith
  obtain s' where s': "qname_loop data datalen 0 ?s = Some s'" "qn_len s' = 0" "\<not> qn_c s'"
    "unat (qn_ptr s') = unat off + ?n" "unat (qn_noff s') = ?n"
    "length (qn_name s') = DNS_QNAME_MAX + 1" "take ?n (qn_name s') = concat (map (\<lambda>l. l @ [46]) ls)"
    using qname_loop_labels [OF assms(1,2), of ?s ls r 0] assms n
    by (auto simp: enc_name_def valid_labels_def)
  obtain name' where name': "wr_bytes (qn_name s') (?n - 1) [0] = Some name'" "cstring name' = dotted ls"
    using cstring_dotted [OF assms(6) s'(6,7)] by blast
  have "unat (qn_ptr s' + 1) = unat off + ?n + 1"
    using s'(4) assms(2,5) n(1) by (subst unat_plus_u16) simp_all
  then have "uint (qn_ptr s' + 1) = uint off + int (length (enc_name ls))"
    using n(1) by (metis (no_types, lifting) of_nat_add add.assoc uint_nat)
  moreover have "qn_noff s' \<noteq> 0" using s'(5) n(2) by auto
  moreover have "\<not> datalen \<le> unat off" using assms(5) n(1) by linarith
  ultimately show ?thesis
    using w rd s' name' by (simp add: get_qname_def Let_def)
qed

lemma be16_plus: "be16 a b = u8to16 a * 256 + u8to16 b"
  by (metis le16_plus add.commute mult.commute be16_def le16_def or.commute)

lemma pointer_bits:
  assumes "hi < (64 :: u8)"
  shows "(0xC0 OR hi) AND 0x3F = hi" "(0xC0 OR hi) AND 0xC0 \<noteq> 0"
proof -
  have "hi AND mask 6 = hi" using assms by (intro less_mask_eq) simp
  then have "hi AND 0x3F = hi" by (simp add: mask_eq_exp_minus_1)
  then show "(0xC0 OR hi) AND 0x3F = hi" by (simp add: bit.conj_disj_distrib2)
  have "bit ((0xC0 OR hi) AND 0xC0) 7" by (simp add: bit_simps)
  then show "(0xC0 OR hi) AND 0xC0 \<noteq> 0" by auto
qed

text \<open>
  A name that is one compression pointer to an encoded name elsewhere in the message: the
  name pointed at is read, and the offset returned is the one after the two pointer bytes.
\<close>

lemma get_qname_pointer:
  assumes "datalen \<le> length data" "datalen \<le> 65535" "length qname = DNS_QNAME_MAX + 1"
    and "drop (unat off) data = (0xC0 OR hi) # lo # r'" "hi < 64" "unat off + 1 < datalen"
    and "drop (256 * unat hi + unat lo) data = enc_name ls @ r"
    and "256 * unat hi + unat lo + length (enc_name ls) \<le> datalen"
    and "valid_labels ls" "length ls \<le> 25"
  shows "\<exists>name. get_qname data datalen off qname = Some (uint off + 2, name) \<and> cstring name = dotted ls"
proof -
  let ?n = "length (concat (map enc_label ls))" and ?p = "256 * unat hi + unat lo"
  let ?s = "\<lparr>qn_c = False, qn_noff = 0, qn_ptr = off, qn_len = 0xC0 OR hi, qn_off = off,
              qn_name = 0 # drop 1 qname\<rparr>"
  have n: "length (enc_name ls) = ?n + 1" "0 < ?n" "?n \<le> DNS_QNAME_MAX"
    using assms(9) by (cases ls; auto simp: valid_labels_def enc_label_def enc_name_def)+
  have w: "wr_bytes qname 0 [0] = Some (0 # drop 1 qname)"
    using assms(3) by (simp add: wr_bytes_def)
  have rd: "rd8 data (unat off) = Some (0xC0 OR hi)" using assms(4) by (rule rd8_drop)
  have lo: "data ! (unat off + 1) = lo"
    using assms(4) by (metis Suc_eq_plus1 drop_Suc nth_via_drop tl_drop list.sel(3))
  have hi: "(0xC0 OR hi) AND 0x3F = hi" "(0xC0 OR hi) AND 0xC0 \<noteq> 0"
    using assms(5) by (rule pointer_bits)+
  have "jump_target data ?s = be16 hi lo"
    using lo hi(1) by (simp add: jump_target_def be16_plus)
  then have t: "unat (jump_target data ?s) = ?p" by (simp add: unat_be16)
  let ?s1 = "?s\<lparr>qn_ptr := jump_target data ?s, qn_len := data ! ?p, qn_c := True, qn_off := off + 2\<rparr>"
  have "qname_jump data datalen ?s = Some (Inr ?s1)"
    using assms(1,6,8) n(1) t by (subst qname_jump_eq) (simp_all add: Let_def)
  moreover have "0xC0 OR hi \<noteq> 0" using hi(2) by (metis bit.conj_zero_left)
  ultimately have l1: "qname_loop data datalen 0 ?s = qname_loop data datalen 1 ?s1"
    using assms(6) hi(2) by (subst qname_loop.simps) auto
  obtain s' where s': "qname_loop data datalen 1 ?s1 = Some s'" "qn_len s' = 0" "qn_c s'"
    "qn_off s' = off + 2" "unat (qn_noff s') = ?n"
    "length (qn_name s') = DNS_QNAME_MAX + 1" "take ?n (qn_name s') = concat (map (\<lambda>l. l @ [46]) ls)"
    using qname_loop_labels [OF assms(1,2), of ?s1 ls r 1] assms n t
    by (auto simp: enc_name_def valid_labels_def)
  obtain name' where name': "wr_bytes (qn_name s') (?n - 1) [0] = Some name'" "cstring name' = dotted ls"
    using cstring_dotted [OF assms(9) s'(6,7)] by blast
  have "unat (off + 2) = unat off + 2"
    using assms(2,6) by (subst unat_plus_u16) simp_all
  then have "int (unat (off + 2)) = int (unat off) + 2" by simp
  then have "uint (off + 2) = uint off + 2" by (simp only: uint_nat)
  moreover have "qn_noff s' \<noteq> 0" using s'(5) n(2) by auto
  moreover have "\<not> datalen \<le> unat off" using assms(6) by linarith
  ultimately show ?thesis
    using w rd l1 s' name' by (simp add: get_qname_def Let_def)
qed

section \<open>Claims\<close>

text \<open>
  C26: whatever bytes a DNS server sends, \<open>parse_dns_response\<close> returns, reads only inside the
  \<open>datalen\<close> bytes received and writes only inside its name buffer, compression pointers that
  form a cycle included.
\<close>

theorem parse_dns_response_memory_safe:
  assumes "datalen \<le> length data" "length name = DNS_QNAME_MAX + 1"
  shows "\<exists>reports. parse_dns_response data datalen name = Some reports"
  using assms by (rule parse_dns_response_safe)

theorem parse_dns_response_memory_safe_witness:
  "\<exists>reports. parse_dns_response [0, 1, 0x80, 0, 0, 1, 0, 1, 0, 0, 0, 0, 0xC0, 12] 14 (replicate 256 0) = Some reports"
  by (rule parse_dns_response_memory_safe) (simp_all add: dns_consts)

text \<open>
  C28: \<open>get_qname\<close> reads back every encoded name of at most 26 labels and 255 bytes: the C
  string stored is the dotted name and the offset returned is the one after the name.
\<close>

theorem get_qname_roundtrip:
  assumes "datalen \<le> length data" "datalen \<le> 65535" "length qname = DNS_QNAME_MAX + 1"
    and "drop (unat off) data = enc_name ls @ r" "unat off + length (enc_name ls) \<le> datalen"
    and "valid_labels ls" "length ls \<le> 26"
  shows "\<exists>name. get_qname data datalen off qname =
           Some (uint off + int (length (enc_name ls)), name) \<and> cstring name = dotted ls"
  using assms by (rule get_qname_plain)

theorem get_qname_roundtrip_witness:
  "\<exists>name. get_qname [9, 2, 97, 98, 1, 99, 0] 7 1 (replicate 256 0) =
     Some (uint (1 :: u16) + int (length (enc_name [[97, 98], [99]])), name) \<and>
     cstring name = dotted [[97, 98], [99]]"
  by (rule get_qname_roundtrip [where r = "[]"])
    (simp_all add: dns_consts enc_name_def enc_label_def valid_labels_def)

text \<open>
  A name given as a compression pointer is read at its target and the parser continues
  after the two bytes of the pointer.
\<close>

theorem get_qname_follows_pointer:
  assumes "datalen \<le> length data" "datalen \<le> 65535" "length qname = DNS_QNAME_MAX + 1"
    and "drop (unat off) data = (0xC0 OR hi) # lo # r'" "hi < 64" "unat off + 1 < datalen"
    and "drop (256 * unat hi + unat lo) data = enc_name ls @ r"
    and "256 * unat hi + unat lo + length (enc_name ls) \<le> datalen"
    and "valid_labels ls" "length ls \<le> 25"
  shows "\<exists>name. get_qname data datalen off qname = Some (uint off + 2, name) \<and> cstring name = dotted ls"
  using assms by (rule get_qname_pointer)

theorem get_qname_follows_pointer_witness:
  "\<exists>name. get_qname [9, 2, 97, 98, 1, 99, 0, 0xC0, 1] 9 7 (replicate 256 0) = Some (uint (7 :: u16) + 2, name) \<and>
     cstring name = dotted [[97, 98], [99]]"
  by (rule get_qname_follows_pointer [where hi = 0 and lo = 1 and r = "[0xC0, 1]"])
    (simp_all add: dns_consts enc_name_def enc_label_def valid_labels_def)

text \<open>
  A name of a label followed by a compression pointer (the form RFC 1035 allows and name
  servers send) is read correctly, but the offset returned is two bytes after the start of
  the name and not after the pointer, so the record that follows is read at a wrong place.
\<close>

theorem get_qname_label_then_pointer_offset:
  "map_option (\<lambda>(off, name). (off, cstring name))
     (get_qname [3, 99, 111, 109, 0, 1, 97, 0xC0, 0] 9 5 (replicate 256 0)) =
   Some (7, [97, 46, 99, 111, 109])"
  by code_simp

end
