(* ===== verification/World.thy ===== *)
theory World
  imports Prelude "HOL-Library.Signed_Division"
begin

text \<open>
  The state of the native engine and its environment. The records of \<open>netguard.h\<close>; the
  session list of \<open>struct context\<close>; the kernel and the Java service as one oracle that
  answers each call from the calls made before it; and the trace of those calls. The
  handlers of the other theories are programs of the state monad over this world.
\<close>

section \<open>Sessions\<close>

text \<open>
  Addresses are the bytes in network order: four for version 4, sixteen otherwise (the
  unions \<open>saddr\<close> and \<open>daddr\<close>). Ports are the 16 bit objects as stored, network notation.
\<close>

record icmp_session =
  i_time :: int
  i_uid :: int
  i_version :: int
  i_saddr :: buf
  i_daddr :: buf
  i_id :: u16
  i_stop :: bool

datatype udp_state = UDP_ACTIVE | UDP_FINISHING | UDP_CLOSED | UDP_BLOCKED

text \<open>The numbers of the \<open>#define\<close>s order the states; the order is used for their progress.\<close>

fun udp_state_num :: "udp_state \<Rightarrow> nat" where
  "udp_state_num UDP_ACTIVE = 0"
| "udp_state_num UDP_FINISHING = 1"
| "udp_state_num UDP_CLOSED = 2"
| "udp_state_num UDP_BLOCKED = 3"

instantiation udp_state :: linorder
begin

definition less_eq_udp_state :: "udp_state \<Rightarrow> udp_state \<Rightarrow> bool" where
  "less_eq_udp_state a b \<longleftrightarrow> udp_state_num a \<le> udp_state_num b"

definition less_udp_state :: "udp_state \<Rightarrow> udp_state \<Rightarrow> bool" where
  "less_udp_state a b \<longleftrightarrow> udp_state_num a < udp_state_num b"

instance
proof
  fix a b :: udp_state
  show "a \<le> b \<Longrightarrow> b \<le> a \<Longrightarrow> a = b"
    by (cases a; cases b) (simp_all add: less_eq_udp_state_def)
qed (auto simp: less_eq_udp_state_def less_udp_state_def)

end

record udp_session =
  u_time :: int
  u_uid :: int
  u_version :: int
  u_mss :: u16
  u_sent :: u64
  u_received :: u64
  u_saddr :: buf
  u_source :: u16
  u_daddr :: buf
  u_dest :: u16
  u_state :: udp_state

text \<open>
  The states of \<open>netinet/tcp.h\<close>; \<open>TCP_ZERO\<close> is the value 0 of the cleared structure from
  which a reset for an unknown session is written.
\<close>

datatype tcp_state =
    TCP_ZERO | TCP_ESTABLISHED | TCP_SYN_SENT | TCP_SYN_RECV | TCP_FIN_WAIT1 | TCP_FIN_WAIT2
  | TCP_TIME_WAIT | TCP_CLOSE | TCP_CLOSE_WAIT | TCP_LAST_ACK | TCP_LISTEN | TCP_CLOSING

text \<open>\<open>SOCKS5_ZERO\<close> is the 0 stored after a failed negotiation.\<close>

datatype socks5_state = SOCKS5_ZERO | SOCKS5_NONE | SOCKS5_HELLO | SOCKS5_AUTH | SOCKS5_CONNECT | SOCKS5_CONNECTED

record segment =
  seg_seq :: u32
  seg_len :: u16
  seg_sent :: u16
  seg_psh :: bool
  seg_data :: buf

record tcp_session =
  t_uid :: int
  t_time :: int
  t_version :: int
  t_mss :: u16
  t_recv_scale :: u8
  t_send_scale :: u8
  t_recv_window :: u32
  t_send_window :: u32
  t_unconfirmed :: u16
  t_remote_seq :: u32
  t_local_seq :: u32
  t_remote_start :: u32
  t_local_start :: u32
  t_acked :: u32
  t_last_keep_alive :: int
  t_sent :: u64
  t_received :: u64
  t_saddr :: buf
  t_source :: u16
  t_daddr :: buf
  t_dest :: u16
  t_state :: tcp_state
  t_socks5 :: socks5_state
  t_forward :: "segment list"

text \<open>
  \<open>struct ng_session\<close>: \<open>s_addr\<close> is the address \<open>malloc\<close> returned, the identity by which
  epoll events name a session; \<open>s_body\<close> is the union, whose member \<open>protocol\<close> selects.
  The functions of one protocol work on a session with that member for its body.
\<close>

record 'a ng_session =
  s_addr :: nat
  s_protocol :: u8
  s_body :: 'a
  s_socket :: int
  s_events :: u32

datatype session_body = ICMP icmp_session | UDP udp_session | TCP tcp_session

type_synonym session = "session_body ng_session"

definition with_body :: "'a ng_session \<Rightarrow> 'b \<Rightarrow> 'b ng_session" where
  "with_body s b = \<lparr>s_addr = s_addr s, s_protocol = s_protocol s, s_body = b,
                    s_socket = s_socket s, s_events = s_events s\<rparr>"

lemma with_body_sel [simp]:
  "s_addr (with_body s b) = s_addr s" "s_protocol (with_body s b) = s_protocol s"
  "s_body (with_body s b) = b" "s_socket (with_body s b) = s_socket s"
  "s_events (with_body s b) = s_events s"
  by (simp_all add: with_body_def)

lemma with_body_id [simp]: "with_body s (s_body s) = s"
  by (cases s) (simp add: with_body_def)

definition IPPROTO_ICMP :: u8 where "IPPROTO_ICMP = 1"
definition IPPROTO_TCP :: u8 where "IPPROTO_TCP = 6"
definition IPPROTO_UDP :: u8 where "IPPROTO_UDP = 17"
definition IPPROTO_ICMPV6 :: u8 where "IPPROTO_ICMPV6 = 58"

lemmas ipproto_defs = IPPROTO_ICMP_def IPPROTO_TCP_def IPPROTO_UDP_def IPPROTO_ICMPV6_def

section \<open>The environment\<close>

text \<open>A flow as the Java callbacks are told of it; the addresses stay the raw bytes.\<close>

record flow =
  f_version :: int
  f_protocol :: u8
  f_saddr :: buf
  f_sport :: u16
  f_daddr :: buf
  f_dport :: u16

datatype sockopt = SO_ERROR | SO_SNDBUF | SO_BROADCAST | IPV6_MULTICAST_LOOP
  | IPV6_MULTICAST_HOPS | IPV6_ADD_MEMBERSHIP | TCP_NODELAY | SO_KEEPALIVE

datatype epoll_op = EPOLL_CTL_ADD | EPOLL_CTL_MOD | EPOLL_CTL_DEL

text \<open>
  The calls the engine makes: the C library and the kernel first, then the methods of the
  Java service. \<open>Call_uninit\<close> stands for the value of memory that was never written.
\<close>

datatype call =
    Call_time
  | Call_get_ms
  | Call_gettimeofday
  | Call_clock_gettime
  | Call_uninit
  | Call_rand
  | Call_tun_write buf
  | Call_tun_read nat
  | Call_close int
  | Call_socket bool u8
  | Call_setsockopt int sockopt
  | Call_getsockopt int sockopt
  | Call_fcntl_getfl int
  | Call_fcntl_setfl int int
  | Call_inet_pton buf
  | Call_getsockname int
  | Call_connect int buf u16
  | Call_epoll_ctl epoll_op int u32
  | Call_epoll_create
  | Call_epoll_wait int
  | Call_pipe
  | Call_pipe_add
  | Call_pipe_read
  | Call_pipe_write
  | Call_poll int u32
  | Call_ioctl_outq int
  | Call_recv int nat
  | Call_send int buf bool
  | Call_sendto int buf buf u16
  | Call_getrlimit
  | Call_opendir
  | Call_readdir nat
  | Call_closedir
  | Call_property_get buf
  | Call_getaddrinfo buf
  | Call_fwrite buf
  | Call_ftell
  | Call_ftruncate nat
  | Call_lseek nat
  | Call_fopen buf
  | Call_fclose
  | Java_protect int
  | Java_is_address_allowed flow int
  | Java_is_quic_blocked int
  | Java_is_domain_blocked int buf
  | Java_get_uid_q flow
  | Java_get_uid_cached flow
  | Java_cache_uid flow int
  | Java_log_traffic int flow int int bool bool
  | Java_dns_resolved int buf buf buf u32 int
  | Java_sni_resolved buf flow int
  | Java_report_exit
  | Java_report_error int

text \<open>
  An answer: the returned number, the value of \<open>errno\<close> after the call, the number stored
  through an out parameter and the bytes stored through a buffer parameter.
\<close>

record answer =
  ret :: int
  errno :: int
  out :: int
  bytes :: buf

type_synonym event = "call \<times> answer"
type_synonym os = "event list \<Rightarrow> call \<Rightarrow> answer"

definition EINTR :: int where "EINTR = 4"
definition EAGAIN :: int where "EAGAIN = 11"
definition EINPROGRESS :: int where "EINPROGRESS = 115"

definition O_NONBLOCK :: int where "O_NONBLOCK = 2048"

definition EPOLLIN :: u32 where "EPOLLIN = 1"
definition EPOLLOUT :: u32 where "EPOLLOUT = 4"
definition EPOLLERR :: u32 where "EPOLLERR = 8"
definition EPOLLHUP :: u32 where "EPOLLHUP = 16"

lemmas epoll_defs = EPOLLIN_def EPOLLOUT_def EPOLLERR_def EPOLLHUP_def

text \<open>\<open>struct arguments\<close>, with the environment in place of the JNI handles.\<close>

record arguments =
  a_os :: os
  a_tun :: int
  a_logTraffic :: bool
  a_observeOnly :: bool

record uid_cache_entry =
  c_version :: u8
  c_protocol :: u8
  c_saddr :: buf
  c_sport :: u16
  c_daddr :: buf
  c_dport :: u16
  c_uid :: int
  c_time :: int

text \<open>
  \<open>struct context\<close> and the globals of the sources. The trace is newest first. \<open>w_fresh\<close> is
  the address the next \<open>malloc\<close> of a session returns. \<open>w_ub\<close> is set when the code reads
  or writes outside an object; what the model does after that is not what the machine does.
  \<open>w_hang\<close> is set when a loop of the code does not end.
\<close>

record world =
  w_sessions :: "session list"
  w_stopping :: bool
  w_sdk :: int
  w_trace :: "event list"
  w_fresh :: nat
  w_ub :: bool
  w_hang :: bool
  w_loglevel :: int
  w_pcap_file :: bool
  w_max_tun_msg :: nat
  w_uid_cache :: "uid_cache_entry list"
  w_socks5_addr :: buf
  w_socks5_port :: int
  w_socks5_username :: buf
  w_socks5_password :: buf
  w_pipefds :: "int \<times> int"

type_synonym 'a prog = "(world, 'a) state"

section \<open>Basic programs\<close>

definition syscall :: "arguments \<Rightarrow> call \<Rightarrow> answer prog" where
  "syscall args c = do {
     w \<leftarrow> State_Monad.get;
     let a = a_os args (w_trace w) c;
     State_Monad.set (w\<lparr>w_trace := (c, a) # w_trace w\<rparr>);
     State_Monad.return a
   }"

text \<open>An access of \<open>n\<close> bytes at \<open>off\<close> of an object: outside it the behaviour is undefined.\<close>

definition touch :: "buf \<Rightarrow> nat \<Rightarrow> nat \<Rightarrow> unit prog" where
  "touch b off n = State_Monad.update (\<lambda>w. w\<lparr>w_ub := w_ub w \<or> length b < off + n\<rparr>)"

definition undefined_behaviour :: "unit prog" where
  "undefined_behaviour = State_Monad.update (\<lambda>w. w\<lparr>w_ub := True\<rparr>)"

definition hang :: "unit prog" where
  "hang = State_Monad.update (\<lambda>w. w\<lparr>w_hang := True\<rparr>)"

text \<open>The \<open>n\<close> bytes at \<open>off\<close> of an object, for a copy or a system call that reads them.\<close>

definition load :: "buf \<Rightarrow> nat \<Rightarrow> nat \<Rightarrow> buf prog" where
  "load b off n =
     (if off + n \<le> length b then State_Monad.return (take n (drop off b))
      else do { undefined_behaviour; State_Monad.return [] })"

definition guarded :: "bool \<Rightarrow> unit prog \<Rightarrow> unit prog" where
  "guarded b m = (if b then m else State_Monad.return ())"

text \<open>The fields of a packet, for an offset that \<^term>\<open>touch\<close> has checked; \<open>0\<close> outside.\<close>

definition get8 :: "buf \<Rightarrow> nat \<Rightarrow> u8" where
  "get8 b i = (if i < length b then b ! i else 0)"

definition get16 :: "buf \<Rightarrow> nat \<Rightarrow> u16" where
  "get16 b i = le16 (get8 b i) (get8 b (i + 1))"

definition get32 :: "buf \<Rightarrow> nat \<Rightarrow> u32" where
  "get32 b i = le32 (get8 b i) (get8 b (i + 1)) (get8 b (i + 2)) (get8 b (i + 3))"

definition get_bytes :: "buf \<Rightarrow> nat \<Rightarrow> nat \<Rightarrow> buf" where
  "get_bytes b i n = map (get8 b) [i ..< i + n]"

lemma length_get_bytes [simp]: "length (get_bytes b i n) = n"
  by (simp add: get_bytes_def)

lemma get_bytes_in: "i + n \<le> length b \<Longrightarrow> get_bytes b i n = take n (drop i b)"
  by (rule nth_equalityI) (simp_all add: get_bytes_def get8_def)

text \<open>\<open>iphdr\<close> and \<open>ip6_hdr\<close>: the version nibble and the two addresses of a packet.\<close>

definition ip_version :: "buf \<Rightarrow> int" where
  "ip_version pkt = uint (drop_bit 4 (get8 pkt 0))"

definition ip_saddr :: "buf \<Rightarrow> buf" where
  "ip_saddr pkt = (if ip_version pkt = 4 then get_bytes pkt 12 4 else get_bytes pkt 8 16)"

definition ip_daddr :: "buf \<Rightarrow> buf" where
  "ip_daddr pkt = (if ip_version pkt = 4 then get_bytes pkt 16 4 else get_bytes pkt 24 16)"

definition touch_ip :: "buf \<Rightarrow> unit prog" where
  "touch_ip pkt = touch pkt 0 (if ip_version pkt = 4 then 20 else 40)"

section \<open>The session list\<close>

text \<open>\<open>s->next = ctx->ng_session; ctx->ng_session = s\<close>.\<close>

definition push_session :: "session \<Rightarrow> unit prog" where
  "push_session s = State_Monad.update (\<lambda>w. w\<lparr>w_sessions := s # w_sessions w\<rparr>)"

text \<open>The fields of the session at an address, after a handler changed them.\<close>

definition put_list :: "session \<Rightarrow> session list \<Rightarrow> session list" where
  "put_list s ss = map (\<lambda>t. if s_addr t = s_addr s then s else t) ss"

definition put_session :: "session \<Rightarrow> unit prog" where
  "put_session s = State_Monad.update (\<lambda>w. w\<lparr>w_sessions := put_list s (w_sessions w)\<rparr>)"

text \<open>The search loops: the first session of the list that matches.\<close>

definition find_session :: "(session \<Rightarrow> bool) \<Rightarrow> session option prog" where
  "find_session P = do { w \<leftarrow> State_Monad.get; State_Monad.return (find P (w_sessions w)) }"

definition fresh_addr :: "nat prog" where
  "fresh_addr = do {
     w \<leftarrow> State_Monad.get;
     State_Monad.set (w\<lparr>w_fresh := w_fresh w + 1\<rparr>);
     State_Monad.return (w_fresh w)
   }"

section \<open>Effects\<close>

lemma wp_syscall [simp]:
  "wp (syscall args c) Q =
     (\<lambda>w. (let a = a_os args (w_trace w) c in Q a (w\<lparr>w_trace := (c, a) # w_trace w\<rparr>)))"
  by (simp add: syscall_def Let_def fun_eq_iff)

lemma wp_touch [simp]: "wp (touch b off n) Q =
     (\<lambda>w. Q () (w\<lparr>w_ub := w_ub w \<or> length b < off + n\<rparr>))"
  by (simp add: touch_def)

lemma wp_undefined_behaviour [simp]: "wp undefined_behaviour Q = (\<lambda>w. Q () (w\<lparr>w_ub := True\<rparr>))"
  by (simp add: undefined_behaviour_def)

lemma wp_hang [simp]: "wp hang Q = (\<lambda>w. Q () (w\<lparr>w_hang := True\<rparr>))"
  by (simp add: hang_def)

lemma wp_load [simp]:
  "wp (load b off n) Q =
     (\<lambda>w. (if off + n \<le> length b then Q (take n (drop off b)) w else Q [] (w\<lparr>w_ub := True\<rparr>)))"
  by (simp add: load_def)

lemma wp_guarded [simp]: "wp (guarded b m) Q =
     (\<lambda>w. (if b then wp m Q w else Q () w))"
  by (simp add: guarded_def)

lemma wp_push_session [simp]: "wp (push_session s) Q =
     (\<lambda>w. Q () (w\<lparr>w_sessions := s # w_sessions w\<rparr>))"
  by (simp add: push_session_def)

lemma wp_put_session [simp]:
  "wp (put_session s) Q =
     (\<lambda>w. Q () (w\<lparr>w_sessions := put_list s (w_sessions w)\<rparr>))"
  by (simp add: put_session_def)

lemma wp_find_session [simp]: "wp (find_session P) Q =
     (\<lambda>w. Q (find P (w_sessions w)) w)"
  by (simp add: find_session_def)

lemma wp_fresh_addr [simp]: "wp fresh_addr Q = (\<lambda>w. Q (w_fresh w) (w\<lparr>w_fresh := w_fresh w + 1\<rparr>))"
  by (simp add: fresh_addr_def)

text \<open>
  \<open>emits P m\<close>: from every world, running \<open>m\<close> only adds events to the trace, and each call
  added satisfies \<open>P\<close>. The rules follow the program, so a handler's frame is proved by
  applying them.
\<close>

definition emits :: "(call \<Rightarrow> bool) \<Rightarrow> 'a prog \<Rightarrow> bool" where
  "emits P m \<longleftrightarrow> (\<forall>w. \<exists>es. w_trace (snd (run_state m w)) = es @ w_trace w \<and> (\<forall>e \<in> set es. P (fst e)))"

named_theorems emits_rules "calls a program makes, by its structure"

lemma emits_return [emits_rules]: "emits P (State_Monad.return x)"
  by (simp add: emits_def)

lemma emits_get [emits_rules]: "emits P State_Monad.get"
  by (simp add: emits_def)

lemma emits_bind [emits_rules]:
  assumes "emits P m" "\<And>a. emits P (f a)"
  shows "emits P (State_Monad.bind m f)"
  unfolding emits_def
proof
  fix w
  obtain a w' where r: "run_state m w = (a, w')" by fastforce
  obtain es where es: "w_trace w' = es @ w_trace w" "\<forall>e \<in> set es. P (fst e)"
    using assms(1) r unfolding emits_def by (metis snd_conv)
  obtain es' where es': "w_trace (snd (run_state (f a) w')) = es' @ w_trace w'" "\<forall>e \<in> set es'. P (fst e)"
    using assms(2) unfolding emits_def by blast
  show "\<exists>es. w_trace (snd (run_state (State_Monad.bind m f) w)) = es @ w_trace w \<and> (\<forall>e \<in> set es. P (fst e))"
    using r es es' by (intro exI [of _ "es' @ es"]) auto
qed

lemma emits_update [emits_rules]:
  "(\<And>w. w_trace (f w) = w_trace w) \<Longrightarrow> emits P (State_Monad.update f)"
  by (simp add: emits_def State_Monad.update_def)

lemma emits_syscall [emits_rules]: "P c \<Longrightarrow> emits P (syscall args c)"
  by (simp add: emits_def syscall_def Let_def)

lemma emits_if [emits_rules]:
  "(b \<Longrightarrow> emits P m) \<Longrightarrow> (\<not> b \<Longrightarrow> emits P n) \<Longrightarrow> emits P (if b then m else n)"
  by simp

lemma emits_case_option [emits_rules]:
  "emits P m \<Longrightarrow> (\<And>x. emits P (f x)) \<Longrightarrow> emits P (case z of None \<Rightarrow> m | Some x \<Rightarrow> f x)"
  by (cases z) auto

lemma emits_case_prod [emits_rules]:
  "(\<And>x y. emits P (f x y)) \<Longrightarrow> emits P (case z of (x, y) \<Rightarrow> f x y)"
  by (cases z) auto

lemma emits_case_body [emits_rules]:
  "(\<And>x. emits P (f x)) \<Longrightarrow> (\<And>x. emits P (g x)) \<Longrightarrow> (\<And>x. emits P (h x)) \<Longrightarrow>
     emits P (case z of ICMP x \<Rightarrow> f x | UDP x \<Rightarrow> g x | TCP x \<Rightarrow> h x)"
  by (cases z) auto

lemma emits_let [emits_rules]: "(\<And>x. emits P (f x)) \<Longrightarrow> emits P (let x = e in f x)"
  by simp

lemma emits_guarded [emits_rules]: "(b \<Longrightarrow> emits P m) \<Longrightarrow> emits P (guarded b m)"
  by (simp add: guarded_def emits_return)

lemma emits_undefined_behaviour [emits_rules]: "emits P undefined_behaviour"
  by (simp add: undefined_behaviour_def emits_update)

lemma emits_hang [emits_rules]: "emits P hang"
  by (simp add: hang_def emits_update)

lemma emits_load [emits_rules]: "emits P (load b off n)"
  unfolding load_def by (intro emits_rules)

lemma emits_touch [emits_rules]: "emits P (touch b off n)"
  by (simp add: touch_def emits_update)

lemma emits_touch_ip [emits_rules]: "emits P (touch_ip b)"
  by (simp add: touch_ip_def emits_touch)

lemma emits_push_session [emits_rules]: "emits P (push_session s)"
  by (simp add: push_session_def emits_update)

lemma emits_put_session [emits_rules]: "emits P (put_session s)"
  by (simp add: put_session_def emits_update)

lemma emits_find_session [emits_rules]: "emits P (find_session Q)"
  unfolding find_session_def by (intro emits_rules)

lemma emits_fresh_addr [emits_rules]: "emits P fresh_addr"
  by (simp add: fresh_addr_def emits_def)

lemma emits_mono: "emits P m \<Longrightarrow> (\<And>c. P c \<Longrightarrow> Q c) \<Longrightarrow> emits Q m"
  unfolding emits_def by blast

lemma emits_run:
  assumes "emits P m" "run_state m w = (a, w')"
  obtains es where "w_trace w' = es @ w_trace w" "\<forall>e \<in> set es. P (fst e)"
  using assms unfolding emits_def by (metis snd_conv)

text \<open>\<open>frame f m\<close>: running \<open>m\<close> leaves the component \<open>f\<close> of the world as it was.\<close>

definition frame :: "(world \<Rightarrow> 'b) \<Rightarrow> 'a prog \<Rightarrow> bool" where
  "frame f m \<longleftrightarrow> (\<forall>w. f (snd (run_state m w)) = f w)"

named_theorems frame_rules "components a program leaves alone, by its structure"

lemma frame_return [frame_rules]: "frame g (State_Monad.return x)"
  by (simp add: frame_def)

lemma frame_get [frame_rules]: "frame g State_Monad.get"
  by (simp add: frame_def)

lemma frame_bind [frame_rules]:
  "frame g m \<Longrightarrow> (\<And>a. frame g (f a)) \<Longrightarrow> frame g (State_Monad.bind m f)"
  by (simp add: frame_def split: prod.splits) (metis snd_conv)

lemma frame_update [frame_rules]: "(\<And>w. g (f w) = g w) \<Longrightarrow> frame g (State_Monad.update f)"
  by (simp add: frame_def State_Monad.update_def)

lemma frame_syscall [frame_rules]:
  "(\<And>w e. g (w\<lparr>w_trace := e\<rparr>) = g w) \<Longrightarrow> frame g (syscall args c)"
  by (simp add: frame_def syscall_def Let_def)

lemma frame_if [frame_rules]: "frame g m \<Longrightarrow> frame g n \<Longrightarrow> frame g (if b then m else n)"
  by simp

lemma frame_case_option [frame_rules]:
  "frame g m \<Longrightarrow> (\<And>x. frame g (f x)) \<Longrightarrow> frame g (case z of None \<Rightarrow> m | Some x \<Rightarrow> f x)"
  by (cases z) auto

lemma frame_case_prod [frame_rules]:
  "(\<And>x y. frame g (f x y)) \<Longrightarrow> frame g (case z of (x, y) \<Rightarrow> f x y)"
  by (cases z) auto

lemma frame_let [frame_rules]: "(\<And>x. frame g (f x)) \<Longrightarrow> frame g (let x = e in f x)"
  by simp

lemma frame_guarded [frame_rules]: "frame g m \<Longrightarrow> frame g (guarded b m)"
  by (simp add: guarded_def frame_return)

lemma frame_undefined_behaviour [frame_rules]:
  "(\<And>w e. g (w\<lparr>w_ub := e\<rparr>) = g w) \<Longrightarrow> frame g undefined_behaviour"
  by (simp add: undefined_behaviour_def frame_update)

lemma frame_hang [frame_rules]: "(\<And>w e. g (w\<lparr>w_hang := e\<rparr>) = g w) \<Longrightarrow> frame g hang"
  by (simp add: hang_def frame_update)

lemma frame_load [frame_rules]: "(\<And>w e. g (w\<lparr>w_ub := e\<rparr>) = g w) \<Longrightarrow> frame g (load b off n)"
  unfolding load_def by (intro frame_rules)

lemma frame_touch [frame_rules]: "(\<And>w e. g (w\<lparr>w_ub := e\<rparr>) = g w) \<Longrightarrow> frame g (touch b off n)"
  by (simp add: touch_def frame_update)

lemma frame_touch_ip [frame_rules]: "(\<And>w e. g (w\<lparr>w_ub := e\<rparr>) = g w) \<Longrightarrow> frame g (touch_ip b)"
  by (simp add: touch_ip_def frame_touch)

lemma frame_find_session [frame_rules]: "frame g (find_session Q)"
  unfolding find_session_def by (intro frame_rules)

lemma frameD: "frame f m \<Longrightarrow> run_state m w = (a, w') \<Longrightarrow> f w' = f w"
  unfolding frame_def by (metis snd_conv)

section \<open>Programs that only add to the trace\<close>

abbreviation but_trace :: "world \<Rightarrow> world" where
  "but_trace w \<equiv> w\<lparr>w_trace := []\<rparr>"

lemma but_trace_eq: "but_trace w' = but_trace w \<longleftrightarrow> w' = w\<lparr>w_trace := w_trace w'\<rparr>"
  by (cases w; cases w') auto

text \<open>What is known of a program that only makes calls satisfying \<open>P\<close> and changes nothing else.\<close>

lemma wp_quiet:
  assumes "emits P m" "frame but_trace m"
    and "\<And>a es. \<forall>e \<in> set es. P (fst e) \<Longrightarrow> Q a (w\<lparr>w_trace := es @ w_trace w\<rparr>)"
  shows "wp m Q w"
proof -
  obtain a w' where r: "run_state m w = (a, w')" by fastforce
  obtain es where es: "w_trace w' = es @ w_trace w" "\<forall>e \<in> set es. P (fst e)"
    using emits_run [OF assms(1) r] .
  have "w' = w\<lparr>w_trace := es @ w_trace w\<rparr>"
    using frameD [OF assms(2) r] es(1) by (simp add: but_trace_eq)
  with assms(3) [OF es(2)] show ?thesis by (simp add: wp_def r)
qed

lemma wp_frame:
  assumes "frame g m" "\<And>a w'. g w' = g w \<Longrightarrow> Q a w'"
  shows "wp m Q w"
  using assms by (simp add: wp_def frame_def split: prod.splits) (metis snd_conv)

section \<open>Results\<close>

text \<open>\<open>returns P m\<close>: whatever the world, the result of \<open>m\<close> satisfies \<open>P\<close>.\<close>

definition returns :: "('a \<Rightarrow> bool) \<Rightarrow> 'a prog \<Rightarrow> bool" where
  "returns P m \<longleftrightarrow> (\<forall>w. P (fst (run_state m w)))"

named_theorems returns_rules "results of a program, by its structure"

lemma returns_return [returns_rules]: "P x \<Longrightarrow> returns P (State_Monad.return x)"
  by (simp add: returns_def)

lemma returns_bind [returns_rules]: "(\<And>a. returns P (f a)) \<Longrightarrow> returns P (State_Monad.bind m f)"
  by (simp add: returns_def split: prod.splits)

text \<open>A bind whose first program's result matters.\<close>

lemma returns_bind_strong:
  "returns R m \<Longrightarrow> (\<And>a. R a \<Longrightarrow> returns P (f a)) \<Longrightarrow> returns P (State_Monad.bind m f)"
  by (simp add: returns_def split: prod.splits) (metis fst_conv)

lemma returns_if [returns_rules]:
  "(b \<Longrightarrow> returns P m) \<Longrightarrow> (\<not> b \<Longrightarrow> returns P n) \<Longrightarrow> returns P (if b then m else n)"
  by simp

lemma returns_case_option [returns_rules]:
  "(z = None \<Longrightarrow> returns P m) \<Longrightarrow> (\<And>x. z = Some x \<Longrightarrow> returns P (f x)) \<Longrightarrow>
     returns P (case z of None \<Rightarrow> m | Some x \<Rightarrow> f x)"
  by (cases z) auto

lemma returns_case_prod [returns_rules]:
  "(\<And>x y. z = (x, y) \<Longrightarrow> returns P (f x y)) \<Longrightarrow> returns P (case z of (x, y) \<Rightarrow> f x y)"
  by (cases z) auto

lemma returns_let [returns_rules]: "(\<And>x. x = e \<Longrightarrow> returns P (f x)) \<Longrightarrow> returns P (let x = e in f x)"
  by simp

lemma returnsD: "returns P m \<Longrightarrow> run_state m w = (a, w') \<Longrightarrow> P a"
  unfolding returns_def by (metis fst_conv)

lemma returns_mono: "returns P m \<Longrightarrow> (\<And>a. P a \<Longrightarrow> Q a) \<Longrightarrow> returns Q m"
  by (simp add: returns_def)

lemma returns_True: "returns (\<lambda>_. True) m"
  by (simp add: returns_def)

text \<open>The three together: a program known by its calls, its frame and its result.\<close>

lemma wp_summary:
  assumes "emits P m" "frame but_trace m" "returns R m"
    and "\<And>a es. R a \<Longrightarrow> \<forall>e \<in> set es. P (fst e) \<Longrightarrow> Q a (w\<lparr>w_trace := es @ w_trace w\<rparr>)"
  shows "wp m Q w"
proof -
  obtain a w' where r: "run_state m w = (a, w')" by fastforce
  obtain es where es: "w_trace w' = es @ w_trace w" "\<forall>e \<in> set es. P (fst e)"
    using emits_run [OF assms(1) r] .
  have "w' = w\<lparr>w_trace := es @ w_trace w\<rparr>"
    using frameD [OF assms(2) r] es(1) by (simp add: but_trace_eq)
  with assms(4) [OF returnsD [OF assms(3) r] es(2)] show ?thesis by (simp add: wp_def r)
qed

lemma wp_frame_returns:
  assumes "frame g m" "returns R m" "\<And>a w'. R a \<Longrightarrow> g w' = g w \<Longrightarrow> Q a w'"
  shows "wp m Q w"
  using assms by (simp add: wp_def frame_def returns_def split: prod.splits) (metis fst_conv snd_conv)

section \<open>The store of sessions\<close>

text \<open>Addresses are unique and below the next one to be given out.\<close>

definition store_ok :: "world \<Rightarrow> bool" where
  "store_ok w \<longleftrightarrow> distinct (map s_addr (w_sessions w)) \<and> (\<forall>s \<in> set (w_sessions w). s_addr s < w_fresh w)"

lemma addrs_put_list [simp]: "map s_addr (put_list s ss) = map s_addr ss"
  by (simp add: put_list_def)

lemma set_put_list: "t \<in> set (put_list s ss) \<Longrightarrow> t = s \<or> t \<in> set ss"
  by (auto simp: put_list_def)

text \<open>Looking up the address of a stored session finds what was stored.\<close>

definition session_at :: "session list \<Rightarrow> nat \<Rightarrow> session option" where
  "session_at ss a = find (\<lambda>s. s_addr s = a) ss"

lemma session_at_put:
  assumes "s_addr s \<in> s_addr ` set ss"
  shows "session_at (put_list s ss) a = (if a = s_addr s then Some s else session_at ss a)"
proof -
  have other: "find (\<lambda>t. s_addr t = a) (put_list s ts) = find (\<lambda>t. s_addr t = a) ts" if "a \<noteq> s_addr s" for ts
    using that by (induction ts) (auto simp: put_list_def)
  have same: "find (\<lambda>t. s_addr t = s_addr s) (put_list s ts) = Some s" if "s_addr s \<in> s_addr ` set ts" for ts
    using that by (induction ts) (auto simp: put_list_def)
  show ?thesis using assms by (auto simp: session_at_def other same)
qed

lemma session_at_member:
  assumes "distinct (map s_addr ss)"
  shows "session_at ss a = Some s \<longleftrightarrow> s \<in> set ss \<and> s_addr s = a"
  using assms by (induction ss) (auto simp: session_at_def image_iff)

text \<open>The store with an invariant for each session, and how the store operations keep it.\<close>

definition world_ok :: "(session \<Rightarrow> bool) \<Rightarrow> world \<Rightarrow> bool" where
  "world_ok ok w \<longleftrightarrow> store_ok w \<and> (\<forall>s \<in> set (w_sessions w). ok s)"

abbreviation store :: "world \<Rightarrow> session list \<times> nat" where
  "store w \<equiv> (w_sessions w, w_fresh w)"

lemma world_ok_same: "store w' = store w \<Longrightarrow> world_ok ok w \<Longrightarrow> world_ok ok w'"
  by (simp add: world_ok_def store_ok_def)

lemma world_ok_put:
  assumes "world_ok ok w" "ok s" "s_addr s \<in> s_addr ` set (w_sessions w)"
  shows "world_ok ok (w\<lparr>w_sessions := put_list s (w_sessions w)\<rparr>)"
proof -
  have "s_addr ` set (put_list s ss) = s_addr ` set ss" for ss
    by (metis addrs_put_list list.set_map)
  then have "\<forall>a \<in> s_addr ` set (put_list s (w_sessions w)). a < w_fresh w"
    using assms(1) by (simp add: world_ok_def store_ok_def)
  then have "\<forall>t \<in> set (put_list s (w_sessions w)). s_addr t < w_fresh w" by simp
  then show ?thesis
    using assms by (auto simp: world_ok_def store_ok_def dest: set_put_list)
qed

text \<open>The sockets of the stored sessions, by the addresses of the sessions.\<close>

definition sockets :: "world \<Rightarrow> (nat \<times> int) set" where
  "sockets w = (\<lambda>s. (s_addr s, s_socket s)) ` set (w_sessions w)"

text \<open>
  \<open>evolves ok w0 w\<close>: the store is in order, and the sessions stored in \<open>w0\<close> still have their
  sockets. It holds at first and is kept by the operations on the store.
\<close>

definition evolves :: "(session \<Rightarrow> bool) \<Rightarrow> world \<Rightarrow> world \<Rightarrow> bool" where
  "evolves ok w0 w \<longleftrightarrow> world_ok ok w \<and> sockets w0 \<subseteq> sockets w"

lemma evolves_refl: "world_ok ok w \<Longrightarrow> evolves ok w w"
  by (simp add: evolves_def)

lemma evolves_ok: "evolves ok w0 w \<Longrightarrow> world_ok ok w"
  by (simp add: evolves_def)

lemma evolvesD: "evolves ok w0 w \<Longrightarrow> s \<in> set (w_sessions w) \<Longrightarrow> ok s"
  by (simp add: evolves_def world_ok_def)

lemma sockets_same: "w_sessions w' = w_sessions w \<Longrightarrow> sockets w' = sockets w"
  by (simp add: sockets_def)

lemma evolves_same: "store w' = store w \<Longrightarrow> evolves ok w0 w \<Longrightarrow> evolves ok w0 w'"
  using sockets_same [of w' w] by (simp add: evolves_def world_ok_same)

lemma evolves_push:
  assumes "evolves ok w0 w" "ok s" "s_addr s = w_fresh w" "store w' = (s # w_sessions w, w_fresh w + 1)"
  shows "evolves ok w0 w'"
proof -
  have "sockets w \<subseteq> sockets w'" using assms(4) by (auto simp: sockets_def)
  moreover have "world_ok ok w'"
    using assms by (auto simp: evolves_def world_ok_def store_ok_def less_Suc_eq)
  ultimately show ?thesis using assms(1) by (auto simp: evolves_def)
qed

lemma evolves_fresh:
  assumes "evolves ok w0 w" "store w' = (w_sessions w, w_fresh w + 1)"
  shows "evolves ok w0 w'"
  using assms sockets_same [of w' w] by (auto simp: evolves_def world_ok_def store_ok_def less_Suc_eq)

lemma sockets_put_list:
  assumes "distinct (map s_addr ss)" "(s_addr s, s_socket s) \<in> (\<lambda>s. (s_addr s, s_socket s)) ` set ss"
  shows "map (\<lambda>s. (s_addr s, s_socket s)) (put_list s ss) = map (\<lambda>s. (s_addr s, s_socket s)) ss"
proof -
  have "s_socket t = s_socket s" if "t \<in> set ss" "s_addr t = s_addr s" for t
    using assms that by (auto simp: distinct_map dest: inj_onD)
  then show ?thesis by (auto simp: put_list_def)
qed

lemma evolves_put:
  assumes e: "evolves ok w0 w" and s: "ok s" "(s_addr s, s_socket s) \<in> sockets w"
  shows "evolves ok w0 (w\<lparr>w_sessions := put_list s (w_sessions w)\<rparr>)"
proof -
  let ?f = "\<lambda>s. (s_addr s, s_socket s)"
  have "distinct (map s_addr (w_sessions w))" using e by (simp add: evolves_def world_ok_def store_ok_def)
  then have "map ?f (put_list s (w_sessions w)) = map ?f (w_sessions w)"
    using s(2) sockets_put_list by (simp add: sockets_def)
  then have "?f ` set (put_list s (w_sessions w)) = ?f ` set (w_sessions w)" by (metis list.set_map)
  then have "sockets (w\<lparr>w_sessions := put_list s (w_sessions w)\<rparr>) = sockets w" by (simp add: sockets_def)
  moreover have "s_addr s \<in> s_addr ` set (w_sessions w)" using s(2) by (auto simp: sockets_def)
  ultimately show ?thesis using e s(1) by (simp add: evolves_def world_ok_put)
qed

lemma sockets_put_other:
  "(a, sock) \<in> sockets w \<Longrightarrow> a \<noteq> s_addr s \<Longrightarrow> (a, sock) \<in> sockets (w\<lparr>w_sessions := put_list s (w_sessions w)\<rparr>)"
  by (force simp: sockets_def put_list_def)

section \<open>Invariants of programs\<close>

text \<open>\<open>keeps I m\<close>: from every world that satisfies \<open>I\<close>, \<open>m\<close> ends in one.\<close>

definition keeps :: "(world \<Rightarrow> bool) \<Rightarrow> 'a prog \<Rightarrow> bool" where
  "keeps I m \<longleftrightarrow> (\<forall>w. I w \<longrightarrow> I (snd (run_state m w)))"

named_theorems keeps_rules "invariants of a program, by its structure"

lemma keeps_return [keeps_rules]: "keeps I (State_Monad.return x)"
  by (simp add: keeps_def)

lemma keeps_get [keeps_rules]: "keeps I State_Monad.get"
  by (simp add: keeps_def)

lemma keeps_bind_returns:
  "keeps I m \<Longrightarrow> returns R m \<Longrightarrow> (\<And>a. R a \<Longrightarrow> keeps I (f a)) \<Longrightarrow> keeps I (State_Monad.bind m f)"
  by (simp add: keeps_def returns_def split: prod.splits) (metis fst_conv snd_conv)

lemma keeps_bind [keeps_rules]: "keeps I m \<Longrightarrow> (\<And>a. keeps I (f a)) \<Longrightarrow> keeps I (State_Monad.bind m f)"
  by (rule keeps_bind_returns [OF _ returns_True])

lemma keeps_if [keeps_rules]: "(b \<Longrightarrow> keeps I m) \<Longrightarrow> (\<not> b \<Longrightarrow> keeps I n) \<Longrightarrow> keeps I (if b then m else n)"
  by simp

lemma keeps_case_option [keeps_rules]:
  "(z = None \<Longrightarrow> keeps I m) \<Longrightarrow> (\<And>x. z = Some x \<Longrightarrow> keeps I (f x)) \<Longrightarrow>
     keeps I (case z of None \<Rightarrow> m | Some x \<Rightarrow> f x)"
  by (cases z) auto

lemma keeps_case_prod [keeps_rules]:
  "(\<And>x y. z = (x, y) \<Longrightarrow> keeps I (f x y)) \<Longrightarrow> keeps I (case z of (x, y) \<Rightarrow> f x y)"
  by (cases z) auto

lemma keeps_let [keeps_rules]: "(\<And>x. keeps I (f x)) \<Longrightarrow> keeps I (let x = e in f x)"
  by simp

lemma keeps_guarded [keeps_rules]: "(b \<Longrightarrow> keeps I m) \<Longrightarrow> keeps I (guarded b m)"
  by (simp add: guarded_def keeps_return)

lemma keeps_wp: "(\<And>w. I w \<Longrightarrow> wp m (\<lambda>_. I) w) \<Longrightarrow> keeps I m"
  by (simp add: keeps_def wp_run)

lemma wp_keeps: "keeps I m \<Longrightarrow> I w \<Longrightarrow> wp m (\<lambda>_. I) w"
  by (simp add: keeps_def wp_run)

lemma keeps_frame: "frame store m \<Longrightarrow> keeps (evolves ok w0) m"
  by (auto simp: keeps_def frame_def intro: evolves_same)

end
