(* ===== verification/Pcap.thy ===== *)
theory Pcap
  imports World
begin

text \<open>
  The capture file of \<open>pcap.c\<close>: its header and records as the bytes written, and the
  truncation back to the header once the file is longer than \<open>pcap_file_size\<close>.
\<close>

definition pcap_record_size :: nat where "pcap_record_size = 64"
definition pcap_file_size :: int where "pcap_file_size = 2 * 1024 * 1024"
definition LINKTYPE_RAW :: u32 where "LINKTYPE_RAW = 101"

record pcap_hdr_s =
  magic_number :: u32
  version_major :: u16
  version_minor :: u16
  thiszone :: u32
  sigfigs :: u32
  snaplen :: u32
  network :: u32

record pcaprec_hdr_s =
  ts_sec :: u32
  ts_usec :: u32
  incl_len :: u32
  orig_len :: u32

text \<open>The packed structs in memory.\<close>

definition pcap_hdr_bytes :: "pcap_hdr_s \<Rightarrow> buf" where
  "pcap_hdr_bytes h = st32 (magic_number h) @ st16 (version_major h) @ st16 (version_minor h) @
     st32 (thiszone h) @ st32 (sigfigs h) @ st32 (snaplen h) @ st32 (network h)"

definition pcaprec_hdr_bytes :: "pcaprec_hdr_s \<Rightarrow> buf" where
  "pcaprec_hdr_bytes h = st32 (ts_sec h) @ st32 (ts_usec h) @ st32 (incl_len h) @ st32 (orig_len h)"

lemma length_pcap_hdr_bytes [simp]: "length (pcap_hdr_bytes h) = 24"
  by (simp add: pcap_hdr_bytes_def)

lemma length_pcaprec_hdr_bytes [simp]: "length (pcaprec_hdr_bytes h) = 16"
  by (simp add: pcaprec_hdr_bytes_def)

definition write_pcap :: "arguments \<Rightarrow> buf \<Rightarrow> unit prog" where
  "write_pcap args b = do {
     n \<leftarrow> syscall args (Call_fwrite b);
     if ret n < 1 then State_Monad.return ()
     else do {
       fsize \<leftarrow> syscall args Call_ftell;
       guarded (ret fsize > pcap_file_size) (do {
         t \<leftarrow> syscall args (Call_ftruncate 24);
         guarded (ret t = 0) (do {
           _ \<leftarrow> syscall args (Call_lseek 24);
           State_Monad.return ()
         })
       })
     }
   }"

definition write_pcap_hdr :: "arguments \<Rightarrow> unit prog" where
  "write_pcap_hdr args = write_pcap args (pcap_hdr_bytes
     \<lparr>magic_number = 0xa1b2c3d4, version_major = 2, version_minor = 4, thiszone = 0, sigfigs = 0,
      snaplen = word_of_nat pcap_record_size, network = LINKTYPE_RAW\<rparr>)"

text \<open>
  The record of a packet; of \<open>clock_gettime\<close> the answer's \<open>ret\<close> is \<open>tv_sec\<close> and \<open>out\<close> is
  \<open>tv_nsec\<close>.
\<close>

definition pcap_record :: "int \<Rightarrow> int \<Rightarrow> buf \<Rightarrow> buf" where
  "pcap_record sec nsec buffer =
     (let plen = (if length buffer < pcap_record_size then length buffer else pcap_record_size)
      in pcaprec_hdr_bytes \<lparr>ts_sec = word_of_int sec, ts_usec = word_of_int (nsec div 1000),
           incl_len = word_of_nat plen, orig_len = word_of_nat (length buffer)\<rparr> @ take plen buffer)"

definition write_pcap_rec :: "arguments \<Rightarrow> buf \<Rightarrow> unit prog" where
  "write_pcap_rec args buffer = do {
     ts \<leftarrow> syscall args Call_clock_gettime;
     write_pcap args (pcap_record (ret ts) (out ts) buffer)
   }"

section \<open>Records\<close>

fun is_pcap_call :: "call \<Rightarrow> bool" where
  "is_pcap_call (Call_fwrite _) = True"
| "is_pcap_call Call_ftell = True"
| "is_pcap_call (Call_ftruncate _) = True"
| "is_pcap_call (Call_lseek _) = True"
| "is_pcap_call Call_clock_gettime = True"
| "is_pcap_call _ = False"

lemma emits_write_pcap_rec:
  "(\<And>c. is_pcap_call c \<Longrightarrow> P c) \<Longrightarrow> emits P (write_pcap_rec args b)"
  unfolding write_pcap_rec_def write_pcap_def by (intro emits_rules) simp_all

lemma frame_write_pcap_rec [frame_rules]:
  "(\<And>w e. g (w\<lparr>w_trace := e\<rparr>) = g w) \<Longrightarrow> frame g (write_pcap_rec args b)"
  unfolding write_pcap_rec_def write_pcap_def by (intro frame_rules)

text \<open>A record is read back: its lengths, and the bytes kept of the packet.\<close>

definition pcap_read :: "buf \<Rightarrow> (u32 \<times> u32 \<times> buf) option" where
  "pcap_read r = do {
     incl \<leftarrow> ld32 r 8;
     orig \<leftarrow> ld32 r 12;
     d \<leftarrow> rd_bytes r 16 (unat incl);
     Some (incl, orig, d)
   }"

lemma ld32_st32: "drop i b = st32 x @ r \<Longrightarrow> ld32 b i = Some x"
proof -
  assume d: "drop i b = st32 x @ r"
  let ?f = "\<lambda>k. u32to8 (drop_bit k x)"
  have e: "drop (i + k) b = drop k (st32 x @ r)" for k
    using d by (metis drop_drop add.commute)
  have "drop (i + 1) b = ?f 8 # ?f 16 # ?f 24 # r" "drop (i + 2) b = ?f 16 # ?f 24 # r"
      "drop (i + 3) b = ?f 24 # r"
    unfolding e by (simp_all add: st32_def)
  moreover have "drop i b = u32to8 x # ?f 8 # ?f 16 # ?f 24 # r"
    using d by (simp add: st32_def)
  ultimately have "rd8 b (i + 1) = Some (?f 8)" "rd8 b (i + 2) = Some (?f 16)"
      "rd8 b (i + 3) = Some (?f 24)" "rd8 b i = Some (u32to8 x)"
    by (blast intro: rd8_drop)+
  then show ?thesis by (simp only: ld32_def bind.simps le32_split)
qed

lemma pcap_read_record:
  assumes "length buffer < 4294967296"
  shows "pcap_read (pcap_record sec nsec buffer) =
    Some (word_of_nat (min (length buffer) 64), word_of_nat (length buffer), take 64 buffer)"
proof -
  let ?r = "pcap_record sec nsec buffer"
  have r: "drop 8 ?r = st32 (word_of_nat (min (length buffer) 64)) @
        st32 (word_of_nat (length buffer)) @ take 64 buffer"
      "drop 12 ?r = st32 (word_of_nat (length buffer)) @ take 64 buffer"
      "drop 16 ?r = take 64 buffer @ []" "length ?r = 16 + min (length buffer) 64"
    by (simp_all add: pcap_record_def pcaprec_hdr_bytes_def Let_def pcap_record_size_def min_def)
  have "unat (word_of_nat (min (length buffer) 64) :: u32) = length (take 64 buffer)"
    by (simp add: unat_of_nat)
  then have "rd_bytes ?r 16 (unat (word_of_nat (min (length buffer) 64) :: u32)) = Some (take 64 buffer)"
    using rd_bytes_drop [OF r(3)] r(4) by simp
  then show ?thesis
    using ld32_st32 [OF r(1)] ld32_st32 [OF r(2)] by (simp only: pcap_read_def bind.simps)
qed

section \<open>Claims\<close>

text \<open>
  A capture record gives back the packet: its original length and its first 64 bytes,
  with the stored length the number of bytes kept.
\<close>

theorem pcap_record_roundtrip:
  assumes "length buffer < 4294967296"
  shows "pcap_read (pcap_record sec nsec buffer) =
    Some (word_of_nat (min (length buffer) 64), word_of_nat (length buffer), take 64 buffer)"
  using assms by (rule pcap_read_record)

theorem pcap_record_roundtrip_witness:
  "pcap_read (pcap_record 1700000000 5000 [0x45, 0, 0, 20]) =
    Some (word_of_nat (min (length [0x45, 0, 0, 20 :: u8]) 64), word_of_nat (length [0x45, 0, 0, 20 :: u8]),
          take 64 [0x45, 0, 0, 20])"
  by (rule pcap_record_roundtrip) simp

end
