(* ===== verification/Packet.thy ===== *)
theory Packet
  imports Pcap Util
begin

text \<open>
  The headers the three packet writers build (\<open>write_icmp\<close>, \<open>write_udp\<close>, \<open>write_tcp\<close>), the
  write to the tun device they end with, and the checks of RFC 791, RFC 768, RFC 793 and RFC
  8200 a receiver makes on such a packet.
\<close>

definition IPDEFTTL :: u8 where "IPDEFTTL = 64"
definition IPV6_VERSION :: u8 where "IPV6_VERSION = 0x60"

lemmas ip_consts = IPDEFTTL_def IPV6_VERSION_def

section \<open>Headers\<close>

text \<open>\<open>struct iphdr\<close> with version 4 and five words; \<open>check\<close> is taken over it with a zero field.\<close>

definition ip4_bytes :: "u8 \<Rightarrow> nat \<Rightarrow> buf \<Rightarrow> buf \<Rightarrow> u16 \<Rightarrow> buf" where
  "ip4_bytes protocol len saddr daddr check =
     ([0x45, 0] @ st16 (htons (word_of_nat len)) @ [0, 0, 0, 0, IPDEFTTL, protocol]) @
     st16 check @ saddr @ daddr"

definition ip4_header :: "u8 \<Rightarrow> nat \<Rightarrow> buf \<Rightarrow> buf \<Rightarrow> buf" where
  "ip4_header protocol len saddr daddr =
     ip4_bytes protocol len saddr daddr
       (NOT (calc_checksum 0 (ip4_bytes protocol len saddr daddr 0)))"

text \<open>\<open>struct ip6_hdr\<close>; \<open>plen\<close> is the length after the header.\<close>

definition ip6_header :: "u8 \<Rightarrow> nat \<Rightarrow> buf \<Rightarrow> buf \<Rightarrow> buf" where
  "ip6_header nxt plen src dst =
     [IPV6_VERSION, 0, 0, 0] @ st16 (htons (word_of_nat plen)) @ [nxt, IPDEFTTL] @ src @ dst"

text \<open>\<open>struct ippseudo\<close>.\<close>

definition ippseudo :: "u8 \<Rightarrow> nat \<Rightarrow> buf \<Rightarrow> buf \<Rightarrow> buf" where
  "ippseudo p len src dst = src @ dst @ [0, p] @ st16 (htons (word_of_nat len))"

text \<open>
  \<open>struct ip6_hdr_pseudo\<close> as the writers fill it: source and destination exchanged, and the
  16 bit \<open>plen\<close>, already in network order, assigned to the 32 bit \<open>ip6ph_len\<close>.
\<close>

definition ip6_hdr_pseudo :: "u8 \<Rightarrow> u32 \<Rightarrow> buf \<Rightarrow> buf \<Rightarrow> buf" where
  "ip6_hdr_pseudo nxt len src dst = src @ dst @ st32 len @ [0, 0, 0, nxt]"

section \<open>Writing to the tun device\<close>

text \<open>The common end of the writers: \<open>write\<close>, the capture record, and the result.\<close>

definition tun_write :: "arguments \<Rightarrow> buf \<Rightarrow> int prog" where
  "tun_write args buffer = do {
     res \<leftarrow> syscall args (Call_tun_write buffer);
     w \<leftarrow> State_Monad.get;
     guarded (ret res \<ge> 0 \<and> w_pcap_file w) (write_pcap_rec args (take (nat (ret res)) buffer));
     State_Monad.return (if ret res \<noteq> int (length buffer) then -1 else ret res)
   }"

lemma frame_tun_write [frame_rules]:
  "(\<And>w e. g (w\<lparr>w_trace := e\<rparr>) = g w) \<Longrightarrow> frame g (tun_write args b)"
  unfolding tun_write_def by (intro frame_rules)

text \<open>The calls a writer of packets makes: the write and the capture file.\<close>

definition is_tun_call :: "call \<Rightarrow> bool" where
  "is_tun_call c \<longleftrightarrow> (\<exists>b. c = Call_tun_write b) \<or> is_pcap_call c"

lemma is_tun_call_simps [simp]:
  "is_tun_call (Call_tun_write b)" "is_pcap_call c \<Longrightarrow> is_tun_call c"
  by (simp_all add: is_tun_call_def)

lemma emits_tun_write: "(\<And>c. is_tun_call c \<Longrightarrow> P c) \<Longrightarrow> emits P (tun_write args b)"
  unfolding tun_write_def by (intro emits_rules emits_write_pcap_rec) simp_all

text \<open>The packets of a trace, oldest first.\<close>

fun tun_packets :: "event list \<Rightarrow> buf list" where
  "tun_packets [] = []"
| "tun_packets ((Call_tun_write b, _) # es) = tun_packets es @ [b]"
| "tun_packets (e # es) = tun_packets es"

lemma tun_packets_append: "tun_packets (es @ es') = tun_packets es' @ tun_packets es"
  by (induction es rule: tun_packets.induct) auto

lemma tun_packets_other: "\<forall>b. fst e \<noteq> Call_tun_write b \<Longrightarrow> tun_packets (e # es) = tun_packets es"
  by (cases e; cases "fst e") auto

lemma tun_packets_none:
  "\<forall>e \<in> set es. \<forall>b. fst e \<noteq> Call_tun_write b \<Longrightarrow> tun_packets es = []"
  by (induction es) (simp_all add: tun_packets_other)

lemma tun_write_effect:
  assumes "run_state (tun_write args b) w = (r, w')"
  shows "tun_packets (w_trace w') = tun_packets (w_trace w) @ [b]"
    and "r = -1 \<or> r = int (length b)"
proof -
  let ?a = "a_os args (w_trace w) (Call_tun_write b)"
  let ?w = "w\<lparr>w_trace := (Call_tun_write b, ?a) # w_trace w\<rparr>"
  have pcap: "emits is_pcap_call (write_pcap_rec args c)" for c
    by (rule emits_write_pcap_rec)
  have run: "run_state (tun_write args b) w =
      (if ret ?a \<noteq> int (length b) then -1 else ret ?a,
       snd (run_state (guarded (ret ?a \<ge> 0 \<and> w_pcap_file w)
              (write_pcap_rec args (take (nat (ret ?a)) b))) ?w))"
    by (simp add: tun_write_def syscall_def Let_def split: prod.split)
  obtain es where "w_trace w' = es @ w_trace ?w" "\<forall>e \<in> set es. is_pcap_call (fst e)"
    using emits_guarded [OF pcap, of "ret ?a \<ge> 0 \<and> w_pcap_file w" "take (nat (ret ?a)) b"] assms run
    unfolding emits_def by (metis snd_conv)
  moreover from this have "tun_packets es = []" by (intro tun_packets_none) auto
  ultimately show "tun_packets (w_trace w') = tun_packets (w_trace w) @ [b]"
    by (simp add: tun_packets_append)
  show "r = -1 \<or> r = int (length b)" using assms run by auto
qed

text \<open>
  The interface of a packet writer: what it writes is one packet determined by its argument.
  Its clients rely on the lemmas: one packet more on the device, no other effect, and the
  result \<open>-1\<close> or the packet's length.
\<close>

locale tun_writer =
  fixes write_to :: "arguments \<Rightarrow> 'x \<Rightarrow> int prog"
    and packet :: "'x \<Rightarrow> buf"
  assumes writes: "write_to args x = tun_write args (packet x)"
begin

lemma one_packet:
  "run_state (write_to args x) w = (r, w') \<Longrightarrow>
     tun_packets (w_trace w') = tun_packets (w_trace w) @ [packet x]"
  unfolding writes by (rule tun_write_effect)

lemma result:
  "run_state (write_to args x) w = (r, w') \<Longrightarrow> r = -1 \<or> r = int (length (packet x))"
  unfolding writes by (rule tun_write_effect)

lemma only_tun: "(\<And>c. is_tun_call c \<Longrightarrow> P c) \<Longrightarrow> emits P (write_to args x)"
  unfolding writes by (rule emits_tun_write)

lemma frame_writer: "(\<And>w e. g (w\<lparr>w_trace := e\<rparr>) = g w) \<Longrightarrow> frame g (write_to args x)"
  unfolding writes by (rule frame_tun_write)

end

section \<open>Checks of a receiver\<close>

definition ip4_ok :: "buf \<Rightarrow> bool" where
  "ip4_ok pkt \<longleftrightarrow> length pkt \<ge> 20 \<and> pkt ! 0 = 0x45 \<and>
     be16 (pkt ! 2) (pkt ! 3) = word_of_nat (length pkt) \<and> length pkt < 65536 \<and>
     calc_checksum 0 (take 20 pkt) = 0xFFFF"

text \<open>The pseudo headers of the standards.\<close>

definition rfc_pseudo :: "int \<Rightarrow> u8 \<Rightarrow> buf \<Rightarrow> buf \<Rightarrow> nat \<Rightarrow> buf" where
  "rfc_pseudo version proto src dst len =
     (if version = 4 then src @ dst @ [0, proto] @ be_bytes len
      else src @ dst @ [0, 0] @ be_bytes len @ [0, 0, 0, proto])"

definition segment_ok :: "int \<Rightarrow> u8 \<Rightarrow> buf \<Rightarrow> buf \<Rightarrow> buf \<Rightarrow> bool" where
  "segment_ok version proto src dst seg \<longleftrightarrow>
     calc_checksum 0 (rfc_pseudo version proto src dst (length seg) @ seg) = 0xFFFF"

definition addr_len :: "int \<Rightarrow> nat" where
  "addr_len version = (if version = 4 then 4 else 16)"

lemma st16_htons_of_nat: "n < 65536 \<Longrightarrow> st16 (htons (word_of_nat n)) = be_bytes n"
proof -
  assume n: "n < 65536"
  have "rdbe16 (be_bytes n) 0 = Some (word_of_nat n)"
    by (rule rdbe16_be_bytes [where r = "[]"]) (use n in simp_all)
  then have "be16 (word_of_nat (n div 256)) (word_of_nat n) = word_of_nat n"
    by (simp add: rdbe16_def be_bytes_def)
  then have "htons (word_of_nat n) = le16 (word_of_nat (n div 256)) (word_of_nat n)"
    by (metis ntohs_be16)
  then show ?thesis by (simp add: be_bytes_def)
qed

lemma ip4_header_ok:
  assumes "length saddr = 4" "length daddr = 4" "length body + 20 < 65536"
  shows "ip4_ok (ip4_header protocol (20 + length body) saddr daddr @ body)"
proof -
  let ?n = "20 + length body"
  let ?h = "ip4_header protocol ?n saddr daddr"
  have len: "length ?h = 20" using assms by (simp add: ip4_header_def ip4_bytes_def)
  have "calc_checksum 0 ?h = 0xFFFF"
    unfolding ip4_header_def ip4_bytes_def
    by (rule ics.csum_verifies [OF _ _ refl]) (use assms in auto)
  moreover have "?h ! 2 = word_of_nat (?n div 256)" "?h ! 3 = word_of_nat ?n" "?h ! 0 = 0x45"
    using assms(3)
    by (simp_all add: ip4_header_def ip4_bytes_def st16_htons_of_nat be_bytes_def del: of_nat_add)
  moreover have "be16 (word_of_nat (?n div 256)) (word_of_nat ?n) = word_of_nat ?n"
    using rdbe16_be_bytes [of 0 "be_bytes ?n" ?n "[]"] assms(3)
    by (simp add: rdbe16_def be_bytes_def del: of_nat_add)
  ultimately show ?thesis
    using assms len by (simp add: ip4_ok_def nth_append del: of_nat_add)
qed

text \<open>The checksum does not see the order of 16 bit words.\<close>

lemma calc_checksum_perm:
  assumes "buf_sum a = buf_sum b" "length a \<le> 131000" "length b \<le> 131000"
  shows "calc_checksum s a = calc_checksum s b"
  using ics.csum_value [of a s] ics.csum_value [of b s] assms by (simp add: word_unat_eq_iff)

lemma buf_sum_ip6_hdr_pseudo:
  assumes "length src = 16" "length dst = 16" "len < 65536"
  shows "buf_sum (ip6_hdr_pseudo nxt (u16to32 (htons (word_of_nat len))) dst src) =
         buf_sum (rfc_pseudo 6 nxt src dst len)"
proof -
  have "st32 (u16to32 x) = st16 x @ [0, 0]" for x
    by (auto simp: byte_defs bit_eq_iff bit_simps dest: bit_imp_le_length)
  then have "st32 (u16to32 (htons (word_of_nat len))) = be_bytes len @ [0, 0]"
    using assms(3) by (simp add: st16_htons_of_nat)
  then show ?thesis
    using assms by (simp add: ip6_hdr_pseudo_def rfc_pseudo_def buf_sum_append)
qed

text \<open>
  The writers' running checksum over pseudo header, transport header and data, stored
  complemented in the header's field, passes the receiver's check.
\<close>

lemma running_checksum_ok:
  assumes "even (length p)" "even (length a)" "even (length b)"
    and "length p + length a + length b + length data \<le> 130998"
  shows "calc_checksum 0 (p @ a @ st16 (NOT (calc_checksum (calc_checksum
           (calc_checksum 0 p) (a @ st16 0 @ b)) data)) @ b @ data) = 0xFFFF"
proof -
  have "calc_checksum (calc_checksum 0 p) (a @ st16 0 @ b) = calc_checksum 0 (p @ a @ st16 0 @ b)"
    using assms by (intro ics.csum_append) auto
  moreover have "calc_checksum (calc_checksum 0 (p @ a @ st16 0 @ b)) data =
      calc_checksum 0 ((p @ a) @ st16 0 @ (b @ data))"
    using assms ics.csum_append [of "p @ a @ st16 0 @ b" data 0] by simp
  ultimately show ?thesis
    using assms ics.csum_verifies [of "p @ a" _ "b @ data" 0, OF _ _ refl] by simp
qed

lemma segment_ok_pseudo:
  assumes "buf_sum p = buf_sum (rfc_pseudo version proto src dst (length seg))"
    and "even (length p)" "even (length src)" "even (length dst)"
    and "length p + length seg \<le> 131000" "length src + length dst + 8 + length seg \<le> 131000"
    and "calc_checksum 0 (p @ seg) = 0xFFFF"
  shows "segment_ok version proto src dst seg"
proof -
  let ?q = "rfc_pseudo version proto src dst (length seg)"
  have q: "even (length ?q)" "length ?q \<le> length src + length dst + 8"
    using assms(3,4) by (simp_all add: rfc_pseudo_def)
  have "calc_checksum 0 (?q @ seg) = calc_checksum 0 (p @ seg)"
    using assms q by (intro calc_checksum_perm) (simp_all add: buf_sum_append)
  with assms(7) show ?thesis by (simp add: segment_ok_def)
qed

section \<open>Packet writers in the calculus\<close>

lemma wp_tun_write:
  assumes "\<And>r es. (r = -1 \<or> r = int (length b)) \<Longrightarrow> tun_packets es = [b] \<Longrightarrow>
    \<forall>e \<in> set es. is_tun_call (fst e) \<Longrightarrow> Q r (w\<lparr>w_trace := es @ w_trace w\<rparr>)"
  shows "wp (tun_write args b) Q w"
proof -
  obtain r w' where r: "run_state (tun_write args b) w = (r, w')" by fastforce
  obtain es where es: "w_trace w' = es @ w_trace w" "\<forall>e \<in> set es. is_tun_call (fst e)"
    using emits_run [OF emits_tun_write r, of is_tun_call] by blast
  have "w' = w\<lparr>w_trace := es @ w_trace w\<rparr>"
    using frameD [OF frame_tun_write r, of but_trace] es(1) by (simp add: but_trace_eq)
  moreover have "tun_packets es = [b]"
    using tun_write_effect(1) [OF r] es(1) by (simp add: tun_packets_append)
  ultimately show ?thesis
    using assms [OF tun_write_effect(2) [OF r] _ es(2)] by (simp add: wp_def r)
qed

text \<open>Events of the other kinds leave the packets on the device alone.\<close>

lemma tun_packets_quiet:
  assumes "\<forall>e \<in> set es. P (fst e)" "\<And>b. \<not> P (Call_tun_write b)"
  shows "tun_packets (es @ es') = tun_packets es'"
  using assms by (auto simp: tun_packets_append intro!: tun_packets_none)

end
