(* ===== verification/Jni.thy ===== *)
theory Jni
  imports World
begin

text \<open>
  The calls of \<open>netguard.c\<close> into the Java service, each with the conversions around it. A
  boolean method answers 0 for false; a method or class that is not found answers as the
  code does then. The local references are left out.
\<close>

text \<open>\<open>protect_socket\<close>: from SDK 21 on the whole application is excluded from the VPN. The
  answer 0 stands for a refusal and for a class or method that is not found.\<close>

definition protect_socket :: "arguments \<Rightarrow> int \<Rightarrow> int prog" where
  "protect_socket args sock = do {
     w \<leftarrow> State_Monad.get;
     if w_sdk w \<ge> 21 then State_Monad.return 0
     else do {
       a \<leftarrow> syscall args (Java_protect sock);
       State_Monad.return (if ret a = 0 then -1 else 0)
     }
   }"

text \<open>The monotonic clock in milliseconds, and the time of day in seconds and milliseconds.\<close>

definition get_ms :: "arguments \<Rightarrow> int prog" where
  "get_ms args = do { a \<leftarrow> syscall args Call_get_ms; State_Monad.return (ret a) }"

definition gettimeofday_ms :: "arguments \<Rightarrow> int prog" where
  "gettimeofday_ms args = do { a \<leftarrow> syscall args Call_gettimeofday; State_Monad.return (ret a) }"

text \<open>
  \<open>is_event\<close> asks \<open>poll\<close> about one descriptor without waiting; the answer has the number of
  descriptors with events in \<open>ret\<close> and \<open>revents\<close> in \<open>out\<close>.
\<close>

definition POLLIN :: u32 where "POLLIN = 1"

definition is_event :: "arguments \<Rightarrow> int \<Rightarrow> u32 \<Rightarrow> u32 prog" where
  "is_event args fd event = do {
     a \<leftarrow> syscall args (Call_poll fd event);
     State_Monad.return (if ret a < 0 then 0 else if ret a = 0 then 0 else word_of_int (out a) AND event)
   }"

definition is_readable :: "arguments \<Rightarrow> int \<Rightarrow> bool prog" where
  "is_readable args fd = do {
     e \<leftarrow> is_event args fd POLLIN;
     State_Monad.return (e \<noteq> 0)
   }"

definition POLLOUT :: u32 where "POLLOUT = 4"

definition is_writable :: "arguments \<Rightarrow> int \<Rightarrow> bool prog" where
  "is_writable args fd = do {
     e \<leftarrow> is_event args fd POLLOUT;
     State_Monad.return (e \<noteq> 0)
   }"

text \<open>The port of a socket, from the address that \<open>getsockname\<close> stores; it is asked for the log.\<close>

definition get_local_port :: "arguments \<Rightarrow> int \<Rightarrow> int prog" where
  "get_local_port args sock = do {
     a \<leftarrow> syscall args (Call_getsockname sock);
     State_Monad.return (if ret a < 0 then -1 else uint (ntohs (get16 (bytes a) 2)))
   }"

text \<open>The name of a state in the log.\<close>

fun strstate :: "tcp_state \<Rightarrow> string" where
  "strstate TCP_ESTABLISHED = ''ESTABLISHED''"
| "strstate TCP_SYN_SENT = ''SYN_SENT''"
| "strstate TCP_SYN_RECV = ''SYN_RECV''"
| "strstate TCP_FIN_WAIT1 = ''FIN_WAIT1''"
| "strstate TCP_FIN_WAIT2 = ''FIN_WAIT2''"
| "strstate TCP_TIME_WAIT = ''TIME_WAIT''"
| "strstate TCP_CLOSE = ''CLOSE''"
| "strstate TCP_CLOSE_WAIT = ''CLOSE_WAIT''"
| "strstate TCP_LAST_ACK = ''LAST_ACK''"
| "strstate TCP_LISTEN = ''LISTEN''"
| "strstate TCP_CLOSING = ''CLOSING''"
| "strstate _ = ''UNKNOWN''"

definition time :: "arguments \<Rightarrow> int prog" where
  "time args = do { a \<leftarrow> syscall args Call_time; State_Monad.return (ret a) }"

definition log_traffic :: "arguments \<Rightarrow> flow \<Rightarrow> int \<Rightarrow> int \<Rightarrow> bool \<Rightarrow> bool \<Rightarrow> unit prog" where
  "log_traffic args f len uid allowed outgoing = do {
     t \<leftarrow> gettimeofday_ms args;
     _ \<leftarrow> syscall args (Java_log_traffic t f len uid allowed outgoing);
     State_Monad.return ()
   }"

definition dns_resolved :: "arguments \<Rightarrow> buf \<Rightarrow> buf \<Rightarrow> buf \<Rightarrow> u32 \<Rightarrow> int \<Rightarrow> unit prog" where
  "dns_resolved args qname aname resource ttl uid = do {
     t \<leftarrow> time args;
     _ \<leftarrow> syscall args (Java_dns_resolved (t * 1000) qname aname resource ttl uid);
     State_Monad.return ()
   }"

definition sni_resolved :: "arguments \<Rightarrow> buf \<Rightarrow> flow \<Rightarrow> int \<Rightarrow> unit prog" where
  "sni_resolved args sni f uid = do {
     _ \<leftarrow> syscall args (Java_sni_resolved sni f uid);
     State_Monad.return ()
   }"

definition is_quic_blocked :: "arguments \<Rightarrow> int \<Rightarrow> bool prog" where
  "is_quic_blocked args uid = do {
     a \<leftarrow> syscall args (Java_is_quic_blocked uid);
     State_Monad.return (ret a \<noteq> 0)
   }"

definition is_domain_blocked :: "arguments \<Rightarrow> int \<Rightarrow> buf \<Rightarrow> bool prog" where
  "is_domain_blocked args uid name = do {
     a \<leftarrow> syscall args (Java_is_domain_blocked uid name);
     State_Monad.return (ret a \<noteq> 0)
   }"

definition get_uid_q :: "arguments \<Rightarrow> flow \<Rightarrow> int prog" where
  "get_uid_q args f = do {
     a \<leftarrow> syscall args (Java_get_uid_q f);
     State_Monad.return (ret a)
   }"

definition get_uid_cached :: "arguments \<Rightarrow> flow \<Rightarrow> int prog" where
  "get_uid_cached args f = do {
     a \<leftarrow> syscall args (Java_get_uid_cached f);
     State_Monad.return (ret a)
   }"

definition cache_uid :: "arguments \<Rightarrow> flow \<Rightarrow> int \<Rightarrow> unit prog" where
  "cache_uid args f uid = do {
     _ \<leftarrow> syscall args (Java_cache_uid f uid);
     State_Monad.return ()
   }"

definition is_address_allowed :: "arguments \<Rightarrow> flow \<Rightarrow> int \<Rightarrow> bool prog" where
  "is_address_allowed args f uid = do {
     a \<leftarrow> syscall args (Java_is_address_allowed f uid);
     State_Monad.return (ret a \<noteq> 0)
   }"

definition report_exit :: "arguments \<Rightarrow> unit prog" where
  "report_exit args = do {
     _ \<leftarrow> syscall args Java_report_exit;
     State_Monad.return ()
   }"

text \<open>\<open>report_error\<close> passes an error number to the service; nothing calls it.\<close>

definition report_error :: "arguments \<Rightarrow> int \<Rightarrow> unit prog" where
  "report_error args error = do {
     _ \<leftarrow> syscall args (Java_report_error error);
     State_Monad.return ()
   }"

lemmas jni_defs = protect_socket_def get_local_port_def is_event_def is_readable_def get_ms_def gettimeofday_ms_def time_def log_traffic_def dns_resolved_def
  sni_resolved_def is_quic_blocked_def is_domain_blocked_def get_uid_q_def get_uid_cached_def
  cache_uid_def is_address_allowed_def report_exit_def

section \<open>Effects\<close>

text \<open>None of these calls sends anything or touches the engine's state.\<close>

fun is_service_call :: "call \<Rightarrow> bool" where
  "is_service_call Call_time = True"
| "is_service_call Call_get_ms = True"
| "is_service_call Call_gettimeofday = True"
| "is_service_call (Call_poll _ _) = True"
| "is_service_call (Java_protect _) = True"
| "is_service_call (Java_is_address_allowed _ _) = True"
| "is_service_call (Java_is_quic_blocked _) = True"
| "is_service_call (Java_is_domain_blocked _ _) = True"
| "is_service_call (Java_get_uid_q _) = True"
| "is_service_call (Java_get_uid_cached _) = True"
| "is_service_call (Java_cache_uid _ _) = True"
| "is_service_call (Java_log_traffic _ _ _ _ _ _) = True"
| "is_service_call (Java_dns_resolved _ _ _ _ _ _) = True"
| "is_service_call (Java_sni_resolved _ _ _) = True"
| "is_service_call Java_report_exit = True"
| "is_service_call (Java_report_error _) = True"
| "is_service_call (Call_getsockname _) = True"
| "is_service_call _ = False"

lemma frame_jni [frame_rules]:
  assumes "\<And>w e. g (w\<lparr>w_trace := e\<rparr>) = g w"
  shows "frame g (protect_socket args sock)" "frame g (get_ms args)" "frame g (gettimeofday_ms args)" "frame g (time args)"
    "frame g (is_event args fd event)" "frame g (is_readable args fd)" "frame g (get_local_port args fd)"
    "frame g (log_traffic args f len uid al og)" "frame g (dns_resolved args q a r ttl uid)"
    "frame g (sni_resolved args sni f uid)" "frame g (is_quic_blocked args uid)"
    "frame g (is_domain_blocked args uid name)" "frame g (get_uid_q args f)"
    "frame g (get_uid_cached args f)" "frame g (cache_uid args f uid)"
    "frame g (is_address_allowed args f uid)" "frame g (report_exit args)"
  using assms unfolding jni_defs by (intro frame_rules; simp)+

lemma emits_jni:
  assumes "\<And>c. is_service_call c \<Longrightarrow> P c"
  shows "emits P (protect_socket args sock)" "emits P (get_ms args)" "emits P (gettimeofday_ms args)" "emits P (time args)"
    "emits P (is_event args fd event)" "emits P (is_readable args fd)" "emits P (get_local_port args fd)"
    "emits P (log_traffic args f len uid al og)" "emits P (dns_resolved args q a r ttl uid)"
    "emits P (sni_resolved args sni f uid)" "emits P (is_quic_blocked args uid)"
    "emits P (is_domain_blocked args uid name)" "emits P (get_uid_q args f)"
    "emits P (get_uid_cached args f)" "emits P (cache_uid args f uid)"
    "emits P (is_address_allowed args f uid)" "emits P (report_exit args)"
  using assms unfolding jni_defs by (intro emits_rules; simp)+

lemma wp_time [simp]:
  "wp (time args) Q =
     (\<lambda>w. (let a = a_os args (w_trace w) Call_time in Q (ret a) (w\<lparr>w_trace := (Call_time, a) # w_trace w\<rparr>)))"
  by (simp add: time_def Let_def)

lemma wp_get_local_port [simp]:
  "wp (get_local_port args fd) Q =
     (\<lambda>w. (let a = a_os args (w_trace w) (Call_getsockname fd)
       in Q (if ret a < 0 then -1 else uint (ntohs (get16 (bytes a) 2))) (w\<lparr>w_trace := (Call_getsockname fd, a) # w_trace w\<rparr>)))"
  by (simp add: get_local_port_def Let_def)

end
