(* ===== verification/Timeout.thy ===== *)
theory Timeout
  imports World
begin

text \<open>
  The idle timeouts \<open>get_icmp_timeout\<close>, \<open>get_udp_timeout\<close> and \<open>get_tcp_timeout\<close> share one
  rule: a base value scaled down by the share of the session limit in use. The interface
  states the rule; the three functions are its instances.
\<close>

locale timeout_policy =
  fixes timeout :: "'s \<Rightarrow> int \<Rightarrow> int \<Rightarrow> int"
    and base :: "'s \<Rightarrow> int"
  assumes scaled: "timeout s n m = (base s * (100 - (n * 100) sdiv m)) sdiv 100"
    and base_pos: "0 < base s"
begin

text \<open>Within the limit the truncating divisions are the mathematical ones.\<close>

lemma share_bounds:
  fixes n m :: int
  assumes "0 \<le> n" "n \<le> m" "0 < m"
  shows "0 \<le> n * 100 div m" "n * 100 div m \<le> 100"
proof -
  show "0 \<le> n * 100 div m" using assms by (simp add: pos_imp_zdiv_nonneg_iff)
  have "n * 100 div m \<le> m * 100 div m" using assms by (intro zdiv_mono1) simp_all
  then show "n * 100 div m \<le> 100" using assms(3) by simp
qed

lemma timeout_div:
  assumes "0 \<le> n" "n \<le> m" "0 < m"
  shows "timeout s n m = base s * (100 - n * 100 div m) div 100"
proof -
  have "(n * 100) sdiv m = n * 100 div m"
    using assms by (simp add: signed_divide_int_def sgn_if)
  moreover have "0 \<le> base s * (100 - n * 100 div m)"
    using share_bounds [OF assms] base_pos [of s] by simp
  ultimately show ?thesis
    using base_pos [of s] by (auto simp: scaled signed_divide_int_def sgn_if abs_if)
qed

lemma timeout_bounds:
  assumes "0 \<le> n" "n \<le> m" "0 < m"
  shows "0 \<le> timeout s n m \<and> timeout s n m \<le> base s"
proof -
  have "0 \<le> base s * (100 - n * 100 div m)" "base s * (100 - n * 100 div m) \<le> base s * 100"
    using share_bounds [OF assms] base_pos [of s] by (simp_all add: mult_left_mono)
  then have "0 \<le> base s * (100 - n * 100 div m) div 100"
      "base s * (100 - n * 100 div m) div 100 \<le> base s * 100 div 100"
    by (simp_all add: zdiv_mono1 pos_imp_zdiv_nonneg_iff)
  then show ?thesis using timeout_div [OF assms] by simp
qed

lemma timeout_unloaded: "0 < m \<Longrightarrow> timeout s 0 m = base s"
  using timeout_div [of 0 m s] by simp

lemma timeout_full: "0 < m \<Longrightarrow> timeout s m m = 0"
  using timeout_div [of m m s] by simp

text \<open>The more sessions, the shorter the timeout.\<close>

lemma timeout_antimono:
  assumes "0 \<le> n" "n \<le> k" "k \<le> m" "0 < m"
  shows "timeout s k m \<le> timeout s n m"
proof -
  have "n * 100 div m \<le> k * 100 div m" using assms by (intro zdiv_mono1) simp_all
  then have "base s * (100 - k * 100 div m) \<le> base s * (100 - n * 100 div m)"
    using base_pos [of s] by (intro mult_left_mono) simp_all
  then show ?thesis
    using assms timeout_div [of n m s] timeout_div [of k m s] by (simp add: zdiv_mono1)
qed

end

end
