(* ===== verification/Udp_Write.thy ===== *)
theory Udp_Write
  imports Packet Jni
begin

text \<open>
  \<open>write_udp\<close> of \<open>udp.c\<close>: the packet it builds towards the application, with the
  receiver's checks on it, and \<open>check_dhcp\<close> of \<open>dhcp.c\<close>, which answers through it.
\<close>

section \<open>\<open>write_udp\<close>\<close>

text \<open>\<open>struct udphdr\<close>: source and destination are those of the session exchanged.\<close>

definition udp_header :: "udp_session \<Rightarrow> nat \<Rightarrow> u16 \<Rightarrow> buf" where
  "udp_header cur datalen check =
     (st16 (u_dest cur) @ st16 (u_source cur) @ st16 (htons (word_of_nat (8 + datalen)))) @ st16 check @ []"

definition udp_pseudo :: "udp_session \<Rightarrow> nat \<Rightarrow> buf" where
  "udp_pseudo cur datalen =
     (if u_version cur = 4
      then ippseudo IPPROTO_UDP (8 + datalen) (u_daddr cur) (u_saddr cur)
      else ip6_hdr_pseudo IPPROTO_UDP (u16to32 (htons (word_of_nat (8 + datalen))))
             (u_saddr cur) (u_daddr cur))"

definition udp_segment :: "udp_session \<Rightarrow> buf \<Rightarrow> buf" where
  "udp_segment cur data =
     (let csum = calc_checksum 0 (udp_pseudo cur (length data));
          csum = calc_checksum csum (udp_header cur (length data) 0);
          csum = calc_checksum csum data
      in udp_header cur (length data) (NOT csum) @ data)"

definition udp_packet :: "udp_session \<Rightarrow> buf \<Rightarrow> buf" where
  "udp_packet cur data =
     (if u_version cur = 4
      then ip4_header IPPROTO_UDP (20 + 8 + length data) (u_daddr cur) (u_saddr cur)
      else ip6_header IPPROTO_UDP (8 + length data) (u_daddr cur) (u_saddr cur)) @
     udp_segment cur data"

definition write_udp :: "arguments \<Rightarrow> udp_session \<Rightarrow> buf \<Rightarrow> int prog" where
  "write_udp args cur data = tun_write args (udp_packet cur data)"

interpretation udp_out: tun_writer "\<lambda>args x. write_udp args (fst x) (snd x)" "\<lambda>x. udp_packet (fst x) (snd x)"
  by unfold_locales (simp add: write_udp_def)

lemma frame_write_udp [frame_rules]:
  "(\<And>w e. g (w\<lparr>w_trace := e\<rparr>) = g w) \<Longrightarrow> frame g (write_udp args cur data)"
  using udp_out.frame_writer [of g args "(cur, data)"] by simp

lemma emits_write_udp: "(\<And>c. is_tun_call c \<Longrightarrow> P c) \<Longrightarrow> emits P (write_udp args cur data)"
  using udp_out.only_tun [of P args "(cur, data)"] by simp

text \<open>The addresses of a session have the length of its version.\<close>

definition udp_wf :: "udp_session \<Rightarrow> bool" where
  "udp_wf u \<longleftrightarrow> u_version u \<in> {4, 6} \<and> length (u_saddr u) = addr_len (u_version u) \<and>
     length (u_daddr u) = addr_len (u_version u)"

lemma length_udp_segment [simp]: "length (udp_segment cur data) = 8 + length data"
  by (simp add: udp_segment_def udp_header_def Let_def)

lemma udp_segment_ok:
  assumes "udp_wf u" "length data \<le> 65507"
  shows "segment_ok (u_version u) IPPROTO_UDP (u_daddr u) (u_saddr u) (udp_segment u data)"
proof (rule segment_ok_pseudo)
  let ?p = "udp_pseudo u (length data)"
  have l: "length (u_saddr u) = 4 \<and> length (u_daddr u) = 4 \<and> u_version u = 4 \<or>
      length (u_saddr u) = 16 \<and> length (u_daddr u) = 16 \<and> u_version u = 6"
    using assms(1) by (auto simp: udp_wf_def addr_len_def split: if_splits)
  then show p: "even (length ?p)"
    by (auto simp: udp_pseudo_def ippseudo_def ip6_hdr_pseudo_def)
  have len: "length ?p \<le> 40"
    using l by (auto simp: udp_pseudo_def ippseudo_def ip6_hdr_pseudo_def)
  show "buf_sum ?p = buf_sum (rfc_pseudo (u_version u) IPPROTO_UDP (u_daddr u) (u_saddr u)
      (length (udp_segment u data)))"
    using l assms(2)
    by (auto simp: udp_pseudo_def buf_sum_ip6_hdr_pseudo ippseudo_def rfc_pseudo_def st16_htons_of_nat
        simp del: of_nat_add of_nat_Suc)
  show "calc_checksum 0 (?p @ udp_segment u data) = 0xFFFF"
    using running_checksum_ok [OF p, of "st16 (u_dest u) @ st16 (u_source u) @
        st16 (htons (word_of_nat (8 + length data)))" "[]" data] len assms(2)
    by (simp add: udp_segment_def udp_header_def Let_def)
qed (use assms in \<open>auto simp: udp_wf_def addr_len_def udp_pseudo_def ippseudo_def ip6_hdr_pseudo_def split: if_splits\<close>)

section \<open>\<open>check_dhcp\<close>\<close>

definition DHCP_OPTION_MAGIC_NUMBER :: u32 where "DHCP_OPTION_MAGIC_NUMBER = 0x63825363"

text \<open>\<open>sizeof(struct dhcp_packet)\<close>; its fields at their packed offsets.\<close>

definition dhcp_size :: nat where "dhcp_size = 240"

text \<open>The 500 bytes sent: the request's fields with the ones the code overwrites, then zeros.\<close>

definition dhcp_response :: "buf \<Rightarrow> buf" where
  "dhcp_response request =
     [if get32 request 20 = 0 then 2 else 4] @ get_bytes request 1 7 @
     [0, 0, 0, 0, 0, 0, 0, 0, 10, 1, 10, 2, 10, 1, 10, 1, 0, 0, 0, 0] @
     get_bytes request 28 212 @ replicate 260 0"

text \<open>The 34 bytes of options.\<close>

definition dhcp_options :: "buf \<Rightarrow> buf" where
  "dhcp_options request =
     [53, 1, if get32 request 20 = 0 then 2 else 5] @ [1, 4, 255, 255, 255, 0] @ [3, 4, 10, 1, 10, 1] @
     [51, 4] @ st32 3600 @ [54, 4, 10, 1, 10, 1] @ [6, 4, 8, 8, 8, 8] @ [255]"

text \<open>
  \<open>options = (uint8_t *) (response + sizeof(struct dhcp_packet))\<close>: the addition counts
  structures, so the options are stored 57600 bytes after the start of the 500 byte object.
  The address of the session is overwritten through the \<open>const\<close> pointer.
\<close>

definition check_dhcp :: "arguments \<Rightarrow> udp_session \<Rightarrow> buf \<Rightarrow> (udp_session \<times> int) prog" where
  "check_dhcp args u data =
     (if length data < dhcp_size then State_Monad.return (u, -1)
      else if ntohl (get32 data 236) \<noteq> DHCP_OPTION_MAGIC_NUMBER then State_Monad.return (u, -1)
      else if get8 data 1 \<noteq> 1 \<or> get8 data 2 \<noteq> 6 then State_Monad.return (u, -1)
      else if get8 data 0 = 1 then do {
        let u = u\<lparr>u_saddr := [10, 1, 10, 1] @ drop 4 (u_saddr u)\<rparr>;
        let response = dhcp_response data;
        touch response (dhcp_size * dhcp_size) (length (dhcp_options data));
        _ \<leftarrow> write_udp args u response;
        State_Monad.return (u, 0)
      }
      else State_Monad.return (u, 0))"

lemma length_dhcp_response: "length (dhcp_response r) = 500"
  by (simp add: dhcp_response_def)

lemma emits_check_dhcp: "(\<And>c. is_tun_call c \<Longrightarrow> P c) \<Longrightarrow> emits P (check_dhcp args u data)"
  unfolding check_dhcp_def by (intro emits_rules emits_write_udp)

lemma frame_check_dhcp [frame_rules]:
  "(\<And>w e. g (w\<lparr>w_trace := e\<rparr>) = g w) \<Longrightarrow> (\<And>w e. g (w\<lparr>w_ub := e\<rparr>) = g w) \<Longrightarrow> frame g (check_dhcp args u data)"
  unfolding check_dhcp_def by (intro frame_rules)

section \<open>Claims\<close>


definition dns_session :: udp_session where
  "dns_session = \<lparr>u_time = 0, u_uid = 10001, u_version = 4, u_mss = 65507, u_sent = 0, u_received = 0,
     u_saddr = [10, 1, 10, 1], u_source = htons 40000, u_daddr = [8, 8, 8, 8], u_dest = htons 53,
     u_state = UDP_ACTIVE\<rparr>"



definition dhcp_discover :: buf where
  "dhcp_discover = [1, 1, 6] @ replicate 233 0 @ [0x63, 0x82, 0x53, 0x63]"

lemma get_bytes_dhcp_discover:
  "get8 dhcp_discover 0 = 1" "get8 dhcp_discover 1 = 1" "get8 dhcp_discover 2 = 6"
  "get32 dhcp_discover 236 = le32 0x63 0x82 0x53 0x63" "length dhcp_discover = 240"
  by (simp_all add: dhcp_discover_def get8_def get32_def nth_append)


end
