(* ===== verification/Udp.thy ===== *)
theory Udp
  imports Udp_Write Timeout Dns
begin

text \<open>
  The UDP part of the engine, \<open>udp.c\<close>: the idle check and the socket events of a session,
  the search for the session of a packet, the handling of a packet of an allowed flow and
  the registration of a blocked one. The functions of one session work on its value and
  return it changed; the callers store it back.
\<close>

definition UDP_TIMEOUT_53 :: int where "UDP_TIMEOUT_53 = 15"
definition UDP_TIMEOUT_ANY :: int where "UDP_TIMEOUT_ANY = 300"
definition UDP_KEEP_TIMEOUT :: int where "UDP_KEEP_TIMEOUT = 60"
definition UDP4_MAXMSG :: u16 where "UDP4_MAXMSG = 65535 - 20 - 8"
definition UDP6_MAXMSG :: u16 where "UDP6_MAXMSG = 65535 - 40 - 8"

section \<open>Session checks\<close>

definition get_udp_timeout :: "udp_session \<Rightarrow> int \<Rightarrow> int \<Rightarrow> int" where
  "get_udp_timeout u sessions maxsessions =
     (let timeout = (if ntohs (u_dest u) = 53 then UDP_TIMEOUT_53 else UDP_TIMEOUT_ANY);
          scale = 100 - (sessions * 100) sdiv maxsessions
      in (timeout * scale) sdiv 100)"

interpretation udp_timeout: timeout_policy get_udp_timeout
  "\<lambda>u. if ntohs (u_dest u) = 53 then UDP_TIMEOUT_53 else UDP_TIMEOUT_ANY"
  by unfold_locales (simp_all add: get_udp_timeout_def Let_def UDP_TIMEOUT_53_def UDP_TIMEOUT_ANY_def)

text \<open>The result is whether the session is to be deleted.\<close>

definition check_udp_session ::
  "arguments \<Rightarrow> udp_session ng_session \<Rightarrow> int \<Rightarrow> int \<Rightarrow> (udp_session ng_session \<times> bool) prog" where
  "check_udp_session args s sessions maxsessions = do {
     now \<leftarrow> time args;
     let timeout = get_udp_timeout (s_body s) sessions maxsessions;
     let s = (if u_state (s_body s) = UDP_ACTIVE \<and> u_time (s_body s) + timeout < now
              then s\<lparr>s_body := (s_body s)\<lparr>u_state := UDP_FINISHING\<rparr>\<rparr> else s);
     s \<leftarrow> (if u_state (s_body s) = UDP_FINISHING then do {
            _ \<leftarrow> syscall args (Call_close (s_socket s));
            t \<leftarrow> time args;
            State_Monad.return (s\<lparr>s_socket := -1, s_body := (s_body s)\<lparr>u_time := t, u_state := UDP_CLOSED\<rparr>\<rparr>)
          }
          else State_Monad.return s);
     let s = (if u_state (s_body s) = UDP_CLOSED \<and> (u_sent (s_body s) \<noteq> 0 \<or> u_received (s_body s) \<noteq> 0)
              then s\<lparr>s_body := (s_body s)\<lparr>u_sent := 0, u_received := 0\<rparr>\<rparr> else s);
     State_Monad.return (s, (u_state (s_body s) = UDP_CLOSED \<or> u_state (s_body s) = UDP_BLOCKED) \<and>
                            u_time (s_body s) + UDP_KEEP_TIMEOUT < now)
   }"

section \<open>Socket events\<close>

text \<open>
  \<open>parse_dns_response\<close> with its reports to the service; its local \<open>name\<close> is uninitialised,
  and a read or write outside the buffers is undefined.
\<close>

fun report_dns :: "arguments \<Rightarrow> int \<Rightarrow> dns_report list \<Rightarrow> unit prog" where
  "report_dns args uid [] = State_Monad.return ()"
| "report_dns args uid (r # rs) = do {
     dns_resolved args (rr_qname r) (rr_aname r) (rr_resource r) (rr_ttl r) uid;
     report_dns args uid rs
   }"

definition process_dns :: "arguments \<Rightarrow> buf \<Rightarrow> int \<Rightarrow> unit prog" where
  "process_dns args data uid = do {
     name \<leftarrow> syscall args Call_uninit;
     case parse_dns_response data (length data) (take 256 (bytes name @ replicate 256 0)) of
       None \<Rightarrow> undefined_behaviour
     | Some rs \<Rightarrow> report_dns args uid rs
   }"

definition udp_flow :: "u8 \<Rightarrow> udp_session \<Rightarrow> flow" where
  "udp_flow protocol u = \<lparr>f_version = u_version u, f_protocol = protocol, f_saddr = u_saddr u,
     f_sport = ntohs (u_source u), f_daddr = u_daddr u, f_dport = ntohs (u_dest u)\<rparr>"

text \<open>The log of an incoming packet: the owner of the session, or the one cached for the flow.\<close>

definition log_incoming :: "arguments \<Rightarrow> flow \<Rightarrow> flow \<Rightarrow> int \<Rightarrow> int \<Rightarrow> unit prog" where
  "log_incoming args cached f uid n =
     guarded (a_logTraffic args) (do {
       uid \<leftarrow> (if uid < 0 then get_uid_cached args cached else State_Monad.return uid);
       allowed \<leftarrow> is_address_allowed args f uid;
       log_traffic args f n uid allowed False
     })"

text \<open>The branch of a datagram received: \<open>n\<close> bytes, \<open>data\<close>.\<close>

definition udp_received ::
  "arguments \<Rightarrow> udp_session ng_session \<Rightarrow> int \<Rightarrow> buf \<Rightarrow> udp_session ng_session prog" where
  "udp_received args s n data = do {
     let dport = ntohs (u_dest (s_body s));
     let s = s\<lparr>s_body := (s_body s)\<lparr>u_received := u_received (s_body s) + word_of_int n\<rparr>\<rparr>;
     guarded (dport = 53) (process_dns args data (u_uid (s_body s)));
     res \<leftarrow> write_udp args (s_body s) data;
     let s = (if res < 0 then s\<lparr>s_body := (s_body s)\<lparr>u_state := UDP_FINISHING\<rparr>\<rparr>
              else if dport = 53 then s\<lparr>s_body := (s_body s)\<lparr>u_state := UDP_FINISHING\<rparr>\<rparr>
              else s);
     let f = udp_flow (s_protocol s) (s_body s);
     log_incoming args f f (u_uid (s_body s)) n;
     State_Monad.return s
   }"

definition check_udp_socket ::
  "arguments \<Rightarrow> udp_session ng_session \<Rightarrow> u32 \<Rightarrow> udp_session ng_session prog" where
  "check_udp_socket args s events =
     (if events AND EPOLLERR \<noteq> 0 then do {
        t \<leftarrow> time args;
        _ \<leftarrow> syscall args (Call_getsockopt (s_socket s) SO_ERROR);
        State_Monad.return (s\<lparr>s_body := (s_body s)\<lparr>u_time := t, u_state := UDP_FINISHING\<rparr>\<rparr>)
      }
      else if events AND EPOLLIN \<noteq> 0 then do {
        t \<leftarrow> time args;
        let s = s\<lparr>s_body := (s_body s)\<lparr>u_time := t\<rparr>\<rparr>;
        r \<leftarrow> syscall args (Call_recv (s_socket s) (unat (u_mss (s_body s))));
        if ret r < 0 then
          State_Monad.return
            (if errno r \<noteq> EINTR \<and> errno r \<noteq> EAGAIN
             then s\<lparr>s_body := (s_body s)\<lparr>u_state := UDP_FINISHING\<rparr>\<rparr> else s)
        else if ret r = 0 then
          State_Monad.return (s\<lparr>s_body := (s_body s)\<lparr>u_state := UDP_FINISHING\<rparr>\<rparr>)
        else udp_received args s (ret r) (get_bytes (bytes r) 0 (nat (ret r)))
      }
      else State_Monad.return s)"

section \<open>Packets from the tun device\<close>

text \<open>The condition of the search loops.\<close>

definition udp_match :: "buf \<Rightarrow> nat \<Rightarrow> session \<Rightarrow> bool" where
  "udp_match pkt payload s =
     (case s_body s of
        UDP u \<Rightarrow> s_protocol s = IPPROTO_UDP \<and> u_version u = ip_version pkt \<and>
                 u_source u = get16 pkt payload \<and> u_dest u = get16 pkt (payload + 2) \<and>
                 u_saddr u = ip_saddr pkt \<and> u_daddr u = ip_daddr pkt
      | _ \<Rightarrow> False)"

definition has_udp_session :: "buf \<Rightarrow> nat \<Rightarrow> bool prog" where
  "has_udp_session pkt payload = do {
     touch_ip pkt;
     touch pkt payload 8;
     if ntohs (get16 pkt (payload + 2)) = 53 then State_Monad.return True
     else do {
       cur \<leftarrow> find_session (udp_match pkt payload);
       State_Monad.return (cur \<noteq> None)
     }
   }"

text \<open>
  The fields of a blocked session that are not set keep what \<open>malloc\<close> returned: here the
  answer's \<open>ret\<close>, \<open>errno\<close> and \<open>out\<close>, and no event mask.
\<close>

definition block_udp :: "arguments \<Rightarrow> buf \<Rightarrow> nat \<Rightarrow> int \<Rightarrow> unit prog" where
  "block_udp args pkt payload uid = do {
     touch_ip pkt;
     touch pkt payload 8;
     addr \<leftarrow> fresh_addr;
     junk \<leftarrow> syscall args Call_uninit;
     t \<leftarrow> time args;
     push_session \<lparr>s_addr = addr, s_protocol = IPPROTO_UDP,
       s_body = UDP \<lparr>u_time = t, u_uid = uid, u_version = ip_version pkt, u_mss = word_of_int (ret junk),
         u_sent = word_of_int (errno junk), u_received = word_of_int (out junk),
         u_saddr = ip_saddr pkt, u_source = get16 pkt payload, u_daddr = ip_daddr pkt,
         u_dest = get16 pkt (payload + 2), u_state = UDP_BLOCKED\<rparr>,
       s_socket = -1, s_events = 0\<rparr>
   }"

definition open_udp_socket :: "arguments \<Rightarrow> udp_session \<Rightarrow> int prog" where
  "open_udp_socket args cur = do {
     r \<leftarrow> syscall args (Call_socket (u_version cur = 4) IPPROTO_UDP);
     if ret r < 0 then State_Monad.return (-1)
     else do {
       let sock = ret r;
       p \<leftarrow> protect_socket args sock;
       if p < 0 then State_Monad.return (-1)
       else do {
         (if u_version cur = 4 then
           guarded (u_daddr cur = [255, 255, 255, 255])
             (do { _ \<leftarrow> syscall args (Call_setsockopt sock SO_BROADCAST); State_Monad.return () })
         else
           guarded (get8 (u_daddr cur) 0 = 0xFF) (do {
             _ \<leftarrow> syscall args (Call_setsockopt sock IPV6_MULTICAST_LOOP);
             _ \<leftarrow> syscall args (Call_setsockopt sock IPV6_MULTICAST_HOPS);
             _ \<leftarrow> syscall args (Call_setsockopt sock IPV6_ADD_MEMBERSHIP);
             State_Monad.return ()
           }));
         State_Monad.return sock
       }
     }
   }"

text \<open>The new session of a packet: \<^term>\<open>None\<close> when its socket could not be opened.\<close>

definition udp_new_session :: "arguments \<Rightarrow> buf \<Rightarrow> nat \<Rightarrow> int \<Rightarrow> udp_session ng_session option prog" where
  "udp_new_session args pkt payload uid = do {
     addr \<leftarrow> fresh_addr;
     t \<leftarrow> time args;
     let u = \<lparr>u_time = t, u_uid = uid, u_version = ip_version pkt,
              u_mss = (if ip_version pkt = 4 then UDP4_MAXMSG else UDP6_MAXMSG), u_sent = 0, u_received = 0,
              u_saddr = ip_saddr pkt, u_source = get16 pkt payload, u_daddr = ip_daddr pkt,
              u_dest = get16 pkt (payload + 2), u_state = UDP_ACTIVE\<rparr>;
     sock \<leftarrow> open_udp_socket args u;
     if sock < 0 then State_Monad.return None
     else do {
       let s = \<lparr>s_addr = addr, s_protocol = IPPROTO_UDP, s_body = u, s_socket = sock,
                s_events = EPOLLIN OR EPOLLERR\<rparr>;
       _ \<leftarrow> syscall args (Call_epoll_ctl EPOLL_CTL_ADD sock (s_events s));
       push_session (with_body s (UDP u));
       State_Monad.return (Some s)
     }
   }"

text \<open>
  The rest of \<open>handle_udp\<close> for its session: the answer to DHCP, or the datagram forwarded.
  The length of the data is a \<open>size_t\<close>; \<open>sendto\<close> is given it as a \<open>socklen_t\<close>.
\<close>

definition udp_forward ::
  "arguments \<Rightarrow> udp_session ng_session \<Rightarrow> buf \<Rightarrow> nat \<Rightarrow> nat \<Rightarrow> (udp_session ng_session \<times> bool) prog" where
  "udp_forward args cur pkt len payload = do {
     let datalen = (word_of_nat len - word_of_nat (payload + 8) :: u64);
     (u, dhcp) \<leftarrow> (if ntohs (get16 pkt payload) = 68 \<or> ntohs (get16 pkt (payload + 2)) = 67 then do {
         data \<leftarrow> load pkt (payload + 8) (unat datalen);
         check_dhcp args (s_body cur) data
       }
       else State_Monad.return (s_body cur, -1));
     let cur = cur\<lparr>s_body := u\<rparr>;
     if dhcp \<ge> 0 then State_Monad.return (cur, True)
     else do {
       t \<leftarrow> time args;
       let cur = cur\<lparr>s_body := (s_body cur)\<lparr>u_time := t\<rparr>\<rparr>;
       data \<leftarrow> load pkt (payload + 8) (unat (ucast datalen :: u32));
       r \<leftarrow> syscall args (Call_sendto (s_socket cur) data (u_daddr (s_body cur)) (u_dest (s_body cur)));
       if (word_of_int (ret r) :: u64) \<noteq> datalen then
         if errno r \<noteq> EINTR \<and> errno r \<noteq> EAGAIN
         then State_Monad.return (cur\<lparr>s_body := (s_body cur)\<lparr>u_state := UDP_FINISHING\<rparr>\<rparr>, False)
         else State_Monad.return (cur, True)
       else State_Monad.return (cur\<lparr>s_body := (s_body cur)\<lparr>u_sent := u_sent (s_body cur) + datalen\<rparr>\<rparr>, True)
     }
   }"

definition handle_udp :: "arguments \<Rightarrow> buf \<Rightarrow> nat \<Rightarrow> nat \<Rightarrow> int \<Rightarrow> bool prog" where
  "handle_udp args pkt len payload uid = do {
     touch_ip pkt;
     touch pkt payload 8;
     found \<leftarrow> find_session (udp_match pkt payload);
     cur \<leftarrow> (case found of
         None \<Rightarrow> udp_new_session args pkt payload uid
       | Some s \<Rightarrow> (case s_body s of
             UDP u \<Rightarrow> State_Monad.return
               (if u_state u \<noteq> UDP_ACTIVE then None
                else Some (with_body s (if u_uid u = -1 \<and> uid > 0 then u\<lparr>u_uid := uid\<rparr> else u)))
           | _ \<Rightarrow> State_Monad.return None));
     case cur of
       None \<Rightarrow> State_Monad.return False
     | Some cur \<Rightarrow> do {
         (cur, r) \<leftarrow> udp_forward args cur pkt len payload;
         put_session (with_body cur (UDP (s_body cur)));
         State_Monad.return r
       }
   }"

section \<open>The invariant of a session\<close>

text \<open>
  The tag of the union, addresses of the version's length; an active or finishing session owns an open socket, a
  closed or blocked one owns none.
\<close>

definition udp_inv :: "udp_session ng_session \<Rightarrow> bool" where
  "udp_inv s \<longleftrightarrow> udp_wf (s_body s) \<and> s_protocol s = IPPROTO_UDP \<and>
     (u_state (s_body s) \<le> UDP_FINISHING \<longrightarrow> 0 \<le> s_socket s) \<and>
     (UDP_CLOSED \<le> u_state (s_body s) \<longrightarrow> s_socket s = -1)"

lemma udp_state_order [simp]:
  "UDP_ACTIVE \<le> x" "x \<le> UDP_BLOCKED" "UDP_FINISHING \<le> UDP_CLOSED" "\<not> UDP_CLOSED \<le> UDP_FINISHING"
  "\<not> UDP_CLOSED \<le> UDP_ACTIVE" "\<not> UDP_BLOCKED \<le> UDP_FINISHING" "\<not> UDP_BLOCKED \<le> UDP_ACTIVE"
  "\<not> UDP_BLOCKED \<le> UDP_CLOSED" "\<not> UDP_FINISHING \<le> UDP_ACTIVE"
  by (cases x; simp add: less_eq_udp_state_def)+

lemma udp_wf_update [simp]:
  "udp_wf (u\<lparr>u_time := t\<rparr>) = udp_wf u" "udp_wf (u\<lparr>u_state := st\<rparr>) = udp_wf u"
  "udp_wf (u\<lparr>u_sent := a\<rparr>) = udp_wf u" "udp_wf (u\<lparr>u_received := b\<rparr>) = udp_wf u"
  "udp_wf (u\<lparr>u_uid := c\<rparr>) = udp_wf u"
  by (simp_all add: udp_wf_def)

text \<open>The descriptors closed in a trace, newest first.\<close>

fun closed_fds :: "event list \<Rightarrow> int list" where
  "closed_fds [] = []"
| "closed_fds ((Call_close fd, _) # es) = fd # closed_fds es"
| "closed_fds (e # es) = closed_fds es"

lemma check_udp_session_wp:
  assumes "udp_inv s"
  shows "wp (check_udp_session args s n m) (\<lambda>(s', del) w'.
    udp_inv s' \<and> s_addr s' = s_addr s \<and> s_protocol s' = s_protocol s \<and>
    u_state (s_body s) \<le> u_state (s_body s') \<and> u_state (s_body s') \<noteq> UDP_FINISHING \<and>
    (del \<longrightarrow> s_socket s' = -1) \<and> w_sessions w' = w_sessions w \<and> w_ub w' = w_ub w \<and>
    closed_fds (w_trace w') = (if s_socket s' = s_socket s then [] else [s_socket s]) @ closed_fds (w_trace w)) w"
  using assms
  by (cases "u_state (s_body s)") (auto simp: check_udp_session_def Let_def udp_inv_def)

lemma frame_report_dns [frame_rules]:
  "(\<And>w e. g (w\<lparr>w_trace := e\<rparr>) = g w) \<Longrightarrow> frame g (report_dns args uid rs)"
  by (induction rs) (simp_all add: frame_rules)

lemma emits_report_dns:
  "(\<And>c. is_service_call c \<Longrightarrow> P c) \<Longrightarrow> emits P (report_dns args uid rs)"
  by (induction rs) (simp_all add: emits_rules emits_jni)

text \<open>The parser is memory safe, so processing a response has no undefined behaviour.\<close>

lemma frame_process_dns [frame_rules]:
  assumes "\<And>w e. g (w\<lparr>w_trace := e\<rparr>) = g w"
  shows "frame g (process_dns args data uid)"
proof -
  have "\<exists>rs. parse_dns_response data (length data) (take 256 (b @ replicate 256 0)) = Some rs" for b
    by (rule parse_dns_response_safe) (simp_all add: dns_consts)
  then show ?thesis
    unfolding process_dns_def using assms
    by (intro frame_bind frame_syscall) (auto split: option.split intro!: frame_report_dns, metis option.distinct(1))
qed

lemma emits_process_dns:
  "(\<And>c. is_service_call c \<Longrightarrow> P c) \<Longrightarrow> P Call_uninit \<Longrightarrow> emits P (process_dns args data uid)"
  unfolding process_dns_def by (intro emits_rules emits_report_dns)

lemma frame_log_incoming [frame_rules]:
  "(\<And>w e. g (w\<lparr>w_trace := e\<rparr>) = g w) \<Longrightarrow> frame g (log_incoming args c f uid n)"
  unfolding log_incoming_def by (intro frame_rules)

lemma emits_log_incoming:
  "(\<And>c. is_service_call c \<Longrightarrow> P c) \<Longrightarrow> emits P (log_incoming args c f uid n)"
  unfolding log_incoming_def by (intro emits_rules emits_jni)

text \<open>The programs a socket event runs, in the calculus: what each adds to the trace.\<close>

definition quiet :: "event list \<Rightarrow> bool" where
  "quiet es \<longleftrightarrow> (\<forall>e \<in> set es. is_service_call (fst e) \<or> fst e = Call_uninit)"

lemma quiet_append [simp]: "quiet (es @ es') \<longleftrightarrow> quiet es \<and> quiet es'" "quiet []"
  by (auto simp: quiet_def)

lemma wp_quiet_dns:
  assumes "\<And>es. quiet es \<Longrightarrow> Q () (w\<lparr>w_trace := es @ w_trace w\<rparr>)"
  shows "wp (guarded b (process_dns args data uid)) Q w"
  by (rule wp_quiet [of "\<lambda>c. is_service_call c \<or> c = Call_uninit"])
    (auto intro!: emits_guarded emits_process_dns frame_rules assms simp: quiet_def)

lemma wp_quiet_log:
  assumes "\<And>es. quiet es \<Longrightarrow> Q () (w\<lparr>w_trace := es @ w_trace w\<rparr>)"
  shows "wp (log_incoming args c f uid n) Q w"
  by (rule wp_quiet [of is_service_call])
    (auto intro!: emits_log_incoming frame_rules assms simp: quiet_def)

lemma wp_write_udp:
  assumes "\<And>r es. tun_packets es = [udp_packet u data] \<Longrightarrow> \<forall>e \<in> set es. is_tun_call (fst e) \<Longrightarrow>
    Q r (w\<lparr>w_trace := es @ w_trace w\<rparr>)"
  shows "wp (write_udp args u data) Q w"
  unfolding write_udp_def by (rule wp_tun_write) (rule assms)

text \<open>The data received in a trace, oldest first.\<close>

fun recv_data :: "event list \<Rightarrow> buf list" where
  "recv_data [] = []"
| "recv_data ((Call_recv fd n, a) # es) =
     recv_data es @ (if 0 < ret a then [get_bytes (bytes a) 0 (nat (ret a))] else [])"
| "recv_data (e # es) = recv_data es"

lemma recv_data_append: "recv_data (es @ es') = recv_data es' @ recv_data es"
  by (induction es rule: recv_data.induct) auto

lemma recv_data_none:
  "\<forall>e \<in> set es. \<forall>fd n. fst e \<noteq> Call_recv fd n \<Longrightarrow> recv_data es = []"
proof (induction es)
  case (Cons e es)
  then show ?case by (cases e; cases "fst e") auto
qed simp

lemma recv_data_quiet [simp]: "quiet es \<Longrightarrow> recv_data es = []"
  by (rule recv_data_none) (auto simp: quiet_def)

lemma recv_data_tun [simp]: "\<forall>e \<in> set es. is_tun_call (fst e) \<Longrightarrow> recv_data es = []"
  by (rule recv_data_none) (auto simp: is_tun_call_def)

lemma tun_packets_quiet' [simp]: "quiet es \<Longrightarrow> tun_packets es = []"
  by (rule tun_packets_none) (auto simp: quiet_def)

lemma udp_packet_update [simp]:
  "udp_packet (u\<lparr>u_time := t\<rparr>) d = udp_packet u d" "udp_packet (u\<lparr>u_received := r\<rparr>) d = udp_packet u d"
  by (simp_all add: udp_packet_def udp_segment_def udp_pseudo_def udp_header_def)

lemma udp_received_wp:
  assumes "udp_inv s" "u_state (s_body s) \<le> UDP_FINISHING"
  shows "wp (udp_received args s n data) (\<lambda>s' w'.
    udp_inv s' \<and> s_addr s' = s_addr s \<and> s_protocol s' = s_protocol s \<and> s_socket s' = s_socket s \<and>
    u_state (s_body s) \<le> u_state (s_body s') \<and> u_state (s_body s') \<le> UDP_FINISHING \<and>
    (\<exists>es. w' = w\<lparr>w_trace := es @ w_trace w\<rparr> \<and> recv_data es = [] \<and>
          tun_packets es = [udp_packet (s_body s) data])) w"
    (is "wp _ ?Q w")
proof -
  have tr: "\<exists>es. w\<lparr>w_trace := es3 @ es2 @ es1 @ w_trace w\<rparr> = w\<lparr>w_trace := es @ w_trace w\<rparr> \<and>
      recv_data es = [] \<and> tun_packets es = [udp_packet (s_body s) data]"
    if "quiet es1" "quiet es3" "tun_packets es2 = [udp_packet (s_body s) data]"
      "\<forall>e \<in> set es2. is_tun_call (fst e)" for es1 es2 es3
    using that by (intro exI [of _ "es3 @ es2 @ es1"]) (simp add: recv_data_append tun_packets_append)
  show ?thesis
    unfolding udp_received_def Let_def wp_bind wp_return
    by (intro wp_quiet_dns wp_write_udp wp_quiet_log)
      (use assms in \<open>auto simp: udp_inv_def intro!: tr dest: order_trans\<close>)
qed

text \<open>
  A socket event of an open session: the session stays open, is at most moved to finishing,
  and every datagram received is written once, unchanged, to the application.
\<close>

lemma check_udp_socket_wp:
  assumes "udp_inv s" "u_state (s_body s) \<le> UDP_FINISHING"
  shows "wp (check_udp_socket args s ev) (\<lambda>s' w'.
    udp_inv s' \<and> s_addr s' = s_addr s \<and> s_protocol s' = s_protocol s \<and> s_socket s' = s_socket s \<and>
    u_state (s_body s) \<le> u_state (s_body s') \<and> u_state (s_body s') \<le> UDP_FINISHING \<and>
    (\<exists>es. w' = w\<lparr>w_trace := es @ w_trace w\<rparr> \<and>
          tun_packets es = map (udp_packet (s_body s)) (recv_data es))) w"
    (is "wp _ ?Q w")
proof -
  let ?t = "a_os args (w_trace w) Call_time"
  let ?w1 = "(Call_time, ?t) # w_trace w"
  let ?c = "Call_recv (s_socket s) (unat (u_mss (s_body s)))"
  let ?r = "a_os args ?w1 ?c"
  have inv: "udp_wf (s_body s)" "s_protocol s = IPPROTO_UDP" "0 \<le> s_socket s" using assms by (auto simp: udp_inv_def)
  have ne: "u_state (s_body s) \<noteq> UDP_CLOSED" "u_state (s_body s) \<noteq> UDP_BLOCKED"
    "\<not> UDP_CLOSED \<le> u_state (s_body s)"
    using assms(2) by (cases "u_state (s_body s)"; simp)+
  consider "ev AND EPOLLERR \<noteq> 0" | "ev AND EPOLLERR = 0" "ev AND EPOLLIN = 0"
    | "ev AND EPOLLERR = 0" "ev AND EPOLLIN \<noteq> 0" "ret ?r \<le> 0"
    | (data) "ev AND EPOLLERR = 0" "ev AND EPOLLIN \<noteq> 0" "0 < ret ?r" by linarith
  then show ?thesis
  proof cases
    case 1
    let ?g = "Call_getsockopt (s_socket s) SO_ERROR"
    show ?thesis
      using 1 inv assms(2)
      by (auto simp: check_udp_socket_def Let_def udp_inv_def
          intro!: exI [of _ "[(?g, a_os args ?w1 ?g), (Call_time, ?t)]"])
  next
    case 2
    then show ?thesis using assms by (auto simp: check_udp_socket_def intro!: exI [of _ "[]"])
  next
    case 3
    show ?thesis
      using 3 inv assms(2) ne
      by (auto simp: check_udp_socket_def Let_def udp_inv_def
          intro!: exI [of _ "[(?c, ?r), (Call_time, ?t)]"])
  next
    case data
    let ?s = "s\<lparr>s_body := (s_body s)\<lparr>u_time := ret ?t\<rparr>\<rparr>"
    let ?d = "get_bytes (bytes ?r) 0 (nat (ret ?r))"
    have "wp (udp_received args ?s (ret ?r) ?d) ?Q (w\<lparr>w_trace := (?c, ?r) # ?w1\<rparr>)"
    proof (rule wp_mono [OF udp_received_wp], goal_cases)
      case (3 s' w')
      then obtain es where "w' = w\<lparr>w_trace := es @ (?c, ?r) # ?w1\<rparr>" "recv_data es = []"
          "tun_packets es = [udp_packet (s_body s) ?d]"
        by auto
      then show ?case
        using 3 data(3) by (auto simp: recv_data_append tun_packets_append
            intro!: exI [of _ "es @ [(?c, ?r), (Call_time, ?t)]"])
    qed (use inv assms ne in \<open>auto simp: udp_inv_def\<close>)
    then show ?thesis using data by (simp add: check_udp_socket_def Let_def)
  qed
qed

section \<open>Handling a packet keeps the store\<close>

lemma with_body_with_body [simp]: "with_body (with_body s a) b = with_body s b"
  by (simp add: with_body_def)

definition udp_ok :: "session \<Rightarrow> bool" where
  "udp_ok s = (case s_body s of UDP u \<Rightarrow> udp_inv (with_body s u) | _ \<Rightarrow> True)"

lemma addr_lengths [simp]:
  "length (ip_saddr pkt) = addr_len (ip_version pkt)" "length (ip_daddr pkt) = addr_len (ip_version pkt)"
  by (simp_all add: ip_saddr_def ip_daddr_def addr_len_def)

lemma dhcp_wf:
  assumes "udp_wf u"
  shows "udp_wf (u\<lparr>u_saddr := 10 # 1 # 10 # 1 # drop 4 (u_saddr u)\<rparr>)"
  using assms by (auto simp: udp_wf_def addr_len_def)

lemma returns_check_dhcp:
  "returns (\<lambda>(v, r). (udp_wf u \<longrightarrow> udp_wf v) \<and> u_state v = u_state u \<and> u_daddr v = u_daddr u \<and> u_dest v = u_dest u)
     (check_dhcp args u data)"
  unfolding check_dhcp_def by (intro returns_rules) (auto simp: dhcp_wf)

lemma returns_udp_forward:
  assumes "udp_inv cur" "u_state (s_body cur) = UDP_ACTIVE"
  shows "returns (\<lambda>(cur', r). udp_inv cur' \<and> s_addr cur' = s_addr cur \<and> s_protocol cur' = s_protocol cur \<and>
      s_socket cur' = s_socket cur)
    (udp_forward args cur pkt len payload)"
proof -
  have inv: "udp_wf (s_body cur)" "s_protocol cur = IPPROTO_UDP" "0 \<le> s_socket cur" using assms by (simp_all add: udp_inv_def)
  let ?R = "\<lambda>(v :: udp_session, r :: int). udp_wf v \<and> u_state v = UDP_ACTIVE"
  have "returns ?R (if b then do { d \<leftarrow> load pkt i n; check_dhcp args (s_body cur) d }
      else State_Monad.return (s_body cur, -1))" for b i n
    using inv assms(2)
    by (intro returns_rules) (auto intro!: returns_bind returns_mono [OF returns_check_dhcp] returns_return)
  then show ?thesis
    unfolding udp_forward_def Let_def
    by (intro returns_bind_strong [where R = ?R])
      (auto intro!: returns_rules simp: udp_inv_def inv)
qed

lemma frame_udp_forward: "frame store (udp_forward args cur pkt len payload)"
  unfolding udp_forward_def by (intro frame_rules) simp_all

lemma open_udp_socket_summary:
  "frame store (open_udp_socket args u)" "returns (\<lambda>r. r = -1 \<or> 0 \<le> r) (open_udp_socket args u)"
  unfolding open_udp_socket_def
  by (intro frame_rules; simp) (intro returns_rules; simp)

lemma udp_new_session_wp:
  assumes "ip_version pkt \<in> {4, 6}"
    and none: "\<And>w'. store w' = (w_sessions w, w_fresh w + 1) \<Longrightarrow> Q None w'"
    and some: "\<And>s w'. udp_inv s \<Longrightarrow> s_addr s = w_fresh w \<Longrightarrow> s_protocol s = IPPROTO_UDP \<Longrightarrow>
      u_state (s_body s) = UDP_ACTIVE \<Longrightarrow>
      store w' = (with_body s (UDP (s_body s)) # w_sessions w, w_fresh w + 1) \<Longrightarrow> Q (Some s) w'"
  shows "wp (udp_new_session args pkt payload uid) Q w"
  unfolding udp_new_session_def Let_def wp_bind wp_fresh_addr wp_time
  by (rule wp_frame_returns [OF open_udp_socket_summary])
    (use assms(1) in \<open>auto simp: Let_def udp_inv_def udp_wf_def with_body_def intro!: none some\<close>)

text \<open>
  The store under any invariant that means \<^term>\<open>udp_inv\<close> on UDP sessions: the other protocols
  bring their own part of it.
\<close>

lemma udp_ok_UDP: "udp_inv s \<Longrightarrow> udp_ok (with_body s (UDP (s_body s)))"
  by (simp add: udp_ok_def)

lemma find_SomeD: "find P xs = Some x \<Longrightarrow> x \<in> set xs \<and> P x"
  by (auto simp: find_Some_iff)

lemma udp_matchE:
  assumes "find (udp_match pkt payload) ss = Some s"
  obtains u where "s \<in> set ss" "s_body s = UDP u" "u_version u = ip_version pkt"
    "u_daddr u = ip_daddr pkt" "u_dest u = get16 pkt (payload + 2)"
  using find_SomeD [OF assms] by (cases "s_body s") (auto simp: udp_match_def)

locale udp_store =
  fixes ok :: "session \<Rightarrow> bool"
  assumes ok_UDP: "s_body s = UDP u \<Longrightarrow> ok s \<longleftrightarrow> udp_inv (with_body s u)"
begin

lemma ok_with: "udp_inv s \<Longrightarrow> ok (with_body s (UDP (s_body s)))"
  by (simp add: ok_UDP [of _ "s_body s"])

lemma handle_udp_keeps:
  assumes w: "evolves ok z w" and v: "ip_version pkt \<in> {4, 6}"
  shows "wp (handle_udp args pkt len payload uid) (\<lambda>_. evolves ok z) w"
proof -
  have fwd: "wp (udp_forward args cur pkt len payload)
      (\<lambda>(c, r). wp (put_session (with_body c (UDP (s_body c)))) (\<lambda>_. evolves ok z)) w1"
    if "evolves ok z w1" "udp_inv cur" "u_state (s_body cur) = UDP_ACTIVE"
      "(s_addr cur, s_socket cur) \<in> sockets w1" for cur w1
    by (rule wp_frame_returns [OF frame_udp_forward returns_udp_forward [OF that(2,3)]])
      (use that in \<open>auto simp: sockets_def intro!: evolves_put ok_with intro: evolves_same\<close>)
  define w0 where "w0 = w\<lparr>w_ub := (w_ub w \<or> length pkt < (if ip_version pkt = 4 then 20 else 40)) \<or>
    length pkt < payload + 8\<rparr>"
  have w0: "evolves ok z w0" "w_sessions w0 = w_sessions w"
    using evolves_same [OF _ w, of w0] by (simp_all add: w0_def)
  show ?thesis
  proof (cases "find (udp_match pkt payload) (w_sessions w)")
    case None
    have "wp (udp_new_session args pkt payload uid)
      (\<lambda>cur. wp (case cur of None \<Rightarrow> State_Monad.return False
         | Some cur \<Rightarrow> do { (cur, r) \<leftarrow> udp_forward args cur pkt len payload;
             put_session (with_body cur (UDP (s_body cur))); State_Monad.return r }) (\<lambda>_. evolves ok z)) w0"
      by (rule udp_new_session_wp [OF v])
        (auto simp: case_prod_beta' sockets_def intro!: fwd [unfolded case_prod_beta', simplified]
          intro: evolves_fresh [OF w0(1)] evolves_push [OF w0(1) ok_with])
    then show ?thesis using None w0 by (simp add: handle_udp_def touch_ip_def w0_def)
  next
    case (Some s)
    then obtain u where u: "s \<in> set (w_sessions w)" "s_body s = UDP u"
      by (rule udp_matchE)
    then have inv: "udp_inv (with_body s u)"
      using evolvesD [OF w] ok_UDP [of s u] by simp
    let ?v = "if u_uid u = -1 \<and> uid > 0 then u\<lparr>u_uid := uid\<rparr> else u"
    have "u_state u = UDP_ACTIVE \<Longrightarrow> udp_inv (with_body s ?v)"
      using inv by (simp add: udp_inv_def)
    moreover have "(s_addr s, s_socket s) \<in> sockets w0" using u(1) w0(2) by (auto simp: sockets_def)
    ultimately show ?thesis
      using Some u w0 fwd [of w0 "with_body s ?v"]
      by (auto simp: handle_udp_def touch_ip_def w0_def case_prod_beta')
  qed
qed

lemma block_udp_keeps:
  assumes "evolves ok z w" "ip_version pkt \<in> {4, 6}"
  shows "wp (block_udp args pkt payload uid) (\<lambda>_. evolves ok z) w"
  unfolding block_udp_def touch_ip_def
  using assms(2)
  by (auto simp: Let_def ok_UDP udp_inv_def udp_wf_def intro!: evolves_push [OF assms(1)])

end

text \<open>The invariant of the UDP sessions alone.\<close>

interpretation udp_only: udp_store udp_ok
  by unfold_locales (simp add: udp_ok_def)

definition udp_world :: "world \<Rightarrow> bool" where
  "udp_world w \<longleftrightarrow> world_ok udp_ok w"

lemma unat_diff_u64:
  assumes "b \<le> a" "a < 2 ^ 32"
  shows "unat (word_of_nat a - word_of_nat b :: u64) = a - b"
    and "unat (ucast (word_of_nat a - word_of_nat b :: u64) :: u32) = a - b"
proof -
  have u: "unat (word_of_nat a :: u64) = a" "unat (word_of_nat b :: u64) = b"
    using assms by (simp_all add: unat_of_nat)
  then have "(word_of_nat b :: u64) \<le> word_of_nat a"
    using assms(1) by (simp only: word_le_nat_alt)
  then show d: "unat (word_of_nat a - word_of_nat b :: u64) = a - b"
    using u by (simp only: unat_sub)
  then show "unat (ucast (word_of_nat a - word_of_nat b :: u64) :: u32) = a - b"
    using assms by (simp add: unsigned_ucast_eq take_bit_nat_eq_self)
qed

lemma udp_forward_sends:
  assumes "payload + 8 \<le> len" "len \<le> length pkt" "length pkt < 2 ^ 32"
    and "ntohs (get16 pkt payload) \<noteq> 68" "ntohs (get16 pkt (payload + 2)) \<noteq> 67"
  shows "wp (udp_forward args cur pkt len payload) (\<lambda>(c, r) w'. \<exists>a t.
    w' = w\<lparr>w_trace := (Call_sendto (s_socket cur) (take (len - (payload + 8)) (drop (payload + 8) pkt))
        (u_daddr (s_body cur)) (u_dest (s_body cur)), a) # (Call_time, t) # w_trace w\<rparr>) w"
proof -
  have n: "unat (ucast (word_of_nat len - word_of_nat (payload + 8) :: u64) :: u32) = len - (payload + 8)"
    using assms by (intro unat_diff_u64) simp_all
  have "wp (load pkt (payload + 8) (unat (ucast (word_of_nat len - word_of_nat (payload + 8) :: u64) :: u32))) Q =
      Q (take (len - (payload + 8)) (drop (payload + 8) pkt))" for Q
    using assms(1,2) by (simp add: n fun_eq_iff del: of_nat_add of_nat_Suc)
  then show ?thesis
    using assms(4,5) unfolding udp_forward_def Let_def
    by (auto simp: Let_def simp del: wp_load of_nat_add of_nat_Suc)
qed

text \<open>A packet of a flow with an active session.\<close>

lemma handle_udp_sends:
  assumes "find (udp_match pkt payload) (w_sessions w) = Some s" "s_body s = UDP u" "u_state u = UDP_ACTIVE"
    and "payload + 8 \<le> len" "(if ip_version pkt = 4 then 20 else 40) \<le> len" "len \<le> length pkt" "length pkt < 2 ^ 32"
    and "ntohs (get16 pkt payload) \<noteq> 68" "ntohs (get16 pkt (payload + 2)) \<noteq> 67"
  shows "wp (handle_udp args pkt len payload uid) (\<lambda>r w'. \<exists>a t. w_ub w' = w_ub w \<and>
    w_trace w' = (Call_sendto (s_socket s) (take (len - (payload + 8)) (drop (payload + 8) pkt))
                    (ip_daddr pkt) (get16 pkt (payload + 2)), a) # (Call_time, t) # w_trace w) w"
proof -
  obtain u' where u': "s_body s = UDP u'" "u_daddr u' = ip_daddr pkt" "u_dest u' = get16 pkt (payload + 2)"
    using assms(1) by (rule udp_matchE)
  have ub: "\<not> length pkt < (if ip_version pkt = 4 then 20 else 40)" "\<not> length pkt < payload + 8"
    using assms(4,5,6) by auto
  let ?v = "if u_uid u = -1 \<and> uid > 0 then u\<lparr>u_uid := uid\<rparr> else u"
  let ?c = "Call_sendto (s_socket s) (take (len - (payload + 8)) (drop (payload + 8) pkt))
      (ip_daddr pkt) (get16 pkt (payload + 2))"
  have d: "u_daddr ?v = ip_daddr pkt" "u_dest ?v = get16 pkt (payload + 2)"
    using u' assms(2) by auto
  have "wp (udp_forward args (with_body s ?v) pkt len payload)
      (\<lambda>p w'. \<exists>a t. w' = w\<lparr>w_trace := (?c, a) # (Call_time, t) # w_trace w\<rparr>) w"
    using udp_forward_sends [OF assms(4,6,7,8,9), of args "with_body s ?v" w]
    unfolding with_body_sel d case_prod_beta' .
  then show ?thesis
    using assms(1,2,3) ub
    by (auto simp: handle_udp_def touch_ip_def case_prod_beta' split: if_splits elim!: wp_mono)
qed

section \<open>Claims\<close>

text \<open>
  The idle timeout of a UDP session is between 0 and its base value (15 seconds for DNS,
  300 otherwise), is the base value with no session open, 0 at the limit, and never grows
  when there are more sessions.
\<close>

theorem get_udp_timeout_scales:
  assumes "0 \<le> n" "n \<le> k" "k \<le> m" "0 < m"
  shows "0 \<le> get_udp_timeout u k m \<and> get_udp_timeout u k m \<le> get_udp_timeout u n m \<and>
    get_udp_timeout u n m \<le> (if ntohs (u_dest u) = 53 then UDP_TIMEOUT_53 else UDP_TIMEOUT_ANY) \<and>
    get_udp_timeout u 0 m = (if ntohs (u_dest u) = 53 then UDP_TIMEOUT_53 else UDP_TIMEOUT_ANY) \<and>
    get_udp_timeout u m m = 0"
  using assms udp_timeout.timeout_bounds [of n m u] udp_timeout.timeout_bounds [of k m u]
    udp_timeout.timeout_antimono [of n k m u] udp_timeout.timeout_unloaded [of m u]
    udp_timeout.timeout_full [of m u] by simp

theorem get_udp_timeout_scales_witness:
  "0 \<le> get_udp_timeout dns_session 100 409 \<and> get_udp_timeout dns_session 100 409 \<le> get_udp_timeout dns_session 7 409 \<and>
    get_udp_timeout dns_session 7 409 \<le> (if ntohs (u_dest dns_session) = 53 then UDP_TIMEOUT_53 else UDP_TIMEOUT_ANY) \<and>
    get_udp_timeout dns_session 0 409 = (if ntohs (u_dest dns_session) = 53 then UDP_TIMEOUT_53 else UDP_TIMEOUT_ANY) \<and>
    get_udp_timeout dns_session 409 409 = 0"
  by (rule get_udp_timeout_scales) simp_all

text \<open>
  The periodic check of a UDP session moves its state only forward, closes its socket at
  most once and exactly when it leaves the open states, deletes only sessions without a
  socket, never leaves one finishing, and keeps the session invariant.
\<close>

theorem check_udp_session_correct:
  assumes "udp_inv s" "run_state (check_udp_session args s n m) w = ((s', del), w')"
  shows "udp_inv s' \<and> u_state (s_body s) \<le> u_state (s_body s') \<and> u_state (s_body s') \<noteq> UDP_FINISHING \<and>
    (del \<longrightarrow> s_socket s' = -1) \<and> w_sessions w' = w_sessions w \<and>
    closed_fds (w_trace w') = (if s_socket s' = s_socket s then [] else [s_socket s]) @ closed_fds (w_trace w)"
  using check_udp_session_wp [OF assms(1), of args n m w] assms(2) by (simp add: wp_def)

definition idle_os :: os where
  "idle_os tr c = \<lparr>ret = (if c = Call_time then 1000 else 0), errno = 0, out = 0, bytes = []\<rparr>"

definition idle_args :: arguments where
  "idle_args = \<lparr>a_os = idle_os, a_tun = 3, a_logTraffic = False, a_observeOnly = False\<rparr>"

definition empty_world :: world where
  "empty_world = \<lparr>w_sessions = [], w_stopping = False, w_sdk = 30, w_trace = [], w_fresh = 0, w_ub = False,
     w_hang = False, w_loglevel = 5, w_pcap_file = False, w_max_tun_msg = 0, w_uid_cache = [],
     w_socks5_addr = [], w_socks5_port = 0, w_socks5_username = [], w_socks5_password = [],
     w_pipefds = (5, 6)\<rparr>"

definition dns_socket :: "udp_session ng_session" where
  "dns_socket = \<lparr>s_addr = 0, s_protocol = IPPROTO_UDP, s_body = dns_session, s_socket = 7, s_events = 9\<rparr>"

lemma dns_socket_inv: "udp_inv dns_socket"
  by (simp add: dns_socket_def udp_inv_def udp_wf_def dns_session_def addr_len_def)

theorem check_udp_session_correct_witness:
  "\<exists>s' del w'. run_state (check_udp_session idle_args dns_socket 0 409) empty_world = ((s', del), w') \<and>
     udp_inv s' \<and> u_state (s_body dns_socket) \<le> u_state (s_body s') \<and> u_state (s_body s') \<noteq> UDP_FINISHING \<and>
     w_sessions w' = w_sessions empty_world \<and>
     closed_fds (w_trace w') = (if s_socket s' = s_socket dns_socket then [] else [s_socket dns_socket]) @
       closed_fds (w_trace empty_world)"
proof -
  obtain s' del w' where r: "run_state (check_udp_session idle_args dns_socket 0 409) empty_world = ((s', del), w')"
    by (metis prod.exhaust)
  with check_udp_session_correct [OF dns_socket_inv r] show ?thesis by blast
qed



text \<open>
  C10: a packet of a flow with an active session is forwarded: the one call on a socket is a
  \<open>sendto\<close> on the session's socket, of exactly the bytes after the UDP header, to the
  packet's destination address and port, and no access leaves the packet buffer (ports 67
  and 68, which go through the DHCP check first, apart).
\<close>

theorem handle_udp_forwards:
  assumes "find (udp_match pkt payload) (w_sessions w) = Some s" "s_body s = UDP u" "u_state u = UDP_ACTIVE"
    and "payload + 8 \<le> len" "(if ip_version pkt = 4 then 20 else 40) \<le> len" "len \<le> length pkt" "length pkt < 2 ^ 32"
    and "ntohs (get16 pkt payload) \<noteq> 68" "ntohs (get16 pkt (payload + 2)) \<noteq> 67"
  shows "\<exists>a t r w'. run_state (handle_udp args pkt len payload uid) w = (r, w') \<and> w_ub w' = w_ub w \<and>
    w_trace w' = (Call_sendto (s_socket s) (take (len - (payload + 8)) (drop (payload + 8) pkt))
                    (ip_daddr pkt) (get16 pkt (payload + 2)), a) # (Call_time, t) # w_trace w"
proof -
  obtain r w' where run: "run_state (handle_udp args pkt len payload uid) w = (r, w')" by fastforce
  show ?thesis using handle_udp_sends [OF assms, of args uid] unfolding wp_run run fst_conv snd_conv by blast
qed

definition echo_packet :: buf where
  "echo_packet = [0x45, 0, 0, 40, 0, 0, 0, 0, 64, 17, 0, 0, 10, 1, 10, 1, 8, 8, 8, 8,
     0x9C, 0x40, 0, 53, 0, 20, 0, 0, 1, 2, 3, 4, 5, 6, 7, 8, 9, 10, 11, 12]"

definition echo_world :: world where
  "echo_world = empty_world\<lparr>w_sessions := [with_body dns_socket (UDP dns_session)], w_fresh := 1\<rparr>"

lemma echo_match: "udp_match echo_packet 20 (with_body dns_socket (UDP dns_session))"
  by (simp add: udp_match_def dns_socket_def dns_session_def echo_packet_def ip_version_def ip_saddr_def
      ip_daddr_def get_bytes_def get16_def get8_def upt_rec ntohs_def le16_def ipproto_defs)

theorem handle_udp_forwards_witness:
  "\<exists>a t r w'. run_state (handle_udp idle_args echo_packet 40 20 10001) echo_world = (r, w') \<and>
    w_ub w' = w_ub echo_world \<and>
    w_trace w' = (Call_sendto (s_socket (with_body dns_socket (UDP dns_session)))
                    (take (40 - (20 + 8)) (drop (20 + 8) echo_packet))
                    (ip_daddr echo_packet) (get16 echo_packet (20 + 2)), a) # (Call_time, t) # w_trace echo_world"
proof (rule handle_udp_forwards [where u = dns_session])
  show "find (udp_match echo_packet 20) (w_sessions echo_world) = Some (with_body dns_socket (UDP dns_session))"
    using echo_match by (simp add: echo_world_def)
  show "ntohs (get16 echo_packet 20) \<noteq> 68" "ntohs (get16 echo_packet (20 + 2)) \<noteq> 67"
    by (simp_all add: echo_packet_def get16_def get8_def be16_def)
qed (simp_all add: dns_session_def echo_packet_def)


text \<open>
  Handling a packet keeps the store: session addresses stay unique, and every UDP
  session keeps its invariant (an open state owns an open socket, a closed or blocked one
  owns none, addresses fit the version), whatever the kernel answers.
\<close>

theorem handle_udp_preserves_store:
  assumes "udp_world w" "ip_version pkt \<in> {4, 6}"
  shows "udp_world (snd (run_state (handle_udp args pkt len payload uid) w)) \<and>
    udp_world (snd (run_state (block_udp args pkt payload uid) w))"
  using udp_only.handle_udp_keeps [OF evolves_refl assms(2)] udp_only.block_udp_keeps [OF evolves_refl assms(2)]
    assms(1)
  by (simp add: wp_run udp_world_def evolves_def)

theorem handle_udp_preserves_store_witness:
  "udp_world (snd (run_state (handle_udp idle_args echo_packet 40 20 10001) echo_world)) \<and>
    udp_world (snd (run_state (block_udp idle_args echo_packet 20 10001) echo_world))"
proof (rule handle_udp_preserves_store)
  show "udp_world echo_world"
    using udp_ok_UDP [OF dns_socket_inv]
    by (simp add: udp_world_def world_ok_def store_ok_def echo_world_def empty_world_def dns_socket_def)
  show "ip_version echo_packet \<in> {4, 6}"
    by (simp add: ip_version_def echo_packet_def get8_def)
qed

end
