(* ===== verification/Tcp_Write.thy ===== *)
theory Tcp_Write
  imports Packet
begin

text \<open>
  The TCP packets the engine writes to the application: \<open>write_tcp\<close> and the five functions
  of \<open>tcp.c\<close> over it. A function that changes the session returns it.
\<close>

section \<open>\<open>write_tcp\<close>\<close>

definition get_mtu :: u16 where "get_mtu = 10000"

definition get_default_mss :: "int \<Rightarrow> u16" where
  "get_default_mss version = (if version = 4 then get_mtu - 20 - 20 else get_mtu - 40 - 20)"

text \<open>The flags a caller asks for.\<close>

record tcp_flags =
  fl_syn :: bool
  fl_ack :: bool
  fl_fin :: bool
  fl_rst :: bool

text \<open>Byte 13 of the header, in the bit order of the little-endian structure.\<close>

definition flag_byte :: "tcp_flags \<Rightarrow> u8" where
  "flag_byte f = of_bool (fl_fin f) + 2 * of_bool (fl_syn f) + 4 * of_bool (fl_rst f) + 16 * of_bool (fl_ack f)"

text \<open>
  The options of a SYN: maximum segment size and window scale. The size is stored as the
  host holds it, without \<open>htons\<close>.
\<close>

definition tcp_options_out :: "tcp_session \<Rightarrow> tcp_flags \<Rightarrow> buf" where
  "tcp_options_out cur f =
     (if fl_syn f then [2, 4] @ st16 (get_default_mss (t_version cur)) @ [3, 3, t_recv_scale cur, 0] else [])"

text \<open>The header before the checksum field.\<close>

definition tcp_header_start :: "tcp_session \<Rightarrow> tcp_flags \<Rightarrow> buf" where
  "tcp_header_start cur f =
     st16 (t_dest cur) @ st16 (t_source cur) @ st32 (htonl (t_local_seq cur)) @
     st32 (if fl_ack f then htonl (t_remote_seq cur) else 0) @
     [if fl_syn f then 0x70 else 0x50, flag_byte f] @
     st16 (htons (u32to16 (drop_bit (unat (t_recv_scale cur)) (t_recv_window cur))))"

definition tcp_header :: "tcp_session \<Rightarrow> tcp_flags \<Rightarrow> u16 \<Rightarrow> buf" where
  "tcp_header cur f check = tcp_header_start cur f @ st16 check @ [0, 0]"

definition tcp_pseudo :: "tcp_session \<Rightarrow> nat \<Rightarrow> buf" where
  "tcp_pseudo cur len =
     (if t_version cur = 4
      then ippseudo IPPROTO_TCP len (t_daddr cur) (t_saddr cur)
      else ip6_hdr_pseudo IPPROTO_TCP (u16to32 (htons (word_of_nat len))) (t_saddr cur) (t_daddr cur))"

definition tcp_segment :: "tcp_session \<Rightarrow> tcp_flags \<Rightarrow> buf \<Rightarrow> buf" where
  "tcp_segment cur f data =
     (let options = tcp_options_out cur f;
          csum = calc_checksum 0 (tcp_pseudo cur (20 + length options + length data));
          csum = calc_checksum csum (tcp_header cur f 0);
          csum = calc_checksum csum options;
          csum = calc_checksum csum data
      in tcp_header cur f (NOT csum) @ options @ data)"

definition tcp_packet :: "tcp_session \<Rightarrow> tcp_flags \<Rightarrow> buf \<Rightarrow> buf" where
  "tcp_packet cur f data =
     (let len = 20 + length (tcp_options_out cur f) + length data
      in (if t_version cur = 4
          then ip4_header IPPROTO_TCP (20 + len) (t_daddr cur) (t_saddr cur)
          else ip6_header IPPROTO_TCP len (t_daddr cur) (t_saddr cur)) @
         tcp_segment cur f data)"

definition write_tcp :: "arguments \<Rightarrow> tcp_session \<Rightarrow> buf \<Rightarrow> tcp_flags \<Rightarrow> int prog" where
  "write_tcp args cur data f = tun_write args (tcp_packet cur f data)"

interpretation tcp_out: tun_writer
  "\<lambda>args x. write_tcp args (fst x) (snd (snd x)) (fst (snd x))"
  "\<lambda>x. tcp_packet (fst x) (fst (snd x)) (snd (snd x))"
  by unfold_locales (simp add: write_tcp_def)

section \<open>The five writers\<close>

definition flags_syn_ack :: tcp_flags where
  "flags_syn_ack = \<lparr>fl_syn = True, fl_ack = True, fl_fin = False, fl_rst = False\<rparr>"
definition flags_ack :: tcp_flags where
  "flags_ack = \<lparr>fl_syn = False, fl_ack = True, fl_fin = False, fl_rst = False\<rparr>"
definition flags_fin_ack :: tcp_flags where
  "flags_fin_ack = \<lparr>fl_syn = False, fl_ack = True, fl_fin = True, fl_rst = False\<rparr>"
definition flags_rst :: "bool \<Rightarrow> tcp_flags" where
  "flags_rst ack = \<lparr>fl_syn = False, fl_ack = ack, fl_fin = False, fl_rst = True\<rparr>"

definition write_syn_ack :: "arguments \<Rightarrow> tcp_session \<Rightarrow> (tcp_session \<times> int) prog" where
  "write_syn_ack args cur = do {
     r \<leftarrow> write_tcp args cur [] flags_syn_ack;
     State_Monad.return (if r < 0 then (cur\<lparr>t_state := TCP_CLOSING\<rparr>, -1) else (cur, 0))
   }"

definition write_ack :: "arguments \<Rightarrow> tcp_session \<Rightarrow> (tcp_session \<times> int) prog" where
  "write_ack args cur = do {
     r \<leftarrow> write_tcp args cur [] flags_ack;
     State_Monad.return (if r < 0 then (cur\<lparr>t_state := TCP_CLOSING\<rparr>, -1) else (cur, 0))
   }"

definition write_data :: "arguments \<Rightarrow> tcp_session \<Rightarrow> buf \<Rightarrow> (tcp_session \<times> int) prog" where
  "write_data args cur buffer = do {
     r \<leftarrow> write_tcp args cur buffer flags_ack;
     State_Monad.return (if r < 0 then (cur\<lparr>t_state := TCP_CLOSING\<rparr>, -1) else (cur, 0))
   }"

definition write_fin_ack :: "arguments \<Rightarrow> tcp_session \<Rightarrow> (tcp_session \<times> int) prog" where
  "write_fin_ack args cur = do {
     r \<leftarrow> write_tcp args cur [] flags_fin_ack;
     State_Monad.return (if r < 0 then (cur\<lparr>t_state := TCP_CLOSING\<rparr>, -1) else (cur, 0))
   }"

definition write_rst :: "arguments \<Rightarrow> tcp_session \<Rightarrow> tcp_session prog" where
  "write_rst args cur = do {
     let ack = (t_state cur = TCP_LISTEN);
     let cur = (if ack then cur\<lparr>t_remote_seq := t_remote_seq cur + 1\<rparr> else cur);
     _ \<leftarrow> write_tcp args cur [] (flags_rst ack);
     State_Monad.return (if t_state cur \<noteq> TCP_CLOSE then cur\<lparr>t_state := TCP_CLOSING\<rparr> else cur)
   }"

lemmas tcp_writer_defs = write_syn_ack_def write_ack_def write_data_def write_fin_ack_def write_rst_def

section \<open>Effects\<close>

lemma frame_write_tcp [frame_rules]:
  "(\<And>w e. g (w\<lparr>w_trace := e\<rparr>) = g w) \<Longrightarrow> frame g (write_tcp args cur data f)"
  using tcp_out.frame_writer [of g args "(cur, f, data)"] by simp

lemma emits_write_tcp: "(\<And>c. is_tun_call c \<Longrightarrow> P c) \<Longrightarrow> emits P (write_tcp args cur data f)"
  using tcp_out.only_tun [of P args "(cur, f, data)"] by simp

lemma frame_tcp_writers [frame_rules]:
  assumes "\<And>w e. g (w\<lparr>w_trace := e\<rparr>) = g w"
  shows "frame g (write_syn_ack args cur)" "frame g (write_ack args cur)"
    "frame g (write_data args cur data)" "frame g (write_fin_ack args cur)" "frame g (write_rst args cur)"
  unfolding tcp_writer_defs by (intro frame_rules assms)+

lemma emits_tcp_writers:
  assumes "\<And>c. is_tun_call c \<Longrightarrow> P c"
  shows "emits P (write_syn_ack args cur)" "emits P (write_ack args cur)"
    "emits P (write_data args cur data)" "emits P (write_fin_ack args cur)" "emits P (write_rst args cur)"
  unfolding tcp_writer_defs by (intro emits_rules emits_write_tcp assms; simp)+

text \<open>What each returns: the session unchanged, or closing because the write failed.\<close>

definition wrote :: "tcp_session \<Rightarrow> tcp_session \<times> int \<Rightarrow> bool" where
  "wrote cur p \<longleftrightarrow> p = (cur, 0) \<or> p = (cur\<lparr>t_state := TCP_CLOSING\<rparr>, -1)"

lemma returns_tcp_writers:
  "returns (wrote cur) (write_syn_ack args cur)" "returns (wrote cur) (write_ack args cur)"
  "returns (wrote cur) (write_data args cur data)" "returns (wrote cur) (write_fin_ack args cur)"
  unfolding tcp_writer_defs wrote_def by (intro returns_rules; simp)+

definition after_rst :: "tcp_session \<Rightarrow> tcp_session" where
  "after_rst cur =
     (if t_state cur = TCP_CLOSE then cur
      else if t_state cur = TCP_LISTEN
      then cur\<lparr>t_remote_seq := t_remote_seq cur + 1, t_state := TCP_CLOSING\<rparr>
      else cur\<lparr>t_state := TCP_CLOSING\<rparr>)"

lemma returns_write_rst: "returns (\<lambda>c. c = after_rst cur) (write_rst args cur)"
  unfolding write_rst_def by (intro returns_rules) (auto simp: after_rst_def)

lemma after_rst_sel [simp]:
  "t_forward (after_rst c) = t_forward c" "t_recv_scale (after_rst c) = t_recv_scale c"
  "t_send_scale (after_rst c) = t_send_scale c" "t_version (after_rst c) = t_version c"
  "t_saddr (after_rst c) = t_saddr c" "t_daddr (after_rst c) = t_daddr c"
  "t_state (after_rst c) = (if t_state c = TCP_CLOSE then TCP_CLOSE else TCP_CLOSING)"
  "t_source (after_rst c) = t_source c" "t_dest (after_rst c) = t_dest c"
  by (simp_all add: after_rst_def)

section \<open>Validity of the packets\<close>

definition tcp_wf :: "tcp_session \<Rightarrow> bool" where
  "tcp_wf t \<longleftrightarrow> t_version t \<in> {4, 6} \<and> length (t_saddr t) = addr_len (t_version t) \<and>
     length (t_daddr t) = addr_len (t_version t)"

lemma length_tcp_options_out: "length (tcp_options_out cur f) = (if fl_syn f then 8 else 0)"
  by (simp add: tcp_options_out_def)

lemma length_tcp_header [simp]: "length (tcp_header_start cur f) = 16" "length (tcp_header cur f c) = 20"
  by (simp_all add: tcp_header_start_def tcp_header_def)

lemma length_tcp_segment: "length (tcp_segment cur f data) = 20 + length (tcp_options_out cur f) + length data"
  by (simp add: tcp_segment_def Let_def)

lemma tcp_segment_ok:
  assumes "tcp_wf t" "length data \<le> 65487"
  shows "segment_ok (t_version t) IPPROTO_TCP (t_daddr t) (t_saddr t) (tcp_segment t f data)"
proof (rule segment_ok_pseudo)
  let ?o = "tcp_options_out t f" and ?n = "20 + length (tcp_options_out t f) + length data"
  let ?p = "tcp_pseudo t ?n"
  have o: "even (length ?o)" "length ?o \<le> 8" by (simp_all add: length_tcp_options_out)
  have l: "length (t_saddr t) = 4 \<and> length (t_daddr t) = 4 \<and> t_version t = 4 \<or>
      length (t_saddr t) = 16 \<and> length (t_daddr t) = 16 \<and> t_version t = 6"
    using assms(1) by (auto simp: tcp_wf_def addr_len_def split: if_splits)
  then show p: "even (length ?p)"
    by (auto simp: tcp_pseudo_def ippseudo_def ip6_hdr_pseudo_def)
  have len: "length ?p \<le> 40"
    using l by (auto simp: tcp_pseudo_def ippseudo_def ip6_hdr_pseudo_def)
  have n: "?n < 65536" using assms(2) o(2) by linarith
  show "buf_sum ?p = buf_sum (rfc_pseudo (t_version t) IPPROTO_TCP (t_daddr t) (t_saddr t)
      (length (tcp_segment t f data)))"
    using l n
    by (auto simp: tcp_pseudo_def buf_sum_ip6_hdr_pseudo ippseudo_def rfc_pseudo_def st16_htons_of_nat
        length_tcp_segment simp del: of_nat_add of_nat_Suc)
  have "calc_checksum (calc_checksum c ?o) data = calc_checksum c (?o @ data)" for c
    using o assms(2) by (intro ics.csum_append) auto
  then show "calc_checksum 0 (?p @ tcp_segment t f data) = 0xFFFF"
    using running_checksum_ok [OF p, of "tcp_header_start t f" "[0, 0]" "?o @ data"] len assms(2) o
    by (simp add: tcp_segment_def tcp_header_def Let_def)
qed (use assms in \<open>auto simp: tcp_wf_def addr_len_def tcp_pseudo_def ippseudo_def ip6_hdr_pseudo_def
      length_tcp_segment length_tcp_options_out split: if_splits\<close>)

section \<open>Claims\<close>

text \<open>
  C18: every TCP packet the engine writes to the application passes the application's checks:
  IPv4 header (version, length, checksum) and the TCP checksum over the standard pseudo
  header of either version, options included, up to the largest segment there is.
\<close>

theorem write_tcp_packet_valid:
  assumes "tcp_wf t" "length data \<le> 65487"
  shows "segment_ok (t_version t) IPPROTO_TCP (t_daddr t) (t_saddr t) (tcp_segment t f data) \<and>
    (t_version t = 4 \<longrightarrow> ip4_ok (tcp_packet t f data) \<and> drop 20 (tcp_packet t f data) = tcp_segment t f data)"
proof -
  have l: "t_version t = 4 \<Longrightarrow> length (t_saddr t) = 4 \<and> length (t_daddr t) = 4"
    using assms(1) by (simp add: tcp_wf_def addr_len_def)
  have "length (tcp_segment t f data) + 20 < 65536"
    using assms(2) by (simp add: length_tcp_segment length_tcp_options_out)
  then show ?thesis
    using l tcp_segment_ok [OF assms, of f]
      ip4_header_ok [of "t_daddr t" "t_saddr t" "tcp_segment t f data" IPPROTO_TCP]
    by (auto simp: tcp_packet_def Let_def length_tcp_segment ip4_header_def ip4_bytes_def)
qed

definition web_session :: tcp_session where
  "web_session = \<lparr>t_uid = 10001, t_time = 0, t_version = 4, t_mss = 1460, t_recv_scale = 7, t_send_scale = 7,
     t_recv_window = 163840, t_send_window = 65535, t_unconfirmed = 0, t_remote_seq = 1001, t_local_seq = 5000,
     t_remote_start = 1000, t_local_start = 5000, t_acked = 0, t_last_keep_alive = 0, t_sent = 0, t_received = 0,
     t_saddr = [10, 1, 10, 1], t_source = htons 40000, t_daddr = [93, 184, 216, 34], t_dest = htons 443,
     t_state = TCP_LISTEN, t_socks5 = SOCKS5_NONE, t_forward = []\<rparr>"

theorem write_tcp_packet_valid_witness:
  "segment_ok (t_version web_session) IPPROTO_TCP (t_daddr web_session) (t_saddr web_session)
     (tcp_segment web_session flags_syn_ack []) \<and>
   ip4_ok (tcp_packet web_session flags_syn_ack []) \<and>
   drop 20 (tcp_packet web_session flags_syn_ack []) = tcp_segment web_session flags_syn_ack []"
proof -
  have "tcp_wf web_session" "t_version web_session = 4"
    by (simp_all add: tcp_wf_def web_session_def addr_len_def)
  then show ?thesis using write_tcp_packet_valid [of web_session "[]" flags_syn_ack] by simp
qed

text \<open>
  The maximum segment size announced in a SYN/ACK is not the engine's: the option's two
  bytes, read in network order as the receiver does, are the size with its bytes exchanged
  (59430 instead of 9960 over IPv4, 54310 instead of 9940 over IPv6).
\<close>

theorem syn_ack_announces_swapped_mss:
  "get16 (tcp_options_out cur flags_syn_ack) 2 = get_default_mss (t_version cur) \<and>
   ntohs (get_default_mss 4) = 59430 \<and> get_default_mss 4 = 9960 \<and>
   ntohs (get_default_mss 6) = 54310 \<and> get_default_mss 6 = 9940"
  by (simp add: tcp_options_out_def flags_syn_ack_def get16_def get8_def st16_def get_default_mss_def
      get_mtu_def ntohs_def le16_split)

end
