(* ===== verification/Tcp_Queue.thy ===== *)
theory Tcp_Queue
  imports Tcp_Write "HOL-Library.Multiset"
begin

text \<open>
  The data of a TCP session: \<open>queue_tcp\<close>, which keeps the segments of the application that
  wait to be forwarded, in sequence order; and the window computations \<open>get_send_window\<close>,
  \<open>get_receive_buffer\<close> and \<open>get_receive_window\<close>.
\<close>

section \<open>\<open>queue_tcp\<close>\<close>

text \<open>The search of the place and the three cases of an equal sequence number.\<close>

fun queue_insert :: "segment \<Rightarrow> segment list \<Rightarrow> segment list" where
  "queue_insert n [] = [n]"
| "queue_insert n (s # ss) =
     (if compare_u32 (seg_seq s) (seg_seq n) < 0 then s # queue_insert n ss
      else if compare_u32 (seg_seq s) (seg_seq n) > 0 then n # s # ss
      else if seg_len s = seg_len n then s # ss
      else if seg_len s < seg_len n then s\<lparr>seg_len := seg_len n, seg_data := seg_data n\<rparr> # ss
      else s\<lparr>seg_len := seg_len n, seg_data := seg_data n\<rparr> # ss)"

definition queue_tcp :: "tcp_session \<Rightarrow> u32 \<Rightarrow> bool \<Rightarrow> buf \<Rightarrow> tcp_session" where
  "queue_tcp cur seq psh data =
     (if compare_u32 seq (t_remote_seq cur) < 0 then cur
      else cur\<lparr>t_forward := queue_insert
             \<lparr>seg_seq = seq, seg_len = word_of_nat (length data), seg_sent = 0, seg_psh = psh, seg_data = data\<rparr>
             (t_forward cur)\<rparr>)"

text \<open>\<open>clear_tcp_data\<close> frees the queue; the pointer in the session is left as it is.\<close>

definition clear_tcp_data :: "tcp_session \<Rightarrow> segment list" where
  "clear_tcp_data cur = t_forward cur"

section \<open>Windows\<close>

definition SEND_BUF_DEFAULT :: int where "SEND_BUF_DEFAULT = 163840"

definition get_send_window :: "tcp_session \<Rightarrow> u32" where
  "get_send_window cur =
     (let behind = (if t_acked cur \<le> t_local_seq cur then t_local_seq cur - t_acked cur
                    else 0x10000 + t_local_seq cur - t_acked cur);
          behind = behind + (u16to32 (t_unconfirmed cur) + 1) * 40
      in if behind < t_send_window cur then t_send_window cur - behind else 0)"

text \<open>\<open>getsockopt\<close> and \<open>ioctl\<close> store their value in \<open>out\<close> when they succeed.\<close>

definition get_receive_buffer :: "arguments \<Rightarrow> int \<Rightarrow> u32 prog" where
  "get_receive_buffer args sock =
     (if sock < 0 then State_Monad.return 0
      else do {
        a \<leftarrow> syscall args (Call_getsockopt sock SO_SNDBUF);
        let sendbuf = (if ret a < 0 then 0 else out a);
        let sendbuf = (if sendbuf = 0 then SEND_BUF_DEFAULT else sendbuf);
        b \<leftarrow> syscall args (Call_ioctl_outq sock);
        let unsent = (if ret b \<noteq> 0 then 0 else out b);
        State_Monad.return (if unsent < sendbuf then word_of_int (sendbuf - unsent) else 0)
      })"

text \<open>The bytes still to be forwarded, added up as 32 bit numbers.\<close>

definition toforward :: "segment list \<Rightarrow> u32" where
  "toforward q = (\<Sum>s \<leftarrow> q. u16to32 (seg_len s) - u16to32 (seg_sent s))"

definition get_receive_window :: "arguments \<Rightarrow> tcp_session ng_session \<Rightarrow> u32 prog" where
  "get_receive_window args cur = do {
     window \<leftarrow> get_receive_buffer args (s_socket cur);
     let max_window = push_bit (unat (t_recv_scale (s_body cur))) 0xFFFF;
     let window = (if window > max_window then max_window else window);
     let n = toforward (t_forward (s_body cur));
     State_Monad.return (if n < window then window - n else 0)
   }"

section \<open>The queue as a map of sequence numbers\<close>

text \<open>
  What the queue's users rely on, as an interface over a base \<open>b\<close>, the next byte expected:
  an invariant, a lookup by sequence number, insertion specified by the lookup after it, and
  that the segment at the base is the head.
\<close>

locale reassembly_queue =
  fixes ins :: "'s \<Rightarrow> 's list \<Rightarrow> 's list"
    and key :: "'s \<Rightarrow> u32"
    and merge :: "'s option \<Rightarrow> 's \<Rightarrow> 's"
    and inv :: "u32 \<Rightarrow> 's list \<Rightarrow> bool"
    and look :: "'s list \<Rightarrow> u32 \<Rightarrow> 's option"
    and window :: nat
  assumes inv_empty: "inv b []"
    and inv_ins: "inv b q \<Longrightarrow> ahead b (key n) < window \<Longrightarrow> inv b (ins n q)"
    and look_empty: "look [] k = None"
    and look_ins: "inv b q \<Longrightarrow> ahead b (key n) < window \<Longrightarrow>
      look (ins n q) k = (if k = key n then Some (merge (look q k) n) else look q k)"
    and look_ext: "inv b q \<Longrightarrow> inv b q' \<Longrightarrow> look q = look q' \<Longrightarrow> q = q'"
    and head: "inv b q \<Longrightarrow> look q b = Some s \<Longrightarrow> \<exists>q'. q = s # q'"
    and merge_key: "key (merge (look q (key n)) n) = key n"
begin

text \<open>Segments with different sequence numbers may arrive in either order.\<close>

lemma ins_commute:
  assumes "inv b q" "ahead b (key m) < window" "ahead b (key n) < window" "key m \<noteq> key n"
  shows "ins m (ins n q) = ins n (ins m q)"
proof (rule look_ext)
  have i: "inv b (ins m q)" "inv b (ins n q)" using assms by (simp_all add: inv_ins)
  show "inv b (ins m (ins n q))" "inv b (ins n (ins m q))"
    using assms i by (simp_all add: inv_ins)
  show "look (ins m (ins n q)) = look (ins n (ins m q))"
    using assms i by (auto simp: fun_eq_iff look_ins [where b = b])
qed

lemma inv_fold:
  "inv b q \<Longrightarrow> \<forall>n \<in> set ns. ahead b (key n) < window \<Longrightarrow> inv b (fold ins ns q)"
  by (induction ns arbitrary: q) (simp_all add: inv_ins)

lemma fold_ins_out:
  assumes "inv b q" "\<forall>n \<in> set ns. ahead b (key n) < window" "ahead b (key m) < window"
    "\<forall>n \<in> set ns. key n \<noteq> key m"
  shows "fold ins ns (ins m q) = ins m (fold ins ns q)"
  using assms
proof (induction ns arbitrary: q)
  case (Cons n ns)
  have "ins n (ins m q) = ins m (ins n q)" using Cons.prems by (intro ins_commute [of b]) auto
  then show ?case using Cons by (simp add: inv_ins)
qed simp

text \<open>The queue after a set of segments does not depend on the order they came in.\<close>

lemma arrival_order:
  assumes "inv b q" "\<forall>n \<in> set ns. ahead b (key n) < window" "distinct (map key ns)" "mset ms = mset ns"
  shows "fold ins ms q = fold ins ns q"
  using assms
proof (induction ms arbitrary: ns q)
  case (Cons m ms)
  then have "m \<in> set ns" by (metis list.set_intros(1) set_mset_mset)
  then obtain xs ys where ns: "ns = xs @ m # ys" by (meson split_list)
  have m: "mset ms = mset (xs @ ys)" using Cons.prems(4) ns by simp
  have "fold ins ms (ins m q) = fold ins (xs @ ys) (ins m q)"
    using Cons.prems ns m by (intro Cons.IH) (auto simp: inv_ins)
  also have "\<dots> = fold ins ys (ins m (fold ins xs q))"
  proof -
    have "key m \<notin> key ` set xs" using Cons.prems(3) ns by auto
    then have "\<forall>n \<in> set xs. key n \<noteq> key m" by (metis imageI)
    then have "fold ins xs (ins m q) = ins m (fold ins xs q)"
      using Cons.prems(1,2) ns by (intro fold_ins_out [of b]) auto
    then show ?thesis by simp
  qed
  finally show ?case using ns by simp
qed simp

text \<open>The segment at the base, once it has arrived, is the next to forward.\<close>

lemma next_ready:
  assumes "inv b q" "key n = b" "0 < window"
  shows "\<exists>q'. ins n q = merge (look q b) n # q'"
proof -
  have w: "ahead b (key n) < window" using assms(2,3) by simp
  then have "look (ins n q) b = Some (merge (look q b) n)"
    using look_ins [OF assms(1) w] assms(2) by simp
  then show ?thesis using head [OF inv_ins [OF assms(1) w]] by simp
qed

end

text \<open>The engine's queue: sorted by the distance from the base.\<close>

definition queue_ok :: "u32 \<Rightarrow> segment list \<Rightarrow> bool" where
  "queue_ok b q \<longleftrightarrow> sorted_wrt (\<lambda>x y. ahead b (seg_seq x) < ahead b (seg_seq y)) q \<and>
     (\<forall>s \<in> set q. ahead b (seg_seq s) < 0x7FFFFFFF)"

definition queue_look :: "segment list \<Rightarrow> u32 \<Rightarrow> segment option" where
  "queue_look q k = find (\<lambda>s. seg_seq s = k) q"

definition queue_merge :: "segment option \<Rightarrow> segment \<Rightarrow> segment" where
  "queue_merge old n = (case old of None \<Rightarrow> n | Some s \<Rightarrow>
     if seg_len s = seg_len n then s else s\<lparr>seg_len := seg_len n, seg_data := seg_data n\<rparr>)"

lemma compare_u32_self [simp]: "compare_u32 s s = 0"
  by (simp add: compare_u32_def)

lemma ahead_inj: "ahead b s = ahead b t \<longleftrightarrow> s = t"
proof -
  have "ahead b s = ahead b t \<longleftrightarrow> s - b = t - b" by (simp only: ahead_def word_unat_eq_iff)
  then show ?thesis by simp
qed

lemma queue_okD: "queue_ok b (s # q) \<Longrightarrow> queue_ok b q"
  by (simp add: queue_ok_def)

lemma queue_look_member:
  assumes "queue_ok b q"
  shows "queue_look q k = Some s \<longleftrightarrow> s \<in> set q \<and> seg_seq s = k"
  using assms
proof (induction q)
  case (Cons x q)
  have ne: "seg_seq x \<notin> seg_seq ` set q"
    using Cons.prems by (auto simp: queue_ok_def)
  show ?case
  proof (cases "seg_seq x = k")
    case True
    then show ?thesis using ne by (auto simp: queue_look_def image_iff)
  next
    case False
    then show ?thesis
      using Cons.IH [OF queue_okD [OF Cons.prems]] by (auto simp: queue_look_def)
  qed
qed (simp add: queue_look_def)

lemma queue_insert_ok:
  assumes "queue_ok b q" "ahead b (seg_seq n) < 0x7FFFFFFF"
  shows "queue_ok b (queue_insert n q)"
proof -
  have set: "ahead b (seg_seq s) \<in> insert (ahead b (seg_seq n)) ((\<lambda>s. ahead b (seg_seq s)) ` set q)"
    if "s \<in> set (queue_insert n q)" for s
    using that by (induction q) (auto split: if_splits)
  have "sorted_wrt (\<lambda>x y. ahead b (seg_seq x) < ahead b (seg_seq y)) (queue_insert n q)"
    using assms
  proof (induction q)
    case (Cons s q)
    have s: "ahead b (seg_seq s) < 0x7FFFFFFF" using Cons.prems by (simp add: queue_ok_def)
    note cmp = compare_u32_less [OF s Cons.prems(2)]
    have sq: "\<forall>x \<in> set q. ahead b (seg_seq s) < ahead b (seg_seq x)"
        "sorted_wrt (\<lambda>x y. ahead b (seg_seq x) < ahead b (seg_seq y)) q"
      using Cons.prems(1) by (simp_all add: queue_ok_def)
    have mem: "ahead b (seg_seq x) \<in> insert (ahead b (seg_seq n)) ((\<lambda>s. ahead b (seg_seq s)) ` set q)"
      if "x \<in> set (queue_insert n q)" for x
      using that by (induction q) (auto split: if_splits)
    consider (less) "ahead b (seg_seq s) < ahead b (seg_seq n)"
      | (greater) "ahead b (seg_seq n) < ahead b (seg_seq s)" | (eq) "seg_seq s = seg_seq n"
      using ahead_inj by (metis linorder_neqE_nat)
    then show ?case
    proof cases
      case less
      have "\<forall>x \<in> set (queue_insert n q). ahead b (seg_seq s) < ahead b (seg_seq x)"
        using mem less sq(1) by force
      then show ?thesis
        using less cmp Cons.IH [OF queue_okD [OF Cons.prems(1)] Cons.prems(2)] by simp
    next
      case greater
      then show ?thesis using cmp sq by (auto intro: less_trans)
    next
      case eq
      then have "compare_u32 (seg_seq s) (seg_seq n) = 0" by simp
      then show ?thesis using sq by simp
    qed
  qed simp
  moreover have "\<forall>s \<in> set (queue_insert n q). ahead b (seg_seq s) < 0x7FFFFFFF"
    using set assms by (force simp: queue_ok_def)
  ultimately show ?thesis by (simp add: queue_ok_def)
qed

lemma queue_look_insert:
  assumes "queue_ok b q" "ahead b (seg_seq n) < 0x7FFFFFFF"
  shows "queue_look (queue_insert n q) k =
    (if k = seg_seq n then Some (queue_merge (queue_look q k) n) else queue_look q k)"
  using assms
proof (induction q)
  case (Cons s q)
  have s: "ahead b (seg_seq s) < 0x7FFFFFFF" using Cons.prems by (simp add: queue_ok_def)
  note cmp = compare_u32_less [OF s Cons.prems(2)]
  note IH = Cons.IH [OF queue_okD [OF Cons.prems(1)] Cons.prems(2)]
  consider "ahead b (seg_seq s) < ahead b (seg_seq n)" | "ahead b (seg_seq n) < ahead b (seg_seq s)"
    | "seg_seq s = seg_seq n" using ahead_inj by (metis linorder_neqE_nat)
  then show ?case
  proof cases
    case 1
    then show ?thesis using cmp IH by (auto simp: queue_look_def)
  next
    case 2
    have "seg_seq x \<noteq> seg_seq n" if "x \<in> set (s # q)" for x
      using Cons.prems(1) 2 that by (auto simp: queue_ok_def)
    then have "queue_look (s # q) (seg_seq n) = None"
      by (auto simp: queue_look_def find_None_iff)
    then show ?thesis using 2 cmp by (auto simp: queue_look_def queue_merge_def)
  next
    case 3
    then have "compare_u32 (seg_seq s) (seg_seq n) = 0" by simp
    with 3 show ?thesis by (auto simp: queue_look_def queue_merge_def)
  qed
qed (simp add: queue_look_def queue_merge_def)

lemma queue_look_ext:
  assumes q: "queue_ok b q" "queue_ok b q'" and eq: "queue_look q = queue_look q'"
  shows "q = q'"
proof -
  let ?f = "\<lambda>s. ahead b (seg_seq s)"
  have set: "set q = set q'"
    using eq queue_look_member [OF q(1)] queue_look_member [OF q(2)] by (metis subsetI subset_antisym)
  have strict: "sorted_wrt (<) (map ?f q)" "sorted_wrt (<) (map ?f q')"
    using q by (simp_all add: queue_ok_def sorted_wrt_map)
  then have "map ?f q = map ?f q'"
    using set by (intro sorted_distinct_set_unique) (auto simp: strict_sorted_iff)
  moreover have "inj_on ?f (set q \<union> set q')"
    using q(1) set by (auto simp: inj_on_def ahead_inj) (metis queue_look_member option.inject)
  ultimately show ?thesis by (simp add: map_inj_on)
qed

lemma queue_head:
  assumes "queue_ok b q" "queue_look q b = Some s"
  shows "\<exists>q'. q = s # q'"
proof (cases q)
  case (Cons x q')
  have "s \<in> set q" "seg_seq s = b" using assms queue_look_member by blast+
  then have "s = x" using assms(1) Cons by (auto simp: queue_ok_def)
  then show ?thesis using Cons by blast
qed (use assms(2) in \<open>simp add: queue_look_def\<close>)

interpretation rq: reassembly_queue queue_insert seg_seq queue_merge queue_ok queue_look "0x7FFFFFFF"
proof
  show "seg_seq (queue_merge (queue_look q (seg_seq n)) n) = seg_seq n" for q n
    by (auto simp: queue_merge_def queue_look_def find_Some_iff split: option.splits)
  show "queue_ok b []" "queue_look [] k = None" for b k
    by (simp_all add: queue_ok_def queue_look_def)
qed (fact queue_insert_ok queue_look_insert queue_look_ext queue_head)+

text \<open>The segments themselves: the data has the stored length and no more of it is sent.\<close>

definition seg_ok :: "segment \<Rightarrow> bool" where
  "seg_ok s \<longleftrightarrow> length (seg_data s) = unat (seg_len s) \<and> seg_sent s \<le> seg_len s"

lemma queue_insert_seg_ok:
  assumes "\<forall>s \<in> set q. seg_ok s" "seg_ok n"
    and "\<forall>s \<in> set q. seg_seq s = seg_seq n \<longrightarrow> seg_sent s \<le> seg_len n"
  shows "\<forall>s \<in> set (queue_insert n q). seg_ok s"
  using assms
proof (induction q)
  case (Cons s q)
  consider "compare_u32 (seg_seq s) (seg_seq n) < 0" | "compare_u32 (seg_seq s) (seg_seq n) > 0"
    | (eq) "compare_u32 (seg_seq s) (seg_seq n) = 0" by linarith
  then show ?case
  proof cases
    case eq
    then have "seg_seq s = seg_seq n" by simp
    with Cons.prems eq show ?thesis by (simp add: seg_ok_def)
  qed (use Cons in auto)
qed simp

section \<open>Claims\<close>

text \<open>
  C15: \<open>queue_tcp\<close> implements a map from sequence numbers to segments. From a queue sorted by
  the distance from the next byte expected, data within the window ahead of it leaves the
  queue sorted, is found afterwards under its sequence number (merged with what was queued
  there) and changes no other entry; data that was already forwarded changes nothing.
\<close>

theorem queue_tcp_refines_map:
  assumes "queue_ok (t_remote_seq cur) (t_forward cur)" "length data < 65536"
    and "n = \<lparr>seg_seq = seq, seg_len = word_of_nat (length data), seg_sent = 0, seg_psh = psh, seg_data = data\<rparr>"
  shows "(ahead (t_remote_seq cur) seq < 0x7FFFFFFF \<longrightarrow>
      queue_ok (t_remote_seq cur) (t_forward (queue_tcp cur seq psh data)) \<and>
      queue_look (t_forward (queue_tcp cur seq psh data)) =
        (queue_look (t_forward cur))(seq \<mapsto> queue_merge (queue_look (t_forward cur) seq) n)) \<and>
    (0x80000001 < ahead (t_remote_seq cur) seq \<longrightarrow> queue_tcp cur seq psh data = cur)"
proof (intro conjI impI)
  assume w: "ahead (t_remote_seq cur) seq < 0x7FFFFFFF"
  then have "\<not> compare_u32 seq (t_remote_seq cur) < 0"
    using compare_u32_less(1) [of "t_remote_seq cur" seq "t_remote_seq cur"] by simp
  then have q: "t_forward (queue_tcp cur seq psh data) = queue_insert n (t_forward cur)"
    by (simp add: queue_tcp_def assms(3))
  have n: "ahead (t_remote_seq cur) (seg_seq n) < 0x7FFFFFFF" "seg_seq n = seq"
    using w assms(3) by simp_all
  show "queue_ok (t_remote_seq cur) (t_forward (queue_tcp cur seq psh data))"
    unfolding q using assms(1) n(1) by (rule rq.inv_ins)
  show "queue_look (t_forward (queue_tcp cur seq psh data)) =
      (queue_look (t_forward cur))(seq \<mapsto> queue_merge (queue_look (t_forward cur) seq) n)"
    unfolding q using rq.look_ins [OF assms(1) n(1)] n(2) by auto
next
  assume a: "0x80000001 < ahead (t_remote_seq cur) seq"
  then have ne: "seq \<noteq> t_remote_seq cur" by auto
  then have "ahead seq (t_remote_seq cur) = 4294967296 - ahead (t_remote_seq cur) seq"
    by (rule ahead_swap)
  then have "ahead seq (t_remote_seq cur) < 0x7FFFFFFF" using a by linarith
  then have "compare_u32 seq (t_remote_seq cur) = -1"
    using ne by (cases seq "t_remote_seq cur" rule: linorder_cases) (simp_all add: compare_u32_exact)
  then show "queue_tcp cur seq psh data = cur" by (simp add: queue_tcp_def)
qed

theorem queue_tcp_refines_map_witness:
  "queue_ok (t_remote_seq web_session) (t_forward (queue_tcp web_session 1001 True [71, 69, 84])) \<and>
   queue_look (t_forward (queue_tcp web_session 1001 True [71, 69, 84])) =
     (queue_look (t_forward web_session))(1001 \<mapsto> queue_merge (queue_look (t_forward web_session) 1001)
        \<lparr>seg_seq = 1001, seg_len = word_of_nat (length [71, 69, 84 :: u8]), seg_sent = 0, seg_psh = True,
         seg_data = [71, 69, 84]\<rparr>)"
proof -
  have "queue_ok (t_remote_seq web_session) (t_forward web_session)"
    by (simp add: queue_ok_def web_session_def)
  moreover have "ahead (t_remote_seq web_session) 1001 < 0x7FFFFFFF"
    by (simp add: web_session_def)
  ultimately show ?thesis
    using queue_tcp_refines_map [of web_session "[71, 69, 84]" _ 1001 True, OF _ _ refl] by simp
qed

text \<open>
  The order in which segments arrive does not matter: any two arrival orders of the same
  segments with distinct sequence numbers within the window end with the same queue, and the
  segment at the base, once it has arrived, is the head that is forwarded next.
\<close>

theorem queue_arrival_order_irrelevant:
  assumes "queue_ok b q" "\<forall>n \<in> set ns. ahead b (seg_seq n) < 0x7FFFFFFF" "distinct (map seg_seq ns)"
    and "mset ms = mset ns"
  shows "fold queue_insert ms q = fold queue_insert ns q \<and>
    (\<forall>n. seg_seq n = b \<longrightarrow> (\<exists>q'. queue_insert n q = queue_merge (queue_look q b) n # q'))"
  using rq.arrival_order [OF assms] rq.next_ready [OF assms(1)] by simp

definition seg_at :: "u32 \<Rightarrow> buf \<Rightarrow> segment" where
  "seg_at seq data = \<lparr>seg_seq = seq, seg_len = word_of_nat (length data), seg_sent = 0, seg_psh = True, seg_data = data\<rparr>"

theorem queue_arrival_order_irrelevant_witness:
  "fold queue_insert [seg_at 5 [3], seg_at 0xFFFFFFFF [1], seg_at 0 [2]] [] =
   fold queue_insert [seg_at 0xFFFFFFFF [1], seg_at 0 [2], seg_at 5 [3]] []"
  using queue_arrival_order_irrelevant [of "0xFFFFFFFF" "[]" "[seg_at 0xFFFFFFFF [1], seg_at 0 [2], seg_at 5 [3]]"
      "[seg_at 5 [3], seg_at 0xFFFFFFFF [1], seg_at 0 [2]]"]
  by (simp add: queue_ok_def seg_at_def ahead_def)

text \<open>
  A retransmission shorter than the segment queued under the same number replaces its
  length and data but not the count of bytes sent: a segment of which three bytes were sent
  becomes one of two bytes, and the difference of its lengths, on which the forwarding
  condition and the length given to \<open>send\<close> rest, wraps around.
\<close>

theorem queue_shrinks_below_sent:
  "queue_insert (seg_at 7 [1, 2]) [(seg_at 7 [1, 2, 3, 4])\<lparr>seg_sent := 3\<rparr>] =
     [(seg_at 7 [1, 2])\<lparr>seg_sent := 3\<rparr>] \<and>
   toforward [(seg_at 7 [1, 2])\<lparr>seg_sent := 3\<rparr>] = 0xFFFFFFFF"
  by (simp add: seg_at_def toforward_def)



text \<open>
  When the local sequence number has wrapped around, the bytes in flight are computed
  with \<open>0x10000\<close> where the sequence space has 2 to the power 32 numbers: with 10 bytes in
  flight across the wrap and a window of 60000 the send window is 0 instead of 59950.
\<close>

theorem get_send_window_wraps_wrongly:
  "get_send_window (web_session\<lparr>t_local_seq := 5, t_acked := 0xFFFFFFFB, t_send_window := 60000\<rparr>) = 0 \<and>
   ahead 0xFFFFFFFB 5 = 10"
  by (simp add: get_send_window_def web_session_def ahead_def)

end
