(* ===== verification/Tcp.thy ===== *)
theory Tcp
  imports Tcp_Queue Udp
begin

text \<open>
  The TCP sessions of \<open>tcp.c\<close> outside packet handling: timeouts, the periodic check, the
  choice of the events to wait for, opening the socket, and \<open>check_tcp_socket\<close> in its parts:
  the SOCKS5 negotiation, forwarding the queued data, the receive window, and reading data.
\<close>

definition TCP_INIT_TIMEOUT :: int where "TCP_INIT_TIMEOUT = 20"
definition TCP_IDLE_TIMEOUT :: int where "TCP_IDLE_TIMEOUT = 3600"
definition TCP_CLOSE_TIMEOUT :: int where "TCP_CLOSE_TIMEOUT = 20"
definition TCP_KEEP_TIMEOUT :: int where "TCP_KEEP_TIMEOUT = 300"
definition EPOLL_MIN_CHECK :: int where "EPOLL_MIN_CHECK = 100"

lemmas tcp_timeout_defs = TCP_INIT_TIMEOUT_def TCP_IDLE_TIMEOUT_def TCP_CLOSE_TIMEOUT_def TCP_KEEP_TIMEOUT_def

section \<open>Session checks\<close>

definition tcp_base_timeout :: "tcp_session \<Rightarrow> int" where
  "tcp_base_timeout t =
     (if t_state t = TCP_LISTEN \<or> t_state t = TCP_SYN_RECV then TCP_INIT_TIMEOUT
      else if t_state t = TCP_ESTABLISHED then TCP_IDLE_TIMEOUT
      else TCP_CLOSE_TIMEOUT)"

definition get_tcp_timeout :: "tcp_session \<Rightarrow> int \<Rightarrow> int \<Rightarrow> int" where
  "get_tcp_timeout t sessions maxsessions =
     (let timeout = tcp_base_timeout t;
          scale = 100 - (sessions * 100) sdiv maxsessions
      in (timeout * scale) sdiv 100)"

interpretation tcp_timeout: timeout_policy get_tcp_timeout tcp_base_timeout
  by unfold_locales (simp_all add: get_tcp_timeout_def Let_def tcp_base_timeout_def tcp_timeout_defs)

abbreviation closing :: "tcp_session \<Rightarrow> bool" where
  "closing t \<equiv> t_state t = TCP_CLOSING \<or> t_state t = TCP_CLOSE"

definition check_tcp_session ::
  "arguments \<Rightarrow> tcp_session ng_session \<Rightarrow> int \<Rightarrow> int \<Rightarrow> (tcp_session ng_session \<times> bool) prog" where
  "check_tcp_session args s sessions maxsessions = do {
     now \<leftarrow> time args;
     let timeout = get_tcp_timeout (s_body s) sessions maxsessions;
     s \<leftarrow> (if \<not> closing (s_body s) \<and> t_time (s_body s) + timeout < now then
            if t_state (s_body s) = TCP_LISTEN
            then State_Monad.return (s\<lparr>s_body := (s_body s)\<lparr>t_state := TCP_CLOSING\<rparr>\<rparr>)
            else do { t \<leftarrow> write_rst args (s_body s); State_Monad.return (s\<lparr>s_body := t\<rparr>) }
          else State_Monad.return s);
     s \<leftarrow> (if t_state (s_body s) = TCP_CLOSING then do {
            s \<leftarrow> (if s_socket s \<ge> 0 then do {
                   _ \<leftarrow> syscall args (Call_close (s_socket s));
                   State_Monad.return (s\<lparr>s_socket := -1\<rparr>)
                 }
                 else State_Monad.return s);
            t \<leftarrow> time args;
            State_Monad.return (s\<lparr>s_body := (s_body s)\<lparr>t_time := t, t_state := TCP_CLOSE\<rparr>\<rparr>)
          }
          else State_Monad.return s);
     let s = (if closing (s_body s) \<and> (t_sent (s_body s) \<noteq> 0 \<or> t_received (s_body s) \<noteq> 0)
              then s\<lparr>s_body := (s_body s)\<lparr>t_sent := 0, t_received := 0\<rparr>\<rparr> else s);
     State_Monad.return (s, t_state (s_body s) = TCP_CLOSE \<and> t_time (s_body s) + TCP_KEEP_TIMEOUT < now)
   }"

section \<open>Events to wait for\<close>

text \<open>The keep alive sent when the send window is closed.\<close>

definition tcp_keep_alive :: "arguments \<Rightarrow> tcp_session \<Rightarrow> tcp_session prog" where
  "tcp_keep_alive args t = do {
     ms \<leftarrow> get_ms args;
     if ms - t_last_keep_alive t > EPOLL_MIN_CHECK then do {
       (t, _) \<leftarrow> write_ack args (t\<lparr>t_last_keep_alive := ms, t_remote_seq := t_remote_seq t - 1\<rparr>);
       State_Monad.return (t\<lparr>t_remote_seq := t_remote_seq t + 1\<rparr>)
     }
     else State_Monad.return t
   }"

text \<open>Whether the head of the queue can be sent now.\<close>

definition head_ready :: "tcp_session \<Rightarrow> segment \<Rightarrow> u32 \<Rightarrow> bool" where
  "head_ready t seg buffer_size \<longleftrightarrow>
     seg_seq seg = t_remote_seq t \<and> u16to32 (seg_len seg) - u16to32 (seg_sent seg) < buffer_size"

definition tcp_events :: "arguments \<Rightarrow> tcp_session ng_session \<Rightarrow> (tcp_session \<times> u32 \<times> bool) prog" where
  "tcp_events args s =
     (let t = s_body s in
      if t_state t = TCP_LISTEN
      then State_Monad.return (t, EPOLLERR OR (if t_socks5 t = SOCKS5_NONE then EPOLLOUT else EPOLLIN), False)
      else if t_state t = TCP_ESTABLISHED \<or> t_state t = TCP_CLOSE_WAIT then do {
        (t, events, recheck) \<leftarrow> (if get_send_window t > 0
          then State_Monad.return (t, EPOLLERR OR EPOLLIN, False)
          else do { t \<leftarrow> tcp_keep_alive args t; State_Monad.return (t, EPOLLERR, True) });
        case t_forward t of
          [] \<Rightarrow> State_Monad.return (t, events, recheck)
        | seg # _ \<Rightarrow> do {
            buffer_size \<leftarrow> get_receive_buffer args (s_socket s);
            if head_ready t seg buffer_size
            then State_Monad.return (t, events OR EPOLLOUT, recheck)
            else State_Monad.return (t, events, True)
          }
      }
      else State_Monad.return (t, EPOLLERR, False))"

definition monitor_tcp_session ::
  "arguments \<Rightarrow> tcp_session ng_session \<Rightarrow> (tcp_session ng_session \<times> bool) prog" where
  "monitor_tcp_session args s = do {
     (t, events, recheck) \<leftarrow> tcp_events args s;
     let s = s\<lparr>s_body := t\<rparr>;
     if events \<noteq> s_events s then do {
       let s = s\<lparr>s_events := events\<rparr>;
       r \<leftarrow> syscall args (Call_epoll_ctl EPOLL_CTL_MOD (s_socket s) events);
       State_Monad.return
         (if ret r \<noteq> 0 then s\<lparr>s_body := (s_body s)\<lparr>t_state := TCP_CLOSING\<rparr>\<rparr> else s, recheck)
     }
     else State_Monad.return (s, recheck)
   }"

section \<open>Opening the socket\<close>

text \<open>\<open>*socks5_addr && socks5_port\<close>.\<close>

definition use_socks5 :: "world \<Rightarrow> bool" where
  "use_socks5 w \<longleftrightarrow> w_socks5_addr w \<noteq> [] \<and> w_socks5_port w \<noteq> 0"

definition open_tcp_socket :: "arguments \<Rightarrow> tcp_session \<Rightarrow> int prog" where
  "open_tcp_socket args cur = do {
     w \<leftarrow> State_Monad.get;
     let version = (if use_socks5 w then (if 58 \<in> set (w_socks5_addr w) then 6 else 4) else t_version cur);
     r \<leftarrow> syscall args (Call_socket (version = 4) IPPROTO_TCP);
     let sock = ret r;
     if sock < 0 then State_Monad.return (-1)
     else do {
       p \<leftarrow> protect_socket args sock;
       if p < 0 then State_Monad.return (-1)
       else do {
         _ \<leftarrow> syscall args (Call_setsockopt sock TCP_NODELAY);
         fl \<leftarrow> syscall args (Call_fcntl_getfl sock);
         if ret fl < 0 then State_Monad.return (-1)
         else do {
           sf \<leftarrow> syscall args (Call_fcntl_setfl sock (ret fl OR O_NONBLOCK));
           if ret sf < 0 then State_Monad.return (-1)
           else do {
             (addr, port) \<leftarrow> (if use_socks5 w then do {
                 a \<leftarrow> syscall args (Call_inet_pton (w_socks5_addr w));
                 State_Monad.return (bytes a, htons (word_of_int (w_socks5_port w)))
               }
               else State_Monad.return (t_daddr cur, t_dest cur));
             e \<leftarrow> syscall args (Call_connect sock addr port);
             State_Monad.return (if ret e < 0 \<and> errno e \<noteq> EINPROGRESS then -1 else sock)
           }
         }
       }
     }
   }"

section \<open>Socket events\<close>

subsection \<open>SOCKS5 negotiation\<close>

text \<open>The answer of the proxy: the next state of the negotiation, 0 for a failure.\<close>

definition socks5_reply :: "socks5_state \<Rightarrow> int \<Rightarrow> int \<Rightarrow> buf \<Rightarrow> socks5_state" where
  "socks5_reply st version n buffer =
     (if st = SOCKS5_HELLO \<and> n = 2 \<and> get8 buffer 0 = 5 then
        if get8 buffer 1 = 0 then SOCKS5_CONNECT
        else if get8 buffer 1 = 2 then SOCKS5_AUTH
        else SOCKS5_ZERO
      else if st = SOCKS5_AUTH \<and> n = 2 \<and> (get8 buffer 0 = 1 \<or> get8 buffer 0 = 5) then
        if get8 buffer 1 = 0 then SOCKS5_CONNECT else SOCKS5_ZERO
      else if st = SOCKS5_CONNECT \<and> n = 6 + (if version = 4 then 4 else 16) \<and> get8 buffer 0 = 5 then
        if get8 buffer 1 = 0 then SOCKS5_CONNECTED else SOCKS5_ZERO
      else SOCKS5_ZERO)"

definition socks5_receive :: "arguments \<Rightarrow> tcp_session ng_session \<Rightarrow> u32 \<Rightarrow> tcp_session prog" where
  "socks5_receive args s events =
     (let t = s_body s in
      if t_socks5 t = SOCKS5_NONE then
        if events AND EPOLLOUT \<noteq> 0 then do {
          w \<leftarrow> State_Monad.get;
          State_Monad.return (t\<lparr>t_socks5 := (if use_socks5 w then SOCKS5_HELLO else SOCKS5_CONNECTED)\<rparr>)
        }
        else State_Monad.return t
      else if events AND EPOLLIN \<noteq> 0 then do {
        r \<leftarrow> syscall args (Call_recv (s_socket s) 32);
        if ret r < 0 then write_rst args t
        else do {
          let st = socks5_reply (t_socks5 t) (t_version t) (ret r) (bytes r);
          let t = t\<lparr>t_socks5 := st\<rparr>;
          if st = SOCKS5_ZERO then write_rst args t else State_Monad.return t
        }
      }
      else State_Monad.return t)"

definition socks5_auth_request :: "buf \<Rightarrow> buf \<Rightarrow> buf" where
  "socks5_auth_request user password =
     (let ulen = (word_of_nat (length user) :: u8); plen = (word_of_nat (length password) :: u8)
      in [1, ulen] @ take (unat ulen) user @ [plen] @ take (unat plen) password)"

definition socks5_connect_request :: "tcp_session \<Rightarrow> buf" where
  "socks5_connect_request t =
     [5, 1, 0, if t_version t = 4 then 1 else 4] @ t_daddr t @ st16 (t_dest t)"

definition socks5_send :: "arguments \<Rightarrow> int \<Rightarrow> tcp_session \<Rightarrow> buf \<Rightarrow> tcp_session prog" where
  "socks5_send args sock t buffer = do {
     r \<leftarrow> syscall args (Call_send sock buffer False);
     if ret r < 0 then write_rst args t else State_Monad.return t
   }"

definition socks5_advance :: "arguments \<Rightarrow> int \<Rightarrow> tcp_session \<Rightarrow> tcp_session prog" where
  "socks5_advance args sock t =
     (if t_socks5 t = SOCKS5_HELLO then socks5_send args sock t [5, 2, 0, 2]
      else if t_socks5 t = SOCKS5_AUTH then do {
        w \<leftarrow> State_Monad.get;
        socks5_send args sock t (socks5_auth_request (w_socks5_username w) (w_socks5_password w))
      }
      else if t_socks5 t = SOCKS5_CONNECT then socks5_send args sock t (socks5_connect_request t)
      else if t_socks5 t = SOCKS5_CONNECTED then do {
        (t, r) \<leftarrow> write_syn_ack args (t\<lparr>t_remote_seq := t_remote_seq t + 1\<rparr>);
        if r \<ge> 0 then do {
          now \<leftarrow> time args;
          State_Monad.return (t\<lparr>t_time := now, t_local_seq := t_local_seq t + 1, t_state := TCP_SYN_RECV\<rparr>)
        }
        else State_Monad.return t
      }
      else State_Monad.return t)"

subsection \<open>Forwarding the queue\<close>

text \<open>
  The loop over the queue; \<open>q\<close> is what is left of it and \<open>t\<close> the session, whose queue is set
  when the loop ends. The result is the session and \<open>fwd\<close>.
\<close>

fun tcp_forward :: "arguments \<Rightarrow> int \<Rightarrow> u32 \<Rightarrow> bool \<Rightarrow> tcp_session \<Rightarrow> segment list \<Rightarrow> (tcp_session \<times> bool) prog" where
  "tcp_forward args sock buffer_size fwd t [] = State_Monad.return (t\<lparr>t_forward := []\<rparr>, fwd)"
| "tcp_forward args sock buffer_size fwd t (seg # q) =
     (if head_ready t seg buffer_size then do {
        data \<leftarrow> load (seg_data seg) (unat (seg_sent seg))
                 (unat (u16to32 (seg_len seg) - u16to32 (seg_sent seg)));
        r \<leftarrow> syscall args (Call_send sock data (\<not> seg_psh seg));
        if ret r < 0 then
          if errno r = EINTR \<or> errno r = EAGAIN
          then State_Monad.return (t\<lparr>t_forward := seg # q\<rparr>, fwd)
          else do { t \<leftarrow> write_rst args (t\<lparr>t_forward := seg # q\<rparr>); State_Monad.return (t, fwd) }
        else do {
          let t = t\<lparr>t_sent := t_sent t + word_of_int (ret r)\<rparr>;
          let seg = seg\<lparr>seg_sent := seg_sent seg + word_of_int (ret r)\<rparr>;
          if seg_len seg = seg_sent seg
          then tcp_forward args sock (buffer_size - word_of_int (ret r)) True
                 (t\<lparr>t_remote_seq := seg_seq seg + u16to32 (seg_sent seg)\<rparr>) q
          else State_Monad.return (t\<lparr>t_forward := seg # q\<rparr>, True)
        }
      }
      else State_Monad.return (t\<lparr>t_forward := seg # q\<rparr>, fwd))"

text \<open>The receive window and the acknowledgement of what was forwarded.\<close>

definition tcp_acknowledge :: "arguments \<Rightarrow> tcp_session ng_session \<Rightarrow> bool \<Rightarrow> tcp_session prog" where
  "tcp_acknowledge args s fwd = do {
     window \<leftarrow> get_receive_window args s;
     let prev = t_recv_window (s_body s);
     let t = (s_body s)\<lparr>t_recv_window := window\<rparr>;
     if fwd \<or> (prev = 0 \<and> window > 0) then do {
       let t = (if fwd \<and> t_forward t = [] \<and> t_state t = TCP_CLOSE_WAIT
                then t\<lparr>t_remote_seq := t_remote_seq t + 1\<rparr> else t);
       (t, r) \<leftarrow> write_ack args t;
       if r \<ge> 0 then do { now \<leftarrow> time args; State_Monad.return (t\<lparr>t_time := now\<rparr>) }
       else State_Monad.return t
     }
     else State_Monad.return t
   }"

subsection \<open>Reading data\<close>

definition tcp_flow :: "u8 \<Rightarrow> tcp_session \<Rightarrow> flow" where
  "tcp_flow protocol t = \<lparr>f_version = t_version t, f_protocol = protocol, f_saddr = t_saddr t,
     f_sport = ntohs (t_source t), f_daddr = t_daddr t, f_dport = ntohs (t_dest t)\<rparr>"

text \<open>The branch of an end of file: the session finishes, or is reset if data is still queued.\<close>

definition tcp_eof :: "arguments \<Rightarrow> tcp_session ng_session \<Rightarrow> tcp_session ng_session prog" where
  "tcp_eof args s = do {
     t \<leftarrow> (if t_forward (s_body s) = [] then do {
            (t, r) \<leftarrow> write_fin_ack args (s_body s);
            let t = (if r \<ge> 0 then t\<lparr>t_local_seq := t_local_seq t + 1\<rparr> else t);
            State_Monad.return
              (if t_state t = TCP_ESTABLISHED then t\<lparr>t_state := TCP_FIN_WAIT1\<rparr>
               else if t_state t = TCP_CLOSE_WAIT then t\<lparr>t_state := TCP_LAST_ACK\<rparr>
               else t)
          }
          else write_rst args (s_body s));
     _ \<leftarrow> syscall args (Call_close (s_socket s));
     State_Monad.return (s\<lparr>s_body := t, s_socket := -1\<rparr>)
   }"

text \<open>
  The branch of data. The owner cached for the flow is asked for with \<open>s->udp.version\<close>, which
  overlays the upper half of \<open>s->tcp.time\<close> in the union.
\<close>

definition tcp_received ::
  "arguments \<Rightarrow> tcp_session ng_session \<Rightarrow> int \<Rightarrow> buf \<Rightarrow> tcp_session ng_session prog" where
  "tcp_received args s n data = do {
     let t = (s_body s)\<lparr>t_received := t_received (s_body s) + word_of_int n\<rparr>;
     guarded (ntohs (t_dest t) = 53 \<and> n > 2) (process_dns args (drop 2 data) (t_uid t));
     (t, r) \<leftarrow> write_data args t data;
     let t = (if r \<ge> 0
              then t\<lparr>t_local_seq := t_local_seq t + word_of_int n, t_unconfirmed := t_unconfirmed t + 1\<rparr>
              else t);
     let f = tcp_flow (s_protocol s) t;
     log_incoming args (f\<lparr>f_version := t_time t div 4294967296\<rparr>) f (t_uid t) n;
     State_Monad.return (s\<lparr>s_body := t\<rparr>)
   }"

definition tcp_read :: "arguments \<Rightarrow> tcp_session ng_session \<Rightarrow> u32 \<Rightarrow> tcp_session ng_session prog" where
  "tcp_read args s events =
     (let send_window = get_send_window (s_body s) in
      if events AND EPOLLIN \<noteq> 0 \<and> send_window > 0 then do {
        now \<leftarrow> time args;
        let s = s\<lparr>s_body := (s_body s)\<lparr>t_time := now\<rparr>\<rparr>;
        let buffer_size = (if send_window > u16to32 (t_mss (s_body s)) then u16to32 (t_mss (s_body s)) else send_window);
        r \<leftarrow> syscall args (Call_recv (s_socket s) (unat buffer_size));
        if ret r < 0 then
          if errno r \<noteq> EINTR \<and> errno r \<noteq> EAGAIN
          then do { t \<leftarrow> write_rst args (s_body s); State_Monad.return (s\<lparr>s_body := t\<rparr>) }
          else State_Monad.return s
        else if ret r = 0 then tcp_eof args s
        else tcp_received args s (ret r) (get_bytes (bytes r) 0 (nat (ret r)))
      }
      else State_Monad.return s)"

subsection \<open>\<open>check_tcp_socket\<close>\<close>

definition check_tcp_socket ::
  "arguments \<Rightarrow> tcp_session ng_session \<Rightarrow> u32 \<Rightarrow> tcp_session ng_session prog" where
  "check_tcp_socket args s events =
     (if events AND EPOLLERR \<noteq> 0 then do {
        now \<leftarrow> time args;
        _ \<leftarrow> syscall args (Call_getsockopt (s_socket s) SO_ERROR);
        t \<leftarrow> write_rst args ((s_body s)\<lparr>t_time := now\<rparr>);
        State_Monad.return (s\<lparr>s_body := t\<rparr>)
      }
      else if t_state (s_body s) = TCP_LISTEN then do {
        t \<leftarrow> socks5_receive args s events;
        t \<leftarrow> socks5_advance args (s_socket s) t;
        State_Monad.return (s\<lparr>s_body := t\<rparr>)
      }
      else do {
        (t, fwd) \<leftarrow> (if events AND EPOLLOUT \<noteq> 0 then do {
            buffer_size \<leftarrow> get_receive_buffer args (s_socket s);
            tcp_forward args (s_socket s) buffer_size False (s_body s) (t_forward (s_body s))
          }
          else State_Monad.return (s_body s, False));
        t \<leftarrow> tcp_acknowledge args (s\<lparr>s_body := t\<rparr>) fwd;
        let s = s\<lparr>s_body := t\<rparr>;
        if t_state t = TCP_ESTABLISHED \<or> t_state t = TCP_CLOSE_WAIT
        then tcp_read args s events
        else State_Monad.return s
      })"

end
