(* ===== verification/Tcp_Handle.thy ===== *)
theory Tcp_Handle
  imports Tcp
begin

text \<open>
  \<open>handle_tcp\<close> of \<open>tcp.c\<close>: the decoding of the header and the SYN options, a new session, the
  reset of an unknown one, and the state machine of a session that was found.
\<close>

section \<open>The header\<close>

text \<open>\<open>struct tcphdr\<close>, its numbers in host order and its flags as booleans.\<close>

record tcphdr =
  h_source :: u16
  h_dest :: u16
  h_seq :: u32
  h_ack_seq :: u32
  h_doff :: u8
  h_fin :: bool
  h_syn :: bool
  h_rst :: bool
  h_psh :: bool
  h_ack :: bool
  h_urg :: bool
  h_window :: u16

definition get_tcphdr :: "buf \<Rightarrow> nat \<Rightarrow> tcphdr" where
  "get_tcphdr pkt p =
     (let fl = get8 pkt (p + 13)
      in \<lparr>h_source = get16 pkt p, h_dest = get16 pkt (p + 2), h_seq = ntohl (get32 pkt (p + 4)),
          h_ack_seq = ntohl (get32 pkt (p + 8)), h_doff = drop_bit 4 (get8 pkt (p + 12)),
          h_fin = bit fl 0, h_syn = bit fl 1, h_rst = bit fl 2, h_psh = bit fl 3, h_ack = bit fl 4,
          h_urg = bit fl 5, h_window = ntohs (get16 pkt (p + 14))\<rparr>)"

text \<open>\<open>tcpoptlen\<close>, \<open>data\<close> as an offset, and \<open>datalen\<close> with its truncation to 16 bits.\<close>

definition tcp_optlen :: "tcphdr \<Rightarrow> u8" where
  "tcp_optlen h = (h_doff h - 5) * 4"

definition tcp_dataoff :: "tcphdr \<Rightarrow> nat \<Rightarrow> nat" where
  "tcp_dataoff h payload = payload + 20 + unat (tcp_optlen h)"

definition tcp_datalen :: "tcphdr \<Rightarrow> nat \<Rightarrow> nat \<Rightarrow> u16" where
  "tcp_datalen h len payload = word_of_nat len - word_of_nat (tcp_dataoff h payload)"

section \<open>The options of a SYN\<close>

text \<open>
  The loop over the options at \<open>off\<close>, \<open>optlen\<close> bytes of them left; it does not return on an
  option of length 0.
\<close>

partial_function (option) tcp_opts :: "buf \<Rightarrow> int \<Rightarrow> nat \<Rightarrow> u16 \<Rightarrow> u8 \<Rightarrow> (u16 \<times> u8) option" where
  "tcp_opts pkt optlen off mss ws =
     (if optlen > 0 then
        let kind = get8 pkt off; len = get8 pkt (off + 1) in
        if kind = 0 then Some (mss, ws)
        else
          let mss = (if kind = 2 \<and> len = 4 then ntohs (get16 pkt (off + 2)) else mss);
              ws = (if \<not> (kind = 2 \<and> len = 4) \<and> kind = 3 \<and> len = 3 then get8 pkt (off + 2) else ws)
          in if kind = 1 then tcp_opts pkt (optlen - 1) (off + 1) mss ws
             else tcp_opts pkt (optlen - int (unat len)) (off + unat len) mss ws
      else Some (mss, ws))"

section \<open>A new session\<close>

text \<open>The session of a SYN; its receive window is set before it is first read.\<close>

definition tcp_session_of ::
  "buf \<Rightarrow> tcphdr \<Rightarrow> int \<Rightarrow> int \<Rightarrow> u16 \<Rightarrow> u8 \<Rightarrow> u32 \<Rightarrow> buf \<Rightarrow> tcp_session" where
  "tcp_session_of pkt h uid now mss ws isn data =
     \<lparr>t_uid = uid, t_time = now, t_version = ip_version pkt, t_mss = mss, t_recv_scale = ws, t_send_scale = ws,
      t_recv_window = 0, t_send_window = push_bit (unat ws) (u16to32 (h_window h)), t_unconfirmed = 0,
      t_remote_seq = h_seq h, t_local_seq = isn, t_remote_start = h_seq h, t_local_start = isn,
      t_acked = 0, t_last_keep_alive = 0, t_sent = 0, t_received = 0,
      t_saddr = ip_saddr pkt, t_source = h_source h, t_daddr = ip_daddr pkt, t_dest = h_dest h,
      t_state = TCP_LISTEN, t_socks5 = SOCKS5_NONE,
      t_forward = (if data = [] then []
        else [\<lparr>seg_seq = h_seq h, seg_len = word_of_nat (length data), seg_sent = 0, seg_psh = h_psh h, seg_data = data\<rparr>])\<rparr>"

text \<open>Opening the socket and entering the session in the list; \<open>getsockname\<close> is called for the log.\<close>

definition tcp_register :: "arguments \<Rightarrow> nat \<Rightarrow> tcp_session \<Rightarrow> bool \<Rightarrow> bool prog" where
  "tcp_register args addr t allowed = do {
     sock \<leftarrow> open_tcp_socket args t;
     if sock < 0 then State_Monad.return False
     else do {
       let s = \<lparr>s_addr = addr, s_protocol = IPPROTO_TCP, s_body = t, s_socket = sock,
                s_events = EPOLLOUT OR EPOLLERR\<rparr>;
       window \<leftarrow> get_receive_window args s;
       let t = t\<lparr>t_recv_window := window\<rparr>;
       _ \<leftarrow> get_local_port args sock;
       _ \<leftarrow> syscall args (Call_epoll_ctl EPOLL_CTL_ADD sock (s_events s));
       push_session (with_body s (TCP t));
       guarded (\<not> allowed) (do { t \<leftarrow> write_rst args t; put_session (with_body s (TCP t)) });
       State_Monad.return True
     }
   }"

text \<open>A window scale of 32 or more is an undefined shift.\<close>

definition tcp_new ::
  "arguments \<Rightarrow> buf \<Rightarrow> nat \<Rightarrow> nat \<Rightarrow> tcphdr \<Rightarrow> int \<Rightarrow> bool \<Rightarrow> bool prog" where
  "tcp_new args pkt len payload h uid allowed =
     (case tcp_opts pkt (uint (tcp_optlen h)) (payload + 20) (get_default_mss (ip_version pkt)) 0 of
        None \<Rightarrow> do { hang; State_Monad.return False }
      | Some (mss, ws) \<Rightarrow> do {
          guarded (unat ws \<ge> 32) undefined_behaviour;
          addr \<leftarrow> fresh_addr;
          now \<leftarrow> time args;
          isn \<leftarrow> syscall args Call_rand;
          data \<leftarrow> load pkt (tcp_dataoff h payload) (unat (tcp_datalen h len payload));
          tcp_register args addr (tcp_session_of pkt h uid now mss ws (word_of_int (ret isn)) data) allowed
        })"

section \<open>An unknown session\<close>

definition tcp_unknown :: "arguments \<Rightarrow> buf \<Rightarrow> nat \<Rightarrow> nat \<Rightarrow> tcphdr \<Rightarrow> bool prog" where
  "tcp_unknown args pkt len payload h = do {
     _ \<leftarrow> write_rst args
       \<lparr>t_uid = 0, t_time = 0, t_version = ip_version pkt, t_mss = 0, t_recv_scale = 0, t_send_scale = 0,
        t_recv_window = 0, t_send_window = 0, t_unconfirmed = 0,
        t_remote_seq = h_seq h + u16to32 (tcp_datalen h len payload) + (if h_syn h \<or> h_fin h then 1 else 0),
        t_local_seq = h_ack_seq h, t_remote_start = 0, t_local_start = 0, t_acked = 0, t_last_keep_alive = 0,
        t_sent = 0, t_received = 0, t_saddr = ip_saddr pkt, t_source = h_source h, t_daddr = ip_daddr pkt,
        t_dest = h_dest h, t_state = TCP_ZERO, t_socks5 = SOCKS5_ZERO, t_forward = []\<rparr>;
     State_Monad.return False
   }"

section \<open>A session that was found\<close>

text \<open>The acknowledgement is absent or that of the next byte.\<close>

definition tcp_in_sequence :: "arguments \<Rightarrow> tcp_session \<Rightarrow> tcphdr \<Rightarrow> (tcp_session \<times> bool) prog" where
  "tcp_in_sequence args t h =
     (if h_syn h then State_Monad.return (t, True)
      else if h_fin h then
        if t_state t = TCP_ESTABLISHED then
          if t_forward t = [] then do {
            (t, r) \<leftarrow> write_ack args (t\<lparr>t_remote_seq := t_remote_seq t + 1\<rparr>);
            State_Monad.return (if r \<ge> 0 then t\<lparr>t_state := TCP_CLOSE_WAIT\<rparr> else t, True)
          }
          else State_Monad.return (t\<lparr>t_state := TCP_CLOSE_WAIT\<rparr>, True)
        else if t_state t = TCP_CLOSE_WAIT then State_Monad.return (t, True)
        else if t_state t = TCP_FIN_WAIT1 then do {
          (t, r) \<leftarrow> write_ack args (t\<lparr>t_remote_seq := t_remote_seq t + 1\<rparr>);
          State_Monad.return (if r \<ge> 0 then t\<lparr>t_state := TCP_CLOSE\<rparr> else t, True)
        }
        else State_Monad.return (t, False)
      else if h_ack h then
        let t = t\<lparr>t_acked := h_ack_seq h\<rparr> in
        State_Monad.return
          (if t_state t = TCP_SYN_RECV then (t\<lparr>t_state := TCP_ESTABLISHED\<rparr>, True)
           else if t_state t = TCP_ESTABLISHED then (t, True)
           else if t_state t = TCP_LAST_ACK then (t\<lparr>t_state := TCP_CLOSING\<rparr>, True)
           else if t_state t = TCP_CLOSE_WAIT then (t, True)
           else if t_state t = TCP_FIN_WAIT1 then (t, True)
           else (t, False))
      else State_Monad.return (t, False))"

text \<open>Any other acknowledgement: a keep alive, an earlier one, or one of the future.\<close>

definition tcp_other_ack :: "arguments \<Rightarrow> int \<Rightarrow> tcp_session \<Rightarrow> tcphdr \<Rightarrow> (tcp_session \<times> bool) prog" where
  "tcp_other_ack args sock t h =
     (let ack = h_ack_seq h in
      if ack + 1 = t_local_seq t then do {
        guarded (t_state t = TCP_ESTABLISHED)
          (do { _ \<leftarrow> syscall args (Call_setsockopt sock SO_KEEPALIVE); State_Monad.return () });
        State_Monad.return (t, True)
      }
      else if compare_u32 ack (t_local_seq t) < 0 then
        State_Monad.return (if compare_u32 ack (t_acked t) \<le> 0 then t else t\<lparr>t_acked := ack\<rparr>, True)
      else do { t \<leftarrow> write_rst args t; State_Monad.return (t, False) })"

text \<open>
  The data is copied when \<open>queue_tcp\<close> queues it (a repeated segment of equal length is read
  here although the code leaves it alone).
\<close>

definition tcp_found ::
  "arguments \<Rightarrow> buf \<Rightarrow> nat \<Rightarrow> nat \<Rightarrow> tcphdr \<Rightarrow> int \<Rightarrow> bool \<Rightarrow> tcp_session ng_session \<Rightarrow> (tcp_session \<times> bool) prog" where
  "tcp_found args pkt len payload h uid allowed cur =
     (let t = s_body cur;
          t = (if t_uid t = -1 \<and> uid > 0 then t\<lparr>t_uid := uid\<rparr> else t);
          datalen = tcp_datalen h len payload in
      if \<not> allowed then do { t \<leftarrow> write_rst args t; State_Monad.return (t, False) }
      else if closing t then do { t \<leftarrow> write_rst args t; State_Monad.return (t, False) }
      else do {
        t \<leftarrow> (if \<not> h_syn h then do { now \<leftarrow> time args; State_Monad.return (t\<lparr>t_time := now\<rparr>) }
             else State_Monad.return t);
        let t = t\<lparr>t_send_window := push_bit (unat (t_send_scale t)) (u16to32 (h_window h)), t_unconfirmed := 0\<rparr>;
        if datalen \<noteq> 0 \<and> (s_socket cur < 0 \<or> t_state t = TCP_CLOSE_WAIT)
        then do { t \<leftarrow> write_rst args t; State_Monad.return (t, False) }
        else do {
          t \<leftarrow> (if datalen \<noteq> 0 \<and> \<not> compare_u32 (h_seq h) (t_remote_seq t) < 0 then do {
                 data \<leftarrow> load pkt (tcp_dataoff h payload) (unat datalen);
                 State_Monad.return (queue_tcp t (h_seq h) (h_psh h) data)
               }
               else State_Monad.return t);
          if h_rst h then State_Monad.return (t\<lparr>t_state := TCP_CLOSING\<rparr>, False)
          else if \<not> h_ack h \<or> h_ack_seq h = t_local_seq t then tcp_in_sequence args t h
          else tcp_other_ack args (s_socket cur) t h
        }
      })"

section \<open>\<open>handle_tcp\<close>\<close>

definition tcp_match :: "buf \<Rightarrow> nat \<Rightarrow> session \<Rightarrow> bool" where
  "tcp_match pkt payload s =
     (case s_body s of
        TCP t \<Rightarrow> s_protocol s = IPPROTO_TCP \<and> t_version t = ip_version pkt \<and>
                 t_source t = get16 pkt payload \<and> t_dest t = get16 pkt (payload + 2) \<and>
                 t_saddr t = ip_saddr pkt \<and> t_daddr t = ip_daddr pkt
      | _ \<Rightarrow> False)"

text \<open>
  The accesses: the headers, and of a SYN the options with the three bytes after the start of
  the last one.
\<close>

definition handle_tcp :: "arguments \<Rightarrow> buf \<Rightarrow> nat \<Rightarrow> nat \<Rightarrow> int \<Rightarrow> bool \<Rightarrow> bool prog" where
  "handle_tcp args pkt len payload uid allowed = do {
     touch_ip pkt;
     touch pkt payload 20;
     let h = get_tcphdr pkt payload;
     cur \<leftarrow> find_session (tcp_match pkt payload);
     if h_urg h then State_Monad.return True
     else (case cur of
         None \<Rightarrow>
           if h_syn h then do {
             touch pkt (payload + 20) (if tcp_optlen h = 0 then 0 else unat (tcp_optlen h) + 3);
             tcp_new args pkt len payload h uid allowed
           }
           else tcp_unknown args pkt len payload h
       | Some s \<Rightarrow> (case s_body s of
             TCP t \<Rightarrow> do {
               (t, r) \<leftarrow> tcp_found args pkt len payload h uid allowed (with_body s t);
               put_session (with_body s (TCP t));
               State_Monad.return r
             }
           | _ \<Rightarrow> State_Monad.return False))
   }"

end
