(* ===== verification/Tcp_Machine.thy ===== *)
theory Tcp_Machine
  imports Tcp_Handle
begin

text \<open>
  The life of a TCP session: the automaton its state follows, and the proof that every
  operation of \<open>tcp.c\<close> moves the state along it and keeps the invariant that ties the state
  to the ownership of the socket.
\<close>

section \<open>The automaton\<close>

inductive tcp_step :: "tcp_state \<Rightarrow> tcp_state \<Rightarrow> bool" where
  syn_ack_written: "tcp_step TCP_LISTEN TCP_SYN_RECV"
| handshake_acked: "tcp_step TCP_SYN_RECV TCP_ESTABLISHED"
| application_fin: "tcp_step TCP_ESTABLISHED TCP_CLOSE_WAIT"
| server_eof: "tcp_step TCP_ESTABLISHED TCP_FIN_WAIT1"
| server_eof_last: "tcp_step TCP_CLOSE_WAIT TCP_LAST_ACK"
| fin_answered: "tcp_step TCP_FIN_WAIT1 TCP_CLOSE"
| aborted: "st \<in> {TCP_LISTEN, TCP_SYN_RECV, TCP_ESTABLISHED, TCP_CLOSE_WAIT, TCP_FIN_WAIT1, TCP_LAST_ACK} \<Longrightarrow>
    tcp_step st TCP_CLOSING"
| closed: "tcp_step TCP_CLOSING TCP_CLOSE"

inductive_cases tcp_step_CloseE: "tcp_step TCP_CLOSE st"

abbreviation tcp_path :: "tcp_state \<Rightarrow> tcp_state \<Rightarrow> bool" where
  "tcp_path \<equiv> tcp_step\<^sup>*\<^sup>*"

lemma tcp_path1: "tcp_step a b \<Longrightarrow> tcp_path a b"
  by (rule r_into_rtranclp)

text \<open>The states a stored session can have.\<close>

definition live_states :: "tcp_state set" where
  "live_states = {TCP_LISTEN, TCP_SYN_RECV, TCP_ESTABLISHED, TCP_CLOSE_WAIT, TCP_FIN_WAIT1, TCP_LAST_ACK,
     TCP_CLOSING, TCP_CLOSE}"

fun tcp_rank :: "tcp_state \<Rightarrow> nat" where
  "tcp_rank TCP_LISTEN = 6"
| "tcp_rank TCP_SYN_RECV = 5"
| "tcp_rank TCP_ESTABLISHED = 4"
| "tcp_rank TCP_CLOSE_WAIT = 3"
| "tcp_rank TCP_FIN_WAIT1 = 2"
| "tcp_rank TCP_LAST_ACK = 2"
| "tcp_rank TCP_CLOSING = 1"
| "tcp_rank _ = 0"

lemma tcp_step_rank: "tcp_step a b \<Longrightarrow> tcp_rank b < tcp_rank a"
  by (induction rule: tcp_step.induct) auto

lemma tcp_path_rank: "tcp_path a b \<Longrightarrow> a = b \<or> tcp_rank b < tcp_rank a"
  by (induction rule: rtranclp_induct) (auto dest: tcp_step_rank)

lemma tcp_path_antisym: "tcp_path a b \<Longrightarrow> tcp_path b a \<Longrightarrow> a = b"
  using tcp_path_rank [of a b] tcp_path_rank [of b a] by auto

lemma tcp_path_closing: "a \<in> live_states \<Longrightarrow> a \<noteq> TCP_CLOSE \<Longrightarrow> tcp_path a TCP_CLOSING"
  by (cases "a = TCP_CLOSING") (auto simp: live_states_def intro!: r_into_rtranclp aborted)

lemma tcp_path_live: "tcp_path a b \<Longrightarrow> a \<in> live_states \<Longrightarrow> b \<in> live_states"
  by (induction rule: rtranclp_induct) (auto simp: live_states_def elim: tcp_step.cases)

section \<open>The invariant of a session\<close>

text \<open>
  \<open>tcp_ok sock t\<close>: addresses of the version's length; a session that exchanges data owns an
  open socket, one that waits for the last acknowledgement or is closed owns none; and a
  session whose connection is not yet established is still in its negotiation.
\<close>

definition tcp_ok :: "int \<Rightarrow> tcp_session \<Rightarrow> bool" where
  "tcp_ok sock t \<longleftrightarrow> tcp_wf t \<and> t_state t \<in> live_states \<and> -1 \<le> sock \<and>
     (t_state t \<in> {TCP_LISTEN, TCP_SYN_RECV, TCP_ESTABLISHED, TCP_CLOSE_WAIT} \<longrightarrow> 0 \<le> sock) \<and>
     (t_state t \<in> {TCP_FIN_WAIT1, TCP_LAST_ACK, TCP_CLOSE} \<longrightarrow> sock = -1) \<and>
     (t_state t = TCP_LISTEN \<longrightarrow> t_socks5 t \<noteq> SOCKS5_CONNECTED)"

definition tcp_inv :: "tcp_session ng_session \<Rightarrow> bool" where
  "tcp_inv s \<longleftrightarrow> tcp_ok (s_socket s) (s_body s) \<and> s_protocol s = IPPROTO_TCP"

text \<open>What an operation on a session with a fixed socket does: it keeps the invariant and follows a path.\<close>

definition advances :: "int \<Rightarrow> tcp_session \<Rightarrow> tcp_session \<Rightarrow> bool" where
  "advances sock t t' \<longleftrightarrow> tcp_ok sock t' \<and> tcp_path (t_state t) (t_state t')"

lemma advances_refl: "tcp_ok sock t \<Longrightarrow> advances sock t t"
  by (simp add: advances_def)

lemma advances_trans: "advances sock t t' \<Longrightarrow> advances sock t' t'' \<Longrightarrow> advances sock t t''"
  by (auto simp: advances_def)

lemma tcp_wf_update [simp]:
  "tcp_wf (t\<lparr>t_time := a\<rparr>) = tcp_wf t" "tcp_wf (t\<lparr>t_state := b\<rparr>) = tcp_wf t"
  "tcp_wf (t\<lparr>t_remote_seq := c\<rparr>) = tcp_wf t" "tcp_wf (t\<lparr>t_local_seq := c\<rparr>) = tcp_wf t"
  "tcp_wf (t\<lparr>t_acked := c\<rparr>) = tcp_wf t" "tcp_wf (t\<lparr>t_sent := d\<rparr>) = tcp_wf t"
  "tcp_wf (t\<lparr>t_received := d\<rparr>) = tcp_wf t" "tcp_wf (t\<lparr>t_recv_window := c\<rparr>) = tcp_wf t"
  "tcp_wf (t\<lparr>t_send_window := c\<rparr>) = tcp_wf t" "tcp_wf (t\<lparr>t_unconfirmed := e\<rparr>) = tcp_wf t"
  "tcp_wf (t\<lparr>t_uid := f\<rparr>) = tcp_wf t" "tcp_wf (t\<lparr>t_forward := g\<rparr>) = tcp_wf t"
  "tcp_wf (t\<lparr>t_socks5 := h\<rparr>) = tcp_wf t" "tcp_wf (t\<lparr>t_last_keep_alive := f\<rparr>) = tcp_wf t"
  by (simp_all add: tcp_wf_def)

text \<open>The fields the invariant does not depend on.\<close>

lemma tcp_ok_update [simp]:
  "tcp_ok sock (t\<lparr>t_time := a\<rparr>) = tcp_ok sock t" "tcp_ok sock (t\<lparr>t_remote_seq := c\<rparr>) = tcp_ok sock t"
  "tcp_ok sock (t\<lparr>t_local_seq := c\<rparr>) = tcp_ok sock t" "tcp_ok sock (t\<lparr>t_acked := c\<rparr>) = tcp_ok sock t"
  "tcp_ok sock (t\<lparr>t_sent := d\<rparr>) = tcp_ok sock t" "tcp_ok sock (t\<lparr>t_received := d\<rparr>) = tcp_ok sock t"
  "tcp_ok sock (t\<lparr>t_recv_window := c\<rparr>) = tcp_ok sock t" "tcp_ok sock (t\<lparr>t_send_window := c\<rparr>) = tcp_ok sock t"
  "tcp_ok sock (t\<lparr>t_unconfirmed := e\<rparr>) = tcp_ok sock t" "tcp_ok sock (t\<lparr>t_uid := f\<rparr>) = tcp_ok sock t"
  "tcp_ok sock (t\<lparr>t_forward := g\<rparr>) = tcp_ok sock t" "tcp_ok sock (t\<lparr>t_last_keep_alive := f\<rparr>) = tcp_ok sock t"
  by (simp_all add: tcp_ok_def)

lemma advances_update [simp]:
  "advances sock t0 (t\<lparr>t_time := a\<rparr>) = advances sock t0 t"
  "advances sock t0 (t\<lparr>t_remote_seq := c\<rparr>) = advances sock t0 t"
  "advances sock t0 (t\<lparr>t_local_seq := c\<rparr>) = advances sock t0 t"
  "advances sock t0 (t\<lparr>t_acked := c\<rparr>) = advances sock t0 t"
  "advances sock t0 (t\<lparr>t_sent := d\<rparr>) = advances sock t0 t"
  "advances sock t0 (t\<lparr>t_received := d\<rparr>) = advances sock t0 t"
  "advances sock t0 (t\<lparr>t_recv_window := c\<rparr>) = advances sock t0 t"
  "advances sock t0 (t\<lparr>t_send_window := c\<rparr>) = advances sock t0 t"
  "advances sock t0 (t\<lparr>t_unconfirmed := e\<rparr>) = advances sock t0 t"
  "advances sock t0 (t\<lparr>t_uid := f\<rparr>) = advances sock t0 t"
  "advances sock t0 (t\<lparr>t_forward := g\<rparr>) = advances sock t0 t"
  "advances sock t0 (t\<lparr>t_last_keep_alive := f\<rparr>) = advances sock t0 t"
  by (simp_all add: advances_def)

lemma advances_closing:
  assumes "advances sock t0 t" "t_state t \<noteq> TCP_CLOSE"
  shows "advances sock t0 (t\<lparr>t_state := TCP_CLOSING\<rparr>)"
  using assms tcp_path_closing [of "t_state t"]
  by (auto simp: advances_def tcp_ok_def live_states_def intro: rtranclp_trans)

lemma after_rst_advances: "advances sock t0 t \<Longrightarrow> advances sock t0 (after_rst t)"
  by (auto simp: after_rst_def advances_closing)

lemma wrote_advances:
  assumes "wrote t (t', r)" "advances sock t0 t" "t_state t \<noteq> TCP_CLOSE"
  shows "advances sock t0 t'"
  using assms advances_closing by (auto simp: wrote_def)

text \<open>A step of the automaton that the socket allows.\<close>

lemma advances_state:
  assumes "advances sock t0 t" "tcp_step (t_state t) st"
    and "st \<in> {TCP_FIN_WAIT1, TCP_LAST_ACK, TCP_CLOSE} \<longrightarrow> sock = -1"
    and "st \<in> {TCP_SYN_RECV, TCP_ESTABLISHED, TCP_CLOSE_WAIT} \<longrightarrow> 0 \<le> sock"
  shows "advances sock t0 (t\<lparr>t_state := st\<rparr>)"
proof -
  have "st \<in> live_states - {TCP_LISTEN}" using assms(2) by (auto simp: live_states_def elim: tcp_step.cases)
  moreover have "tcp_path (t_state t0) st" using assms(1,2) by (auto simp: advances_def intro: rtranclp.rtrancl_into_rtrancl)
  moreover have "tcp_wf t" "-1 \<le> sock" using assms(1) by (simp_all add: advances_def tcp_ok_def)
  ultimately show ?thesis using assms(3,4) by (simp add: advances_def tcp_ok_def)
qed

section \<open>Results of programs that write packets\<close>

lemma returns_bind_wrote:
  assumes "\<And>t' r. wrote t (t', r) \<Longrightarrow> returns P (f (t', r))"
  shows "returns P (State_Monad.bind (write_syn_ack args t) f)" "returns P (State_Monad.bind (write_ack args t) f)"
    "returns P (State_Monad.bind (write_data args t data) f)" "returns P (State_Monad.bind (write_fin_ack args t) f)"
  using assms by (auto intro!: returns_bind_strong [OF returns_tcp_writers(1)]
      returns_bind_strong [OF returns_tcp_writers(2)] returns_bind_strong [OF returns_tcp_writers(3)]
      returns_bind_strong [OF returns_tcp_writers(4)])

lemma returns_bind_rst:
  "returns P (f (after_rst t)) \<Longrightarrow> returns P (State_Monad.bind (write_rst args t) f)"
  by (auto intro!: returns_bind_strong [OF returns_write_rst])

lemma returns_rst: "P (after_rst t) \<Longrightarrow> returns P (write_rst args t)"
  by (auto intro!: returns_mono [OF returns_write_rst])

lemmas returns_writers = returns_bind_wrote returns_bind_rst returns_rst

section \<open>Every operation advances the session\<close>

lemma advances_moves [simp]:
  assumes "advances sock t0 t"
  shows "t_state t = TCP_LISTEN \<Longrightarrow> advances sock t0 (t\<lparr>t_state := TCP_SYN_RECV\<rparr>)"
    "t_state t = TCP_SYN_RECV \<Longrightarrow> advances sock t0 (t\<lparr>t_state := TCP_ESTABLISHED\<rparr>)"
    "t_state t = TCP_ESTABLISHED \<Longrightarrow> advances sock t0 (t\<lparr>t_state := TCP_CLOSE_WAIT\<rparr>)"
    "t_state t = TCP_FIN_WAIT1 \<Longrightarrow> advances sock t0 (t\<lparr>t_state := TCP_CLOSE\<rparr>)"
    "t_state t \<noteq> TCP_CLOSE \<Longrightarrow> advances sock t0 (t\<lparr>t_state := TCP_CLOSING\<rparr>)"
  using assms
  by (rule advances_state advances_closing, simp_all add: tcp_step.intros; simp add: advances_def tcp_ok_def)+

lemma wrote_cases:
  "wrote t (t', r) \<longleftrightarrow> t' = t \<and> r = 0 \<or> t' = t\<lparr>t_state := TCP_CLOSING\<rparr> \<and> r = -1"
  by (auto simp: wrote_def)

lemma returns_in_sequence:
  assumes "tcp_ok sock t" "\<not> closing t"
  shows "returns (\<lambda>(t', r). advances sock t t') (tcp_in_sequence args t h)"
  unfolding tcp_in_sequence_def Let_def
  by (intro returns_if returns_return returns_writers returns_case_prod)
    (use assms in \<open>auto simp: advances_refl wrote_cases\<close>)

lemma returns_other_ack:
  assumes "tcp_ok sock t" "\<not> closing t"
  shows "returns (\<lambda>(t', r). advances sock t t') (tcp_other_ack args fd t h)"
  unfolding tcp_other_ack_def Let_def
  by (intro returns_if returns_return returns_writers returns_bind)
    (use assms in \<open>auto simp: advances_refl wrote_cases after_rst_advances\<close>)

lemma queue_tcp_advances [simp]: "advances sock t0 (queue_tcp t seq psh data) = advances sock t0 t"
  "t_state (queue_tcp t seq psh data) = t_state t"
  by (simp_all add: queue_tcp_def)

lemma returns_tcp_found:
  assumes "tcp_ok (s_socket cur) (s_body cur)"
  shows "returns (\<lambda>(t', r). advances (s_socket cur) (s_body cur) t')
    (tcp_found args pkt len payload h uid allowed cur)"
proof -
  let ?A = "advances (s_socket cur) (s_body cur)"
  have seq: "returns (\<lambda>(t', r). ?A t') (tcp_in_sequence args t h)"
     "returns (\<lambda>(t', r). ?A t') (tcp_other_ack args fd t h)"
    if "?A t" "\<not> closing t" for t fd
    using that returns_in_sequence [of "s_socket cur" t args h] returns_other_ack [of "s_socket cur" t args fd h]
    by (auto simp: advances_def elim!: returns_mono intro: rtranclp_trans)
  show ?thesis
    unfolding tcp_found_def Let_def
    apply (rule returns_if returns_return returns_writers)+
    using assms
    apply (simp add: advances_refl after_rst_advances)
    apply (rule returns_if returns_return returns_writers)+
    using assms
    apply (simp add: advances_refl after_rst_advances)
    apply (rule returns_bind_strong [where R = "\<lambda>t. ?A t \<and> \<not> closing t"])
    subgoal using assms by (auto simp: advances_refl intro!: returns_rules)
    apply (rule returns_if)
    subgoal by (auto simp: after_rst_advances intro!: returns_return returns_writers)
    apply (rule returns_bind_strong [where R = "\<lambda>t. ?A t \<and> \<not> closing t"])
    subgoal by (auto simp: advances_refl intro!: returns_rules)
    apply (auto intro!: returns_if returns_return seq)
    done
qed

text \<open>Between the two halves of the negotiation a connected session has still to be answered.\<close>

definition negotiating :: "int \<Rightarrow> tcp_session \<Rightarrow> bool" where
  "negotiating sock t \<longleftrightarrow> tcp_wf t \<and> 0 \<le> sock \<and>
     (t_state t = TCP_LISTEN \<or> t_state t = TCP_CLOSING \<and> t_socks5 t \<noteq> SOCKS5_CONNECTED)"

lemma returns_socks5_receive:
  assumes "tcp_ok (s_socket s) (s_body s)" "t_state (s_body s) = TCP_LISTEN"
  shows "returns (negotiating (s_socket s)) (socks5_receive args s events)"
  unfolding socks5_receive_def Let_def
  by (intro returns_if returns_return returns_writers returns_bind)
    (use assms in \<open>auto simp: negotiating_def tcp_ok_def after_rst_def\<close>)

lemma listen_paths [simp]: "tcp_path TCP_LISTEN TCP_SYN_RECV" "tcp_path TCP_LISTEN TCP_CLOSING"
  by (rule tcp_path1, rule tcp_step.intros; simp)+

lemma negotiating_end:
  assumes "tcp_wf t" "0 \<le> sock" "t_state t \<in> {TCP_LISTEN, TCP_SYN_RECV, TCP_CLOSING}"
    and "t_state t = TCP_LISTEN \<longrightarrow> t_socks5 t \<noteq> SOCKS5_CONNECTED"
  shows "tcp_ok sock t \<and> tcp_path TCP_LISTEN (t_state t)"
  using assms by (auto simp: tcp_ok_def live_states_def)

lemma after_rst_wf [simp]: "tcp_wf (after_rst t) = tcp_wf t"
  by (simp add: tcp_wf_def)

lemma after_rst_socks5 [simp]: "t_socks5 (after_rst t) = t_socks5 t"
  by (simp add: after_rst_def)

lemma returns_socks5_advance:
  assumes "negotiating sock t"
  shows "returns (\<lambda>t'. tcp_ok sock t' \<and> tcp_path TCP_LISTEN (t_state t')) (socks5_advance args fd t)"
  unfolding socks5_advance_def socks5_send_def
  by (intro returns_if returns_return returns_writers returns_bind returns_case_prod negotiating_end)
    (use assms in \<open>auto simp: negotiating_def wrote_cases\<close>)

lemma returns_tcp_forward:
  assumes "advances sock t0 t"
  shows "returns (\<lambda>(t', fwd). advances sock t0 t') (tcp_forward args fd n fwd t q)"
  using assms
proof (induction q arbitrary: n fwd t)
  case Nil
  then show ?case by (auto intro!: returns_return)
next
  case (Cons seg q)
  show ?case 
    unfolding tcp_forward.simps Let_def
    apply (intro returns_if returns_return returns_writers returns_bind Cons.IH)
    using Cons.prems
    by (auto simp: after_rst_advances)
qed

lemma returns_tcp_acknowledge:
  assumes "tcp_ok (s_socket s) (s_body s)" "t_state (s_body s) \<noteq> TCP_CLOSE"
  shows "returns (advances (s_socket s) (s_body s)) (tcp_acknowledge args s fwd)"
  unfolding tcp_acknowledge_def Let_def
  apply (rule returns_bind)
  apply (intro returns_if returns_return returns_writers(2) returns_case_prod)
  using assms
  apply (auto simp: wrote_cases advances_refl  intro!: returns_rules)
  done


text \<open>The operations that may give up the socket.\<close>

definition session_advances :: "tcp_session ng_session \<Rightarrow> tcp_session ng_session \<Rightarrow> bool" where
  "session_advances s s' \<longleftrightarrow> tcp_inv s' \<and> tcp_path (t_state (s_body s)) (t_state (s_body s')) \<and>
     s_addr s' = s_addr s \<and> s_protocol s' = s_protocol s \<and> (s_socket s' = s_socket s \<or> s_socket s' = -1)"

lemma session_advancesI:
  "s_protocol s = IPPROTO_TCP \<Longrightarrow> advances (s_socket s) (s_body s) t \<Longrightarrow> session_advances s (s\<lparr>s_body := t\<rparr>)"
  by (simp add: session_advances_def advances_def tcp_inv_def)

lemma returns_tcp_eof:
  assumes "tcp_inv s" "t_state (s_body s) \<in> {TCP_ESTABLISHED, TCP_CLOSE_WAIT}"
  shows "returns (session_advances s) (tcp_eof args s)"
proof -
  have ok: "tcp_wf (s_body s)" and tag: "s_protocol s = IPPROTO_TCP" using assms by (simp_all add: tcp_inv_def tcp_ok_def)
  have p: "tcp_path TCP_ESTABLISHED TCP_FIN_WAIT1" "tcp_path TCP_ESTABLISHED TCP_CLOSING"
    "tcp_path TCP_CLOSE_WAIT TCP_CLOSING" "tcp_path TCP_CLOSE_WAIT TCP_LAST_ACK"
    by (rule tcp_path1, rule tcp_step.intros; simp)+
  let ?R = "\<lambda>t. tcp_wf t \<and> tcp_path (t_state (s_body s)) (t_state t) \<and> t_state t \<in> {TCP_FIN_WAIT1, TCP_LAST_ACK, TCP_CLOSING}"
  show ?thesis
    unfolding tcp_eof_def
    apply (rule returns_bind_strong [where R = ?R])
    apply (intro returns_if returns_return returns_writers returns_case_prod returns_let)
    using assms(2) ok p apply (auto simp: wrote_cases)[2]
    by (intro returns_rules) (auto simp: session_advances_def tcp_inv_def tcp_ok_def live_states_def tag)
qed

lemma returns_tcp_received:
  assumes "tcp_inv s" "t_state (s_body s) \<noteq> TCP_CLOSE"
  shows "returns (session_advances s) (tcp_received args s n data)"
  unfolding tcp_received_def Let_def
  apply (rule returns_bind)
  apply (rule returns_writers(3))
  apply (intro returns_case_prod returns_bind returns_return session_advancesI)
  using assms
  by (auto simp: tcp_inv_def wrote_cases advances_refl)

lemma session_advances_body:
  assumes "returns (session_advances (s\<lparr>s_body := t\<rparr>)) m" "advances (s_socket s) (s_body s) t"
  shows "returns (session_advances s) m"
  using assms by (auto simp: session_advances_def advances_def elim!: returns_mono)

lemma returns_tcp_read:
  assumes "tcp_inv s" "t_state (s_body s) \<in> {TCP_ESTABLISHED, TCP_CLOSE_WAIT}"
  shows "returns (session_advances s) (tcp_read args s events)"
proof -
  let ?s = "\<lambda>now. s\<lparr>s_body := (s_body s)\<lparr>t_time := now\<rparr>\<rparr>"
  have a: "advances (s_socket s) (s_body s) ((s_body s)\<lparr>t_time := now\<rparr>)" for now
    using assms(1) by (simp add: tcp_inv_def advances_refl)
  have "returns (session_advances s) (tcp_eof args (?s now))" for now
    using assms by (intro session_advances_body [OF returns_tcp_eof a]) (auto simp: tcp_inv_def)
  moreover have "returns (session_advances s) (tcp_received args (?s now) n d)" for now n d
    using assms by (intro session_advances_body [OF returns_tcp_received a]) (auto simp: tcp_inv_def)
  moreover have "session_advances s s" using assms by (simp add: session_advances_def)
  ultimately show ?thesis
    unfolding tcp_read_def Let_def
    apply (intro returns_if returns_return returns_writers returns_bind)
    using assms a apply (auto simp: tcp_inv_def session_advancesI after_rst_advances)
    done
qed

lemma session_advances_trans:
  "session_advances s s' \<Longrightarrow> session_advances s' s'' \<Longrightarrow> session_advances s s''"
  by (auto simp: session_advances_def)

lemma returns_check_tcp_socket:
  assumes "tcp_inv s" "0 \<le> s_socket s"
  shows "returns (session_advances s) (check_tcp_socket args s events)"
proof (cases "t_state (s_body s) = TCP_LISTEN")
  case True
  have "returns (session_advances s) (do { t \<leftarrow> socks5_receive args s events;
      t \<leftarrow> socks5_advance args (s_socket s) t; State_Monad.return (s\<lparr>s_body := t\<rparr>) })"
    using assms(1) True
    by (intro returns_bind_strong [OF returns_socks5_receive] returns_bind_strong [OF returns_socks5_advance]
        returns_return session_advancesI) (simp_all add: tcp_inv_def advances_def)
  with True assms show ?thesis
    unfolding check_tcp_socket_def
    by (auto intro!: returns_bind returns_writers returns_return session_advancesI after_rst_advances
        simp: tcp_inv_def advances_refl)
next
  case False
  let ?A = "advances (s_socket s) (s_body s)"
  have nc: "?A t \<Longrightarrow> t_state t \<noteq> TCP_CLOSE" for t
    using assms(2) by (auto simp: advances_def tcp_ok_def)
  have fwd: "returns (\<lambda>(t, fwd). ?A t) (if events AND EPOLLOUT \<noteq> 0 then do {
            buffer_size \<leftarrow> get_receive_buffer args (s_socket s);
            tcp_forward args (s_socket s) buffer_size False (s_body s) (t_forward (s_body s))
          }
          else State_Monad.return (s_body s, False))"
    using assms(1)
    by (intro returns_if returns_bind returns_tcp_forward returns_return) (simp_all add: tcp_inv_def advances_refl)
  have ack: "returns ?A (tcp_acknowledge args (s\<lparr>s_body := t\<rparr>) fwd)" if "?A t" for t fwd
    using returns_tcp_acknowledge [of "s\<lparr>s_body := t\<rparr>" args fwd] that nc [OF that]
    by (auto elim!: returns_mono simp: advances_def intro: rtranclp_trans)
  have read: "returns (session_advances s) (tcp_read args (s\<lparr>s_body := t\<rparr>) events)"
    if "?A t" "t_state t = TCP_ESTABLISHED \<or> t_state t = TCP_CLOSE_WAIT" for t
    using that assms(1) by (intro session_advances_body [OF returns_tcp_read]) (auto simp: tcp_inv_def advances_def)
  have "returns (session_advances s) (do {
        (t, fwd) \<leftarrow> (if events AND EPOLLOUT \<noteq> 0 then do {
            buffer_size \<leftarrow> get_receive_buffer args (s_socket s);
            tcp_forward args (s_socket s) buffer_size False (s_body s) (t_forward (s_body s))
          }
          else State_Monad.return (s_body s, False));
        t \<leftarrow> tcp_acknowledge args (s\<lparr>s_body := t\<rparr>) fwd;
        let s = s\<lparr>s_body := t\<rparr>;
        if t_state t = TCP_ESTABLISHED \<or> t_state t = TCP_CLOSE_WAIT
        then tcp_read args s events
        else State_Monad.return s
      })"
    unfolding Let_def
    by (rule returns_bind_strong [OF fwd], rule returns_case_prod, rule returns_bind_strong [OF ack])
      (use assms(1) in \<open>auto simp: tcp_inv_def intro!: returns_if read returns_return session_advancesI\<close>)
  with False assms show ?thesis
    unfolding check_tcp_socket_def
    by (auto intro!: returns_bind returns_writers returns_return session_advancesI after_rst_advances
        simp: tcp_inv_def advances_refl)
qed

lemma returns_keep_alive:
  assumes "tcp_ok sock t" "t_state t \<noteq> TCP_CLOSE"
  shows "returns (advances sock t) (tcp_keep_alive args t)"
  unfolding tcp_keep_alive_def
  by (rule returns_bind; intro returns_if returns_return returns_writers returns_case_prod)
    (use assms in \<open>auto simp: advances_refl wrote_cases\<close>)

lemma returns_tcp_events:
  assumes "tcp_ok (s_socket s) (s_body s)"
  shows "returns (\<lambda>(t, _). advances (s_socket s) (s_body s) t) (tcp_events args s)"
proof -
  have "returns (\<lambda>(t, _). advances (s_socket s) (s_body s) t) (if get_send_window (s_body s) > 0
      then State_Monad.return (s_body s, EPOLLERR OR EPOLLIN, False)
      else do { t \<leftarrow> tcp_keep_alive args (s_body s); State_Monad.return (t, EPOLLERR, True) })"
    if "t_state (s_body s) \<noteq> TCP_CLOSE"
    using that assms
    by (auto intro!: returns_if returns_return returns_bind_strong [OF returns_keep_alive [where sock = "s_socket s"]]
        simp: advances_refl)
  note k = returns_bind_strong [OF this]
  show ?thesis
    unfolding tcp_events_def Let_def
    by (rule returns_if [OF _ returns_if [OF k]])
      (use assms in \<open>auto simp: advances_refl split: list.split intro!: returns_rules\<close>)
qed

lemma returns_monitor_tcp_session:
  assumes "tcp_inv s" "0 \<le> s_socket s"
  shows "returns (\<lambda>(s', recheck). session_advances s s' \<and> s_socket s' = s_socket s) (monitor_tcp_session args s)"
proof -
  have ok: "tcp_ok (s_socket s) (s_body s)" using assms(1) by (simp add: tcp_inv_def)
  have "t_state t \<noteq> TCP_CLOSE" if "advances (s_socket s) (s_body s) t" for t
    using that assms(2) by (auto simp: advances_def tcp_ok_def)
  then have c: "advances (s_socket s) (s_body s) (t\<lparr>t_state := TCP_CLOSING\<rparr>)"
    if "advances (s_socket s) (s_body s) t" for t
    using that by simp
  have "session_advances s (s\<lparr>s_body := t, s_events := e\<rparr>)"
      "session_advances s (s\<lparr>s_events := e, s_body := t\<lparr>t_state := TCP_CLOSING\<rparr>\<rparr>)"
    if "advances (s_socket s) (s_body s) t" for t e
    using assms(1) that c [OF that] by (simp_all add: session_advances_def tcp_inv_def advances_def)
  then show ?thesis
    unfolding monitor_tcp_session_def Let_def
    by (intro returns_bind_strong [OF returns_tcp_events [OF ok]])
      (use assms(1) in \<open>auto simp: tcp_inv_def intro!: returns_rules session_advancesI c\<close>)
qed

lemma wp_write_rst:
  assumes "\<And>es. \<forall>e \<in> set es. is_tun_call (fst e) \<Longrightarrow> Q (after_rst t) (w\<lparr>w_trace := es @ w_trace w\<rparr>)"
  shows "wp (write_rst args t) Q w"
  by (rule wp_summary [OF emits_tcp_writers(5) frame_tcp_writers(5) returns_write_rst, of is_tun_call])
    (auto intro: assms)

lemma closed_fds_append: "closed_fds (es @ es') = closed_fds es @ closed_fds es'"
  by (induction es rule: closed_fds.induct) auto

lemma closed_fds_tun: "\<forall>e \<in> set es. is_tun_call (fst e) \<Longrightarrow> closed_fds es = []"
proof (induction es)
  case (Cons e es)
  then show ?case by (cases e; cases "fst e") (auto simp: is_tun_call_def)
qed simp

lemma session_advances_counters [simp]:
  "session_advances s (s'\<lparr>s_body := (s_body s')\<lparr>t_sent := a, t_received := b\<rparr>\<rparr>) = session_advances s s'"
  by (simp add: session_advances_def tcp_inv_def)

lemma closing_path:
  "tcp_path a b \<Longrightarrow> a \<in> {TCP_CLOSING, TCP_CLOSE} \<Longrightarrow> b \<in> {TCP_CLOSING, TCP_CLOSE}"
  by (induction rule: rtranclp_induct) (auto elim: tcp_step.cases)

lemma session_advances_closed:
  "session_advances s s' \<Longrightarrow> t_state (s_body s') = TCP_CLOSE \<Longrightarrow> s_socket s' = -1"
  by (simp add: session_advances_def tcp_inv_def tcp_ok_def)

text \<open>The two halves of the periodic check: the timeout, and the end of a closing session.\<close>

lemma tcp_timeout_wp:
  assumes "tcp_inv s" "b \<longrightarrow> \<not> closing (s_body s)"
    and "\<And>t es. advances (s_socket s) (s_body s) t \<Longrightarrow> (b \<longrightarrow> t_state t = TCP_CLOSING) \<Longrightarrow>
      closed_fds es = [] \<Longrightarrow> Q (s\<lparr>s_body := t\<rparr>) (w\<lparr>w_trace := es @ w_trace w\<rparr>)"
  shows "wp (if b then if t_state (s_body s) = TCP_LISTEN
            then State_Monad.return (s\<lparr>s_body := (s_body s)\<lparr>t_state := TCP_CLOSING\<rparr>\<rparr>)
            else do { t \<leftarrow> write_rst args (s_body s); State_Monad.return (s\<lparr>s_body := t\<rparr>) }
          else State_Monad.return s) Q w"
  using assms(1,2) assms(3) [of "s_body s" "[]"] assms(3) [of _ "[]"] assms(3) [of "after_rst (s_body s)"]
  by (auto simp: tcp_inv_def advances_refl after_rst_advances closed_fds_tun intro!: wp_write_rst)

lemma tcp_closing_wp:
  assumes "tcp_inv s"
    and "\<And>s' es. session_advances s s' \<Longrightarrow> t_state (s_body s') \<noteq> TCP_CLOSING \<Longrightarrow>
        (t_state (s_body s) = TCP_CLOSING \<longrightarrow> t_state (s_body s') = TCP_CLOSE) \<Longrightarrow>
        closed_fds es = (if s_socket s' = s_socket s then [] else [s_socket s]) \<Longrightarrow>
        Q s' (w\<lparr>w_trace := es @ w_trace w\<rparr>)"
  shows "wp (if t_state (s_body s) = TCP_CLOSING then do {
            s \<leftarrow> (if s_socket s \<ge> 0 then do {
                   _ \<leftarrow> syscall args (Call_close (s_socket s));
                   State_Monad.return (s\<lparr>s_socket := -1\<rparr>)
                 }
                 else State_Monad.return s);
            t \<leftarrow> time args;
            State_Monad.return (s\<lparr>s_body := (s_body s)\<lparr>t_time := t, t_state := TCP_CLOSE\<rparr>\<rparr>)
          }
          else State_Monad.return s) Q w"
proof (cases "t_state (s_body s) = TCP_CLOSING")
  case True
  have "tcp_path TCP_CLOSING TCP_CLOSE" by (rule tcp_path1) (rule tcp_step.closed)
  then show ?thesis
    using True assms(1)
    by (auto simp: Let_def session_advances_def tcp_inv_def tcp_ok_def live_states_def
        intro!: assms(2) [where es = "[x]" for x, simplified] assms(2) [where es = "[x, y]" for x y, simplified])
next
  case False
  then show ?thesis using assms(1) assms(2) [of s "[]"] by (simp add: session_advances_def)
qed

lemma check_tcp_session_wp:
  assumes "tcp_inv s"
  shows "wp (check_tcp_session args s n m) (\<lambda>(s', del) w'.
    session_advances s s' \<and> t_state (s_body s') \<noteq> TCP_CLOSING \<and>
    (t_time (s_body s) + get_tcp_timeout (s_body s) n m < ret (a_os args (w_trace w) Call_time) \<longrightarrow>
       t_state (s_body s') = TCP_CLOSE) \<and>
    (del \<longrightarrow> t_state (s_body s') = TCP_CLOSE \<and> s_socket s' = -1) \<and>
    (\<exists>es. w' = w\<lparr>w_trace := es @ w_trace w\<rparr> \<and>
      closed_fds es = (if s_socket s' = s_socket s then [] else [s_socket s]))) w"
  unfolding check_tcp_session_def Let_def wp_bind wp_time
proof (rule tcp_timeout_wp [OF assms], simp, rule tcp_closing_wp, goal_cases)
  case (1 t es1)
  then show ?case using assms by (simp add: tcp_inv_def advances_def)
next
  case (2 t es1 s2 es2)
  let ?a = "a_os args (w_trace w) Call_time" and ?es = "es2 @ es1 @ [(Call_time, a_os args (w_trace w) Call_time)]"
  have adv: "session_advances s s2" using session_advances_trans [OF session_advancesI] 2 assms by (auto simp: tcp_inv_def)
  have close: "t_state (s_body s2) = TCP_CLOSE"
    if "t_time (s_body s) + get_tcp_timeout (s_body s) n m < ret ?a"
  proof (cases "closing (s_body s)")
    case True
    then show ?thesis
      using adv 2(5) closing_path [of "t_state (s_body s)" "t_state (s_body s2)"]
      by (auto simp: session_advances_def)
  qed (use that 2 in auto)
  have "\<exists>es. w\<lparr>w_trace := es2 @ es1 @ (Call_time, ?a) # w_trace w\<rparr> = w\<lparr>w_trace := es @ w_trace w\<rparr> \<and>
      closed_fds es = (if s_socket s2 = s_socket s then [] else [s_socket s])"
    using 2 by (intro exI [of _ ?es]) (auto simp: closed_fds_append)
  then show ?case
    using adv close 2(5) session_advances_closed [OF adv] by auto
qed

section \<open>Claims\<close>

text \<open>
  C6: every operation on a stored TCP session refines the automaton \<^term>\<open>tcp_step\<close> and keeps
  the session invariant (a session that exchanges data owns an open socket, one that waits
  for the last acknowledgement or is closed owns none): the periodic check, the choice of
  events, a socket event and a packet of the application, whatever the kernel and the
  service answer and whatever the packet holds.
\<close>

theorem tcp_operations_refine_automaton:
  assumes "tcp_inv s"
  shows "session_advances s (fst (fst (run_state (check_tcp_session args s n m) w))) \<and>
    session_advances s (s\<lparr>s_body := fst (fst (run_state (tcp_found args pkt len payload h uid allowed s) w))\<rparr>) \<and>
    (0 \<le> s_socket s \<longrightarrow>
       session_advances s (fst (fst (run_state (monitor_tcp_session args s) w))) \<and>
       session_advances s (fst (run_state (check_tcp_socket args s events) w)))"
proof (intro conjI impI)
  show "session_advances s (fst (fst (run_state (check_tcp_session args s n m) w)))"
    using check_tcp_session_wp [OF assms, of args n m w] by (auto simp: wp_run split: prod.splits)
  have "returns (\<lambda>(t', r). advances (s_socket s) (s_body s) t') (tcp_found args pkt len payload h uid allowed s)"
    using assms by (intro returns_tcp_found) (simp add: tcp_inv_def)
  then show "session_advances s (s\<lparr>s_body := fst (fst (run_state (tcp_found args pkt len payload h uid allowed s) w))\<rparr>)"
    using assms by (auto simp: tcp_inv_def returns_def case_prod_beta' intro!: session_advancesI)
  assume "0 \<le> s_socket s"
  with assms show "session_advances s (fst (fst (run_state (monitor_tcp_session args s) w)))"
      "session_advances s (fst (run_state (check_tcp_socket args s events) w))"
    using returns_monitor_tcp_session [of s args] returns_check_tcp_socket [of s args events]
    by (auto simp: returns_def case_prod_beta')
qed

definition web_socket :: "tcp_session ng_session" where
  "web_socket = \<lparr>s_addr = 1, s_protocol = IPPROTO_TCP, s_body = web_session, s_socket = 8, s_events = 12\<rparr>"

lemma web_socket_inv: "tcp_inv web_socket"
  by (simp add: web_socket_def tcp_inv_def tcp_ok_def tcp_wf_def web_session_def addr_len_def live_states_def)

theorem tcp_operations_refine_automaton_witness:
  "session_advances web_socket (fst (fst (run_state (check_tcp_session idle_args web_socket 0 409) empty_world))) \<and>
   session_advances web_socket (fst (run_state (check_tcp_socket idle_args web_socket 4) empty_world))"
  using tcp_operations_refine_automaton [OF web_socket_inv, of idle_args 0 409 empty_world "[]" 0 0
      "get_tcphdr [] 0" 0 True 4]
  by (simp add: web_socket_def)

text \<open>
  C17: the periodic check of a TCP session: after it no session is left closing, a session
  whose idle timeout has passed is closed, only closed sessions without a socket are
  reported for deletion, and a socket is closed exactly once, when the session gives it up.
\<close>

theorem check_tcp_session_closes:
  assumes "tcp_inv s" "run_state (check_tcp_session args s n m) w = ((s', del), w')"
  shows "tcp_inv s' \<and> t_state (s_body s') \<noteq> TCP_CLOSING \<and>
    (t_time (s_body s) + get_tcp_timeout (s_body s) n m < ret (a_os args (w_trace w) Call_time) \<longrightarrow>
       t_state (s_body s') = TCP_CLOSE) \<and>
    (del \<longrightarrow> t_state (s_body s') = TCP_CLOSE \<and> s_socket s' = -1) \<and>
    closed_fds (w_trace w') = (if s_socket s' = s_socket s then [] else [s_socket s]) @ closed_fds (w_trace w)"
  using check_tcp_session_wp [OF assms(1), of args n m w] assms(2)
  by (auto simp: wp_def session_advances_def closed_fds_append)

theorem check_tcp_session_closes_witness:
  "\<exists>s' del w'. run_state (check_tcp_session idle_args web_socket 0 409) empty_world = ((s', del), w') \<and>
     tcp_inv s' \<and> t_state (s_body s') = TCP_CLOSE \<and>
     closed_fds (w_trace w') = (if s_socket s' = s_socket web_socket then [] else [s_socket web_socket]) @
       closed_fds (w_trace empty_world)"
proof -
  obtain s' del w' where r: "run_state (check_tcp_session idle_args web_socket 0 409) empty_world = ((s', del), w')"
    by (metis prod.exhaust)
  have "t_time (s_body web_socket) + get_tcp_timeout (s_body web_socket) 0 409 <
      ret (a_os idle_args (w_trace empty_world) Call_time)"
    by (simp add: web_socket_def web_session_def get_tcp_timeout_def tcp_base_timeout_def tcp_timeout_defs
        idle_args_def idle_os_def signed_divide_int_def)
  with check_tcp_session_closes [OF web_socket_inv r] r show ?thesis by blast
qed

end
