(* ===== verification/Tcp_Options.thy ===== *)
theory Tcp_Options
  imports Tcp_Handle
begin

text \<open>
  The loop over the options of a SYN: on which packets it ends, and that it reads the maximum
  segment size and the window scale of a well-formed list of options.
\<close>

section \<open>Termination\<close>

text \<open>The loop reaches an option that claims the length 0 and is neither padding nor the end.\<close>

inductive stuck_option :: "buf \<Rightarrow> int \<Rightarrow> nat \<Rightarrow> bool" for pkt :: buf where
  zero: "optlen > 0 \<Longrightarrow> get8 pkt off \<notin> {0, 1} \<Longrightarrow> get8 pkt (off + 1) = 0 \<Longrightarrow> stuck_option pkt optlen off"
| nop: "optlen > 0 \<Longrightarrow> get8 pkt off = 1 \<Longrightarrow> stuck_option pkt (optlen - 1) (off + 1) \<Longrightarrow> stuck_option pkt optlen off"
| skip: "optlen > 0 \<Longrightarrow> get8 pkt off \<notin> {0, 1} \<Longrightarrow> get8 pkt (off + 1) \<noteq> 0 \<Longrightarrow>
    stuck_option pkt (optlen - int (unat (get8 pkt (off + 1)))) (off + unat (get8 pkt (off + 1))) \<Longrightarrow>
    stuck_option pkt optlen off"

lemma tcp_opts_over: "\<not> optlen > 0 \<or> get8 pkt off = 0 \<Longrightarrow> tcp_opts pkt optlen off mss ws = Some (mss, ws)"
  by (subst tcp_opts.simps) (auto simp: Let_def)

lemma tcp_opts_nop:
  "optlen > 0 \<Longrightarrow> get8 pkt off = 1 \<Longrightarrow> tcp_opts pkt optlen off mss ws = tcp_opts pkt (optlen - 1) (off + 1) mss ws"
  by (subst tcp_opts.simps) (simp add: Let_def)

lemma tcp_opts_other:
  assumes "optlen > 0" "get8 pkt off \<notin> {0, 1}" "get8 pkt (off + 1) = len"
  shows "tcp_opts pkt optlen off mss ws = tcp_opts pkt (optlen - int (unat len)) (off + unat len)
    (if get8 pkt off = 2 \<and> len = 4 then ntohs (get16 pkt (off + 2)) else mss)
    (if get8 pkt off = 3 \<and> len = 3 then get8 pkt (off + 2) else ws)"
  using assms by (subst tcp_opts.simps) (auto simp: Let_def)

lemma unat_pos: "(x :: u8) \<noteq> 0 \<Longrightarrow> 0 < unat x"
  by (simp add: unat_gt_0)

lemma tcp_opts_ends: "\<not> stuck_option pkt optlen off \<Longrightarrow> tcp_opts pkt optlen off mss ws \<noteq> None"
proof (induction "nat optlen" arbitrary: optlen off mss ws rule: less_induct)
  case less
  have IH: "tcp_opts pkt (optlen - int k) (off + k) mss' ws' \<noteq> None"
    if "0 < optlen" "0 < k" "\<not> stuck_option pkt (optlen - int k) (off + k)" for k mss' ws'
    using that by (intro less.hyps) auto
  let ?k = "unat (get8 pkt (off + 1))"
  consider (over) "\<not> optlen > 0 \<or> get8 pkt off = 0" | (nop) "optlen > 0" "get8 pkt off = 1"
    | (other) "optlen > 0" "get8 pkt off \<notin> {0, 1}" by auto
  then show ?case
  proof cases
    case over
    then show ?thesis by (simp add: tcp_opts_over)
  next
    case nop
    then have "\<not> stuck_option pkt (optlen - int 1) (off + 1)"
      using less.prems stuck_option.nop [of optlen pkt off] by auto
    from IH [OF nop(1) _ this] nop show ?thesis by (simp add: tcp_opts_nop)
  next
    case other
    then have l: "get8 pkt (off + 1) \<noteq> 0" using less.prems stuck_option.zero by blast
    then have "\<not> stuck_option pkt (optlen - int ?k) (off + ?k)"
      using less.prems stuck_option.skip [OF other] by blast
    from IH [OF other(1) unat_pos [OF l] this] show ?thesis
      unfolding tcp_opts_other [OF other refl] by blast
  qed
qed

text \<open>At an option of length 0 the loop repeats itself.\<close>

lemma tcp_opts_zero:
  assumes "optlen > 0" "get8 pkt off \<notin> {0, 1}" "get8 pkt (off + 1) = 0"
  shows "tcp_opts pkt optlen off mss ws = None"
proof (rule ccontr)
  assume "tcp_opts pkt optlen off mss ws \<noteq> None"
  then obtain r where r: "tcp_opts pkt optlen off mss ws = Some r" by blast
  have "\<not> (optlen' > 0 \<and> get8 pkt' off' \<notin> {0, 1} \<and> get8 pkt' (off' + 1) = 0)"
    if "tcp_opts pkt' optlen' off' mss' ws' = Some r'" for pkt' optlen' off' mss' ws' r'
    using that
    by (rule tcp_opts.raw_induct [where P = "\<lambda>p n i _ _ _. \<not> (n > 0 \<and> get8 p i \<notin> {0, 1} \<and> get8 p (i + 1) = 0)", rotated])
      (fastforce simp: Let_def split: if_splits)
  with r assms show False by blast
qed

lemma tcp_opts_stuck: "stuck_option pkt optlen off \<Longrightarrow> tcp_opts pkt optlen off mss ws = None"
proof (induction arbitrary: mss ws rule: stuck_option.induct)
  case (zero optlen off)
  then show ?case by (rule tcp_opts_zero)
next
  case (nop optlen off)
  then show ?case by (simp add: tcp_opts_nop)
next
  case (skip optlen off)
  then show ?case unfolding tcp_opts_other [OF skip(1,2) refl] by blast
qed

section \<open>Reading a well-formed list\<close>

datatype syn_option = Nop | Mss u16 | Wscale u8 | Other u8 buf

text \<open>The encoding of RFC 793: kind, length of the whole option, value in network order.\<close>

fun opt_bytes :: "syn_option \<Rightarrow> buf" where
  "opt_bytes Nop = [1]"
| "opt_bytes (Mss m) = [2, 4] @ st16 (htons m)"
| "opt_bytes (Wscale s) = [3, 3, s]"
| "opt_bytes (Other k d) = [k, word_of_nat (2 + length d)] @ d"

fun opt_ok :: "syn_option \<Rightarrow> bool" where
  "opt_ok (Other k d) \<longleftrightarrow> k \<notin> {0, 1, 2, 3} \<and> length d < 254"
| "opt_ok _ \<longleftrightarrow> True"

text \<open>What a list of options announces: the last value of each kind.\<close>

fun announced :: "syn_option \<Rightarrow> u16 \<times> u8 \<Rightarrow> u16 \<times> u8" where
  "announced (Mss m) (_, s) = (m, s)"
| "announced (Wscale s) (m, _) = (m, s)"
| "announced _ p = p"

lemma get8_append: "get8 (a @ b @ c) (length a + i) = (if i < length b then b ! i else get8 c (i - length b))"
  by (auto simp: get8_def nth_append)

lemma tcp_opts_option:
  assumes "opt_ok x" "length (opt_bytes x) \<le> n"
  shows "tcp_opts (a @ opt_bytes x @ b) (int n) (length a) mss ws =
    tcp_opts (a @ opt_bytes x @ b) (int (n - length (opt_bytes x))) (length a + length (opt_bytes x))
      (fst (announced x (mss, ws))) (snd (announced x (mss, ws)))"
proof (cases x)
  case Nop
  then show ?thesis
    using assms(2) get8_append [of a "opt_bytes x" b 0]
    by (simp add: tcp_opts_nop of_nat_diff)
next
  case (Mss m)
  let ?p = "a @ opt_bytes x @ b"
  have g: "get8 ?p (length a) = 2" "get8 ?p (length a + 1) = 4" "get16 ?p (length a + 2) = htons m"
    using get8_append [of a "opt_bytes x" b 0] get8_append [of a "opt_bytes x" b 1]
      get8_append [of a "opt_bytes x" b 2] get8_append [of a "opt_bytes x" b 3] Mss
    by (simp_all add: get16_def st16_def le16_split numeral_3_eq_3)
  show ?thesis
    using tcp_opts_other [of "int n" ?p "length a" 4 mss ws] g assms(2) Mss by (simp add: of_nat_diff)
next
  case (Wscale s)
  let ?p = "a @ opt_bytes x @ b"
  have g: "get8 ?p (length a) = 3" "get8 ?p (length a + 1) = 3" "get8 ?p (length a + 2) = s"
    using get8_append [of a "opt_bytes x" b 0] get8_append [of a "opt_bytes x" b 1]
      get8_append [of a "opt_bytes x" b 2] Wscale by simp_all
  show ?thesis
    using tcp_opts_other [of "int n" ?p "length a" 3 mss ws] g assms(2) Wscale
    by (simp add: of_nat_diff numeral_3_eq_3 [symmetric] Suc3_eq_add_3 add.commute)
next
  case (Other k d)
  let ?p = "a @ opt_bytes x @ b"
  have g: "get8 ?p (length a) = k" "get8 ?p (length a + 1) = word_of_nat (2 + length d)"
    using get8_append [of a "opt_bytes x" b 0] get8_append [of a "opt_bytes x" b 1] Other by simp_all
  have "unat (word_of_nat (2 + length d) :: u8) = 2 + length d"
    using assms(1) Other by (subst unat_of_nat) simp
  then show ?thesis
    using tcp_opts_other [of "int n" ?p "length a" "word_of_nat (2 + length d)" mss ws] g assms Other
    by (simp add: of_nat_diff del: of_nat_add of_nat_Suc)
qed

lemma tcp_opts_encoded:
  assumes "\<forall>x \<in> set xs. opt_ok x" "length (concat (map opt_bytes xs)) \<le> n"
  shows "tcp_opts (a @ concat (map opt_bytes xs) @ b) (int n) (length a) mss ws =
    tcp_opts (a @ concat (map opt_bytes xs) @ b) (int (n - length (concat (map opt_bytes xs))))
      (length a + length (concat (map opt_bytes xs)))
      (fst (fold announced xs (mss, ws))) (snd (fold announced xs (mss, ws)))"
  using assms
proof (induction xs arbitrary: a n mss ws)
  case (Cons x xs)
  let ?r = "concat (map opt_bytes xs)"
  have "tcp_opts (a @ opt_bytes x @ ?r @ b) (int n) (length a) mss ws =
      tcp_opts (a @ opt_bytes x @ ?r @ b) (int (n - length (opt_bytes x))) (length a + length (opt_bytes x))
        (fst (announced x (mss, ws))) (snd (announced x (mss, ws)))"
    using Cons.prems by (intro tcp_opts_option) simp_all
  also have "\<dots> = tcp_opts ((a @ opt_bytes x) @ ?r @ b) (int (n - length (opt_bytes x) - length ?r))
      (length (a @ opt_bytes x) + length ?r) (fst (fold announced xs (announced x (mss, ws))))
      (snd (fold announced xs (announced x (mss, ws))))"
    using Cons.IH [of "n - length (opt_bytes x)" "a @ opt_bytes x"] Cons.prems by simp
  finally show ?case by (simp add: add.assoc)
qed simp

section \<open>Claims\<close>

text \<open>
  C30: the loop over the options of a SYN returns exactly when it meets no option of kind 2 or
  more with the length byte 0; on a packet with such an option, which any application can
  send, it never ends.
\<close>

theorem tcp_opts_terminates_iff:
  "(\<exists>r. tcp_opts pkt optlen off mss ws = Some r) \<longleftrightarrow> \<not> stuck_option pkt optlen off"
  using tcp_opts_ends [of pkt optlen off mss ws] tcp_opts_stuck [of pkt optlen off mss ws] by auto

text \<open>
  C31: on a well-formed list of options the loop returns the maximum segment size and the
  window scale the list announces (the last ones, or the defaults), wherever the options
  stand in the packet and whether they fill the header or end with an end-of-list byte.
\<close>

theorem tcp_opts_roundtrip:
  assumes "\<forall>x \<in> set xs. opt_ok x" "n = length (concat (map opt_bytes xs))"
  shows "tcp_opts (a @ concat (map opt_bytes xs) @ b) (int n) (length a) mss ws =
      Some (fold announced xs (mss, ws)) \<and>
    tcp_opts (a @ concat (map opt_bytes xs) @ 0 # b) (int n + 1 + int k) (length a) mss ws =
      Some (fold announced xs (mss, ws))"
proof -
  let ?e = "concat (map opt_bytes xs)"
  have z: "get8 (a @ ?e @ 0 # b) (length a + n) = 0" using assms(2) get8_append [of a ?e "0 # b" n]
    by (simp add: get8_def)
  have "tcp_opts (a @ ?e @ 0 # b) (int (n + 1 + k)) (length a) mss ws = Some (fold announced xs (mss, ws))"
    using tcp_opts_encoded [OF assms(1), of "n + 1 + k" a "0 # b" mss ws] z assms(2)
    by (simp add: tcp_opts_over)
  moreover have "tcp_opts (a @ ?e @ b) (int n) (length a) mss ws = Some (fold announced xs (mss, ws))"
    using tcp_opts_encoded [OF assms(1), of n a b mss ws] assms(2) by (simp add: tcp_opts_over)
  ultimately show ?thesis by (simp add: algebra_simps)
qed

theorem tcp_opts_roundtrip_witness:
  "tcp_opts ([0, 0] @ concat (map opt_bytes [Mss 1460, Other 4 [], Nop, Wscale 7]) @ []) 10 (length [0 :: u8, 0]) 9960 0 =
     Some (1460, 7)"
  using tcp_opts_roundtrip [of "[Mss 1460, Other 4 [], Nop, Wscale 7]" 10 "[0, 0]" "[]" 9960 0 0]
  by (simp add: st16_def)

end
