(* ===== verification/Tcp_Stream.thy ===== *)
theory Tcp_Stream
  imports Tcp_Machine
begin

text \<open>
  The byte stream of a TCP session from the application to the server: what the forwarding
  loop of \<open>check_tcp_socket\<close> sends is what was queued, in order and without loss, and when
  it makes progress.
\<close>

section \<open>Bytes to be sent and bytes sent\<close>

definition pending :: "segment list \<Rightarrow> buf" where
  "pending q = concat (map (\<lambda>s. drop (unat (seg_sent s)) (seg_data s)) q)"

lemma pending_simps [simp]:
  "pending [] = []" "pending (s # q) = drop (unat (seg_sent s)) (seg_data s) @ pending q"
  by (simp_all add: pending_def)

text \<open>The bytes the kernel accepted on a socket in a trace, oldest first.\<close>

fun sent_bytes :: "int \<Rightarrow> event list \<Rightarrow> buf" where
  "sent_bytes fd [] = []"
| "sent_bytes fd ((Call_send f d m, a) # es) =
     sent_bytes fd es @ (if f = fd \<and> 0 \<le> ret a then take (nat (ret a)) d else [])"
| "sent_bytes fd (e # es) = sent_bytes fd es"

lemma sent_bytes_append: "sent_bytes fd (es @ es') = sent_bytes fd es' @ sent_bytes fd es"
  by (induction es rule: sent_bytes.induct) auto

lemma sent_bytes_none:
  "\<forall>e \<in> set es. \<forall>f d m. fst e \<noteq> Call_send f d m \<Longrightarrow> sent_bytes fd es = []"
proof (induction es)
  case (Cons e es)
  then show ?case by (cases e; cases "fst e") auto
qed simp

lemma t_sent_after_rst [simp]: "t_sent (after_rst t) = t_sent t"
  by (simp add: after_rst_def)

lemma sent_bytes_tun [simp]: "\<forall>e \<in> set es. is_tun_call (fst e) \<Longrightarrow> sent_bytes fd es = []"
  by (rule sent_bytes_none) (auto simp: is_tun_call_def)

text \<open>\<open>send\<close> returns an error or the number of bytes taken, at most those given.\<close>

definition send_bounded :: "arguments \<Rightarrow> bool" where
  "send_bounded args \<longleftrightarrow> (\<forall>tr fd d m. ret (a_os args tr (Call_send fd d m)) \<le> int (length d))"

text \<open>A kernel with room in its buffer takes all of them.\<close>

definition send_complete :: "arguments \<Rightarrow> bool" where
  "send_complete args \<longleftrightarrow> (\<forall>tr fd d m. ret (a_os args tr (Call_send fd d m)) = int (length d))"

section \<open>One segment\<close>

lemma seg_remaining:
  assumes "seg_ok s"
  shows "unat (u16to32 (seg_len s) - u16to32 (seg_sent s)) = unat (seg_len s) - unat (seg_sent s)"
    and "unat (seg_sent s) + unat (u16to32 (seg_len s) - u16to32 (seg_sent s)) \<le> length (seg_data s)"
    and "take (unat (u16to32 (seg_len s) - u16to32 (seg_sent s))) (drop (unat (seg_sent s)) (seg_data s)) =
      drop (unat (seg_sent s)) (seg_data s)"
proof -
  have le: "unat (seg_sent s) \<le> unat (seg_len s)" using assms by (simp add: seg_ok_def word_le_nat_alt)
  then have "u16to32 (seg_sent s) \<le> u16to32 (seg_len s)" by (simp add: word_le_nat_alt)
  then show d: "unat (u16to32 (seg_len s) - u16to32 (seg_sent s)) = unat (seg_len s) - unat (seg_sent s)"
    by (simp add: unat_sub)
  show "unat (seg_sent s) + unat (u16to32 (seg_len s) - u16to32 (seg_sent s)) \<le> length (seg_data s)"
      "take (unat (u16to32 (seg_len s) - u16to32 (seg_sent s))) (drop (unat (seg_sent s)) (seg_data s)) =
      drop (unat (seg_sent s)) (seg_data s)"
    using assms le unfolding d by (simp_all add: seg_ok_def)
qed

text \<open>A segment after \<open>r\<close> more of its bytes were sent.\<close>

lemma seg_sent_more:
  assumes "seg_ok s" "0 \<le> r" "r \<le> int (unat (seg_len s) - unat (seg_sent s))"
  shows "unat (seg_sent s + word_of_int r) = unat (seg_sent s) + nat r"
    and "seg_ok (s\<lparr>seg_sent := seg_sent s + word_of_int r\<rparr>)"
proof -
  have le: "unat (seg_sent s) \<le> unat (seg_len s)" using assms(1) by (simp add: seg_ok_def word_le_nat_alt)
  have "r < 65536" using assms(3) le unat_lt_65536 [of "seg_len s"] by linarith
  then have r: "unat (word_of_int r :: u16) = nat r"
    using assms(2) unat_of_nat [where 'a = 16, of "nat r"] by simp
  have n: "unat (seg_sent s) + nat r \<le> unat (seg_len s)" using assms(2,3) le by linarith
  have "unat (seg_sent s) + nat r < 65536"
    using n unat_lt_65536 [of "seg_len s"] by (rule le_less_trans)
  with r show u: "unat (seg_sent s + word_of_int r) = unat (seg_sent s) + nat r"
    by (subst unat_plus_u16) simp_all
  show "seg_ok (s\<lparr>seg_sent := seg_sent s + word_of_int r\<rparr>)"
    using assms(1) n by (simp add: seg_ok_def word_le_nat_alt u)
qed

section \<open>The forwarding loop\<close>

text \<open>The call the loop makes for a segment that is ready, and the three answers to it.\<close>

definition send_call :: "int \<Rightarrow> segment \<Rightarrow> call" where
  "send_call sock seg = Call_send sock (drop (unat (seg_sent seg)) (seg_data seg)) (\<not> seg_psh seg)"

lemma wp_load_segment:
  assumes "seg_ok seg"
  shows "wp (load (seg_data seg) (unat (seg_sent seg)) (unat (u16to32 (seg_len seg) - u16to32 (seg_sent seg)))) Q =
    Q (drop (unat (seg_sent seg)) (seg_data seg))"
  using seg_remaining(2,3) [OF assms] by (simp add: fun_eq_iff)

lemma tcp_forward_sent:
  assumes "head_ready t seg n" "seg_ok seg" "a_os args (w_trace w) (send_call sock seg) = a" "0 \<le> ret a"
  shows "wp (tcp_forward args sock n fwd t (seg # q)) Q w =
    (if seg_len seg = seg_sent seg + word_of_int (ret a)
     then wp (tcp_forward args sock (n - word_of_int (ret a)) True
       (t\<lparr>t_sent := t_sent t + word_of_int (ret a),
          t_remote_seq := seg_seq seg + u16to32 (seg_sent seg + word_of_int (ret a))\<rparr>) q) Q
       (w\<lparr>w_trace := (send_call sock seg, a) # w_trace w\<rparr>)
     else Q (t\<lparr>t_sent := t_sent t + word_of_int (ret a),
               t_forward := seg\<lparr>seg_sent := seg_sent seg + word_of_int (ret a)\<rparr> # q\<rparr>, True)
       (w\<lparr>w_trace := (send_call sock seg, a) # w_trace w\<rparr>))"
  using assms by (simp add: wp_load_segment send_call_def [symmetric] Let_def del: wp_load)

lemma tcp_forward_failed:
  assumes "head_ready t seg n" "seg_ok seg" "a_os args (w_trace w) (send_call sock seg) = a" "ret a < 0"
  shows "wp (tcp_forward args sock n fwd t (seg # q)) Q w =
    (if errno a = EINTR \<or> errno a = EAGAIN
     then Q (t\<lparr>t_forward := seg # q\<rparr>, fwd) (w\<lparr>w_trace := (send_call sock seg, a) # w_trace w\<rparr>)
     else wp (write_rst args (t\<lparr>t_forward := seg # q\<rparr>)) (\<lambda>t'. Q (t', fwd))
       (w\<lparr>w_trace := (send_call sock seg, a) # w_trace w\<rparr>))"
  using assms by (simp add: wp_load_segment send_call_def [symmetric] Let_def del: wp_load)

lemma sent_bytes_send_call:
  "sent_bytes sock ((send_call sock seg, a) # es) =
     sent_bytes sock es @ (if 0 \<le> ret a then take (nat (ret a)) (drop (unat (seg_sent seg)) (seg_data seg)) else [])"
  by (simp add: send_call_def)

lemma pending_sent:
  assumes "seg_ok seg" "0 \<le> r" "r \<le> int (unat (seg_len seg) - unat (seg_sent seg))"
  shows "drop (unat (seg_sent seg)) (seg_data seg) =
    take (nat r) (drop (unat (seg_sent seg)) (seg_data seg)) @
    drop (unat (seg_sent seg + word_of_int r)) (seg_data seg)"
  unfolding seg_sent_more(1) [OF assms]
  by (metis append_take_drop_id drop_drop add.commute)

text \<open>Nothing is lost, repeated or reordered: what was pending is what was sent and what is pending.\<close>

definition forwarded :: "int \<Rightarrow> world \<Rightarrow> tcp_session \<Rightarrow> segment list \<Rightarrow> tcp_session \<Rightarrow> world \<Rightarrow> bool" where
  "forwarded sock w t q t' w' \<longleftrightarrow> (\<exists>es. w' = w\<lparr>w_trace := es @ w_trace w\<rparr> \<and>
     pending q = sent_bytes sock es @ pending (t_forward t') \<and>
     t_sent t' = t_sent t + word_of_nat (length (sent_bytes sock es)) \<and>
     (\<forall>s \<in> set (t_forward t'). seg_ok s))"

lemma send_boundedD:
  assumes "send_bounded args" "a_os args tr (send_call sock seg) = a" "seg_ok seg"
  shows "ret a \<le> int (unat (seg_len seg) - unat (seg_sent seg))"
proof -
  have "ret (a_os args tr (Call_send sock d m)) \<le> int (length d)" for d m
    using assms(1) unfolding send_bounded_def by blast
  from this [of "drop (unat (seg_sent seg)) (seg_data seg)" "\<not> seg_psh seg"] show ?thesis
    using assms(2,3) by (simp add: send_call_def seg_ok_def)
qed

lemma forwarded_step:
  assumes "forwarded sock (w\<lparr>w_trace := (send_call sock seg, a) # w_trace w\<rparr>) t1 q1 t' w'"
    and "t_sent t1 = t_sent t + word_of_int (ret a)" "seg_ok seg"
    and r: "0 \<le> ret a" "ret a \<le> int (unat (seg_len seg) - unat (seg_sent seg))"
    and "pending (seg # q) = take (nat (ret a)) (drop (unat (seg_sent seg)) (seg_data seg)) @ pending q1"
  shows "forwarded sock w t (seg # q) t' w'"
proof -
  let ?x = "take (nat (ret a)) (drop (unat (seg_sent seg)) (seg_data seg))"
  have "length ?x = nat (ret a)" using r assms(3) by (simp add: seg_ok_def)
  moreover have "word_of_int (ret a) = (word_of_nat (nat (ret a)) :: u64)" using r(1) by simp
  ultimately have l: "word_of_int (ret a) = (word_of_nat (length ?x) :: u64)" by simp
  from assms(1) obtain es where es: "w' = w\<lparr>w_trace := es @ (send_call sock seg, a) # w_trace w\<rparr>"
      "pending q1 = sent_bytes sock es @ pending (t_forward t')"
      "t_sent t' = t_sent t1 + word_of_nat (length (sent_bytes sock es))" "\<forall>s \<in> set (t_forward t'). seg_ok s"
    by (auto simp: forwarded_def)
  then show ?thesis
    using assms(2,6) r(1) unfolding forwarded_def l
    by (intro exI [of _ "es @ [(send_call sock seg, a)]"])
      (simp add: sent_bytes_append sent_bytes_send_call del: length_take length_drop)
qed

lemma tcp_forward_stream:
  assumes "send_bounded args" "\<forall>s \<in> set q. seg_ok s"
  shows "wp (tcp_forward args sock n fwd t q) (\<lambda>(t', fwd'). forwarded sock w t q t') w"
  using assms(2)
proof (induction q arbitrary: n fwd t w)
  case Nil
  then show ?case by (auto simp: forwarded_def intro!: exI [of _ "[]"])
next
  case (Cons seg q)
  then have ok: "seg_ok seg" "\<forall>s \<in> set q. seg_ok s" by simp_all
  obtain a where a: "a_os args (w_trace w) (send_call sock seg) = a" by blast
  consider (wait) "\<not> head_ready t seg n" | (fail) "head_ready t seg n" "ret a < 0"
    | (sent) "head_ready t seg n" "0 \<le> ret a" by linarith
  then show ?case
  proof cases
    case wait
    then show ?thesis using Cons.prems by (auto simp: forwarded_def intro!: exI [of _ "[]"])
  next
    case fail
    have "forwarded sock w t (seg # q) t' (w\<lparr>w_trace := es @ (send_call sock seg, a) # w_trace w\<rparr>)"
      if "\<forall>e \<in> set es. is_tun_call (fst e)" "t_forward t' = seg # q" "t_sent t' = t_sent t" for t' es
      using that fail ok
      by (auto simp: forwarded_def sent_bytes_append sent_bytes_send_call
          intro!: exI [of _ "es @ [(send_call sock seg, a)]"])
    from this [of "[]"] this show ?thesis
      unfolding tcp_forward_failed [OF fail(1) ok(1) a fail(2)] by (auto intro!: wp_write_rst)
  next
    case sent
    note r = sent(2) send_boundedD [OF assms(1) a ok(1)]
    note p = pending_sent [OF ok(1) r]
    show ?thesis
    proof (cases "seg_len seg = seg_sent seg + word_of_int (ret a)")
      case False
      let ?t = "t\<lparr>t_sent := t_sent t + word_of_int (ret a),
          t_forward := seg\<lparr>seg_sent := seg_sent seg + word_of_int (ret a)\<rparr> # q\<rparr>"
      have "forwarded sock (w\<lparr>w_trace := (send_call sock seg, a) # w_trace w\<rparr>) ?t (t_forward ?t) ?t
          (w\<lparr>w_trace := (send_call sock seg, a) # w_trace w\<rparr>)"
        using seg_sent_more(2) [OF ok(1) r] ok(2) by (auto simp: forwarded_def intro!: exI [of _ "[]"])
      from forwarded_step [OF this _ ok(1) r, of t q] show ?thesis
        unfolding tcp_forward_sent [OF sent(1) ok(1) a sent(2)] using False p by simp
    next
      case True
      then have "drop (unat (seg_sent seg + word_of_int (ret a))) (seg_data seg) = []"
        using ok(1) by (simp add: seg_ok_def)
      then have q: "pending (seg # q) = take (nat (ret a)) (drop (unat (seg_sent seg)) (seg_data seg)) @ pending q"
        using p by simp
      show ?thesis
        unfolding tcp_forward_sent [OF sent(1) ok(1) a sent(2)] if_P [OF True]
        by (rule wp_mono [OF Cons.IH [OF ok(2)]]) (auto intro: forwarded_step [OF _ _ ok(1) r q])
    qed
  qed
qed

section \<open>Progress\<close>

text \<open>A queue without gaps or overlaps that starts at \<open>b\<close>, and the number after it.\<close>

fun contiguous :: "u32 \<Rightarrow> segment list \<Rightarrow> bool" where
  "contiguous b [] \<longleftrightarrow> True"
| "contiguous b (s # q) \<longleftrightarrow> seg_seq s = b \<and> contiguous (b + u16to32 (seg_len s)) q"

fun stream_end :: "u32 \<Rightarrow> segment list \<Rightarrow> u32" where
  "stream_end b [] = b"
| "stream_end b (s # q) = stream_end (b + u16to32 (seg_len s)) q"

lemma send_complete_bounded: "send_complete args \<Longrightarrow> send_bounded args"
  by (simp add: send_complete_def send_bounded_def)

lemma send_completeD:
  "send_complete args \<Longrightarrow> ret (a_os args tr (send_call sock seg)) =
     int (length (drop (unat (seg_sent seg)) (seg_data seg)))"
  unfolding send_complete_def send_call_def by blast

lemma tcp_forward_drains:
  assumes "send_complete args" "\<forall>s \<in> set q. seg_ok s" "contiguous (t_remote_seq t) q"
    "length (pending q) < unat n"
  shows "wp (tcp_forward args sock n fwd t q) (\<lambda>(t', fwd') w'.
    t_forward t' = [] \<and> t_remote_seq t' = stream_end (t_remote_seq t) q \<and> fwd' = (fwd \<or> q \<noteq> [])) w"
  using assms(2-)
proof (induction q arbitrary: n fwd t w)
  case (Cons seg q n fwd t w)
  then have ok: "seg_ok seg" by simp
  let ?a = "a_os args (w_trace w) (send_call sock seg)"
  let ?d = "drop (unat (seg_sent seg)) (seg_data seg)"
  have r: "ret ?a = int (length ?d)" using assms(1) by (rule send_completeD)
  have l: "length ?d = unat (seg_len seg) - unat (seg_sent seg)" using ok by (simp add: seg_ok_def)
  have lt: "length ?d < unat n" using Cons.prems(3) by simp
  then have ready: "head_ready t seg n"
    using Cons.prems(2) seg_remaining(1) [OF ok] l by (simp add: head_ready_def word_less_nat_alt)
  have "unat (seg_sent seg) \<le> unat (seg_len seg)" using ok by (simp add: seg_ok_def word_le_nat_alt)
  then have full: "seg_len seg = seg_sent seg + word_of_int (ret ?a)"
    using seg_sent_more(1) [OF ok, of "ret ?a"] r l by (simp add: word_unat_eq_iff)
  have u: "unat (word_of_int (ret ?a) :: u32) = length ?d"
    using r lt unat_lt_2_32 [of n] unat_of_nat [where 'a = 32, of "length ?d"] by (simp del: unat_lt_2_32)
  then have "word_of_int (ret ?a) \<le> n" using lt by (simp add: word_le_nat_alt)
  then have "unat (n - word_of_int (ret ?a)) = unat n - length ?d" using u by (simp add: unat_sub)
  then have room: "length (pending q) < unat (n - word_of_int (ret ?a))" using Cons.prems(3) by simp
  have nn: "0 \<le> ret ?a" using r by simp
  show ?case
    unfolding tcp_forward_sent [OF ready ok refl nn] if_P [OF full]
    using Cons.prems full by (intro wp_mono [OF Cons.IH [OF _ _ room]]) auto
qed simp

section \<open>A stale head\<close>

text \<open>The head of the queue lies before the next byte expected.\<close>

definition stalled :: "tcp_session \<Rightarrow> bool" where
  "stalled t \<longleftrightarrow> (case t_forward t of [] \<Rightarrow> False
     | h # _ \<Rightarrow> 0 < ahead (seg_seq h) (t_remote_seq t) \<and> ahead (seg_seq h) (t_remote_seq t) < 0x3FFFFFFF)"

lemma ahead_add: "ahead a b + ahead b c < 4294967296 \<Longrightarrow> ahead a c = ahead a b + ahead b c"
  using unat_plus_u32 [of "b - a" "c - b"] by (simp add: ahead_def)

lemma stalled_forward:
  assumes "stalled t"
  shows "run_state (tcp_forward args sock n fwd t (t_forward t)) w = ((t, fwd), w)"
proof (cases "t_forward t")
  case (Cons h q)
  then have "\<not> head_ready t h n" using assms by (auto simp: stalled_def head_ready_def)
  moreover have "t\<lparr>t_forward := h # q\<rparr> = t" using Cons by (cases t) simp
  ultimately show ?thesis using Cons by simp
qed (use assms in \<open>simp add: stalled_def\<close>)

lemma stalled_queue:
  assumes "stalled t" "ahead (t_remote_seq t) seq < 0x3FFFFFFF"
  shows "stalled (queue_tcp t seq psh data)"
proof (cases "t_forward t")
  case (Cons h q)
  have h: "0 < ahead (seg_seq h) (t_remote_seq t)" "ahead (seg_seq h) (t_remote_seq t) < 0x3FFFFFFF"
    using assms(1) Cons by (simp_all add: stalled_def)
  then have "ahead (seg_seq h) seq = ahead (seg_seq h) (t_remote_seq t) + ahead (t_remote_seq t) seq"
    using assms(2) by (intro ahead_add) linarith
  then have "compare_u32 (seg_seq h) seq < 0"
    using h assms(2) compare_u32_less [of "seg_seq h" "seg_seq h" seq] by simp
  then show ?thesis using h Cons assms(1) by (simp add: queue_tcp_def stalled_def)
qed (use assms in \<open>simp add: stalled_def\<close>)


text \<open>
  A session whose SYN carried data has it queued under the number of the SYN; accepting the
  connection counts the SYN.
\<close>

lemma syn_data_stalled:
  "returns stalled (socks5_advance args sock
     ((tcp_session_of pkt h uid now mss ws isn (d # data))\<lparr>t_socks5 := SOCKS5_CONNECTED\<rparr>))"
  unfolding socks5_advance_def
  by (simp, intro returns_writers(1) returns_case_prod returns_if returns_bind returns_return)
    (auto simp: wrote_cases stalled_def tcp_session_of_def ahead_def)

section \<open>Claims\<close>

text \<open>
  C7: forwarding loses, repeats and reorders nothing: the bytes pending in the queue before
  the loop are the bytes the kernel accepted on the session's socket followed by the bytes
  still pending, the counter of sent bytes grows by just those, and every segment stays well
  formed; for every behaviour of the kernel in which \<open>send\<close> takes at most what it is given.
\<close>

theorem tcp_forward_preserves_stream:
  assumes "send_bounded args" "\<forall>s \<in> set (t_forward t). seg_ok s"
    and "run_state (tcp_forward args sock n False t (t_forward t)) w = ((t', fwd), w')"
  shows "\<exists>es. w' = w\<lparr>w_trace := es @ w_trace w\<rparr> \<and>
    pending (t_forward t) = sent_bytes sock es @ pending (t_forward t') \<and>
    t_sent t' = t_sent t + word_of_nat (length (sent_bytes sock es)) \<and> (\<forall>s \<in> set (t_forward t'). seg_ok s)"
  using tcp_forward_stream [OF assms(1,2), of sock n False t w] assms(3) by (simp add: wp_def forwarded_def)

definition sink_os :: os where
  "sink_os tr c = \<lparr>ret = (case c of Call_send fd d m \<Rightarrow> int (length d) | _ \<Rightarrow> 0), errno = 0, out = 0, bytes = []\<rparr>"

definition sink_args :: arguments where
  "sink_args = idle_args\<lparr>a_os := sink_os\<rparr>"

lemma sink_complete: "send_complete sink_args"
  by (simp add: send_complete_def sink_args_def sink_os_def)

definition upload :: tcp_session where
  "upload = web_session\<lparr>t_state := TCP_ESTABLISHED, t_forward := [seg_at 1001 [71, 69, 84], seg_at 1004 [32, 47]]\<rparr>"

lemma upload_ok: "\<forall>s \<in> set (t_forward upload). seg_ok s"
  by (simp add: upload_def seg_at_def seg_ok_def)

theorem tcp_forward_preserves_stream_witness:
  "\<exists>t' fwd w' es. run_state (tcp_forward sink_args 8 1000 False upload (t_forward upload)) empty_world = ((t', fwd), w') \<and>
    pending (t_forward upload) = sent_bytes 8 es @ pending (t_forward t')"
proof -
  obtain t' fwd w' where r: "run_state (tcp_forward sink_args 8 1000 False upload (t_forward upload)) empty_world = ((t', fwd), w')"
    by (metis prod.exhaust)
  from tcp_forward_preserves_stream [OF send_complete_bounded [OF sink_complete] upload_ok r] r
  show ?thesis by blast
qed

text \<open>
  C16: forwarding makes progress: a queue without gaps that starts at the next byte expected
  is sent to its last byte in one pass of the loop when the kernel takes what it is given and
  its buffer has room for more than the pending bytes; then the queue is empty, the next byte
  expected is the one after the queue, and an acknowledgement is due.
\<close>

theorem tcp_forward_completes:
  assumes "send_complete args" "\<forall>s \<in> set (t_forward t). seg_ok s"
    and "contiguous (t_remote_seq t) (t_forward t)" "length (pending (t_forward t)) < unat n"
  shows "\<exists>t' es. run_state (tcp_forward args sock n False t (t_forward t)) w =
      ((t', t_forward t \<noteq> []), w\<lparr>w_trace := es @ w_trace w\<rparr>) \<and>
    sent_bytes sock es = pending (t_forward t) \<and> t_forward t' = [] \<and>
    t_remote_seq t' = stream_end (t_remote_seq t) (t_forward t)"
  using tcp_forward_drains [OF assms, of sock False w]
    tcp_forward_stream [OF send_complete_bounded [OF assms(1)] assms(2), of sock n False t w]
  by (fastforce simp: wp_def forwarded_def split: prod.splits)

theorem tcp_forward_completes_witness:
  "\<exists>t' es. run_state (tcp_forward sink_args 8 1000 False upload (t_forward upload)) empty_world =
      ((t', t_forward upload \<noteq> []), empty_world\<lparr>w_trace := es @ w_trace empty_world\<rparr>) \<and>
    sent_bytes 8 es = pending (t_forward upload) \<and> t_forward t' = [] \<and>
    t_remote_seq t' = stream_end (t_remote_seq upload) (t_forward upload)"
  by (rule tcp_forward_completes [OF sink_complete upload_ok])
    (simp_all add: upload_def seg_at_def web_session_def)


definition overlap :: tcp_session where
  "overlap = web_session\<lparr>t_remote_seq := 1051, t_forward := [seg_at 1021 [1, 2, 3]]\<rparr>"


end
