(* ===== verification/Tcp_Download.thy ===== *)
theory Tcp_Download
  imports Tcp_Machine
begin

text \<open>
  The stream from the server to the application: what the packets on the tun device carry,
  as the application reads it, against the data that was received from the socket.
\<close>

section \<open>What the application reads\<close>

text \<open>The sequence number and the data of a packet, by the lengths in its headers.\<close>

definition tcp_content :: "buf \<Rightarrow> u32 \<times> buf" where
  "tcp_content pkt =
     (let seg = drop (if ip_version pkt = 4 then 20 else 40) pkt
      in (ntohl (get32 seg 4), drop (4 * unat (drop_bit 4 (get8 seg 12))) seg))"

definition data_segments :: "buf list \<Rightarrow> (u32 \<times> buf) list" where
  "data_segments pkts = filter (\<lambda>(q, d). d \<noteq> []) (map tcp_content pkts)"

lemma data_segments_append: "data_segments (xs @ ys) = data_segments xs @ data_segments ys"
  by (simp add: data_segments_def)

lemma get32_st32: "get32 (st32 x @ r) 0 = x"
  by (simp add: get32_def get8_def st32_def le32_split)

lemma tcp_content_packet:
  assumes "tcp_wf t"
  shows "tcp_content (tcp_packet t f data) = (t_local_seq t, data)"
proof -
  obtain c where seg: "tcp_segment t f data = tcp_header t f c @ tcp_options_out t f @ data"
    by (simp add: tcp_segment_def Let_def)
  have "get32 (tcp_segment t f data) 4 = ntohl (t_local_seq t)"
    unfolding seg tcp_header_def tcp_header_start_def
    by (simp add: get32_def get8_def st16_def st32_def)
  moreover have "get8 (tcp_segment t f data) 12 = (if fl_syn f then 0x70 else 0x50)"
    unfolding seg tcp_header_def tcp_header_start_def
    by (simp add: get8_def st16_def st32_def)
  moreover have "drop (if fl_syn f then 28 else 20) (tcp_segment t f data) = data"
    unfolding seg by (simp add: length_tcp_options_out)
  moreover have "drop (if ip_version (tcp_packet t f data) = 4 then 20 else 40) (tcp_packet t f data) = tcp_segment t f data"
    using assms
    by (auto simp: tcp_packet_def Let_def tcp_wf_def addr_len_def ip4_header_def ip4_bytes_def ip6_header_def ip_version_def
        get8_def IPV6_VERSION_def)
  ultimately show ?thesis by (simp add: tcp_content_def Let_def split: if_splits)
qed

text \<open>Data in the order it came, with consecutive sequence numbers from \<open>q\<close>.\<close>

fun segments_from :: "u32 \<Rightarrow> buf list \<Rightarrow> (u32 \<times> buf) list" where
  "segments_from q [] = []"
| "segments_from q (d # ds) = (q, d) # segments_from (q + word_of_nat (length d)) ds"

definition total :: "buf list \<Rightarrow> u32" where
  "total ds = word_of_nat (length (concat ds))"

lemma segments_from_append: "segments_from q (xs @ ys) = segments_from q xs @ segments_from (q + total xs) ys"
  by (induction xs arbitrary: q) (simp_all add: total_def ac_simps)

lemma total_append: "total (xs @ ys) = total xs + total ys"
  by (simp add: total_def)

section \<open>Programs without data\<close>

fun dataless :: "call \<Rightarrow> bool" where
  "dataless (Call_recv fd n) = False"
| "dataless (Call_tun_write b) = (snd (tcp_content b) = [])"
| "dataless c = True"

lemma dataless_trace:
  assumes "\<forall>e \<in> set es. dataless (fst e)"
  shows "recv_data es = [] \<and> data_segments (tun_packets es) = []"
  using assms
proof (induction es)
  case (Cons e es)
  then show ?case
    by (cases e; cases "fst e") (auto simp: data_segments_append, auto simp: data_segments_def)
qed (simp add: data_segments_def)

lemma dataless_tun: "is_tun_call c \<Longrightarrow> (\<And>b. c = Call_tun_write b \<Longrightarrow> snd (tcp_content b) = []) \<Longrightarrow> dataless c"
  by (cases c) (auto simp: is_tun_call_def)

lemma dataless_service [simp]: "is_service_call c \<Longrightarrow> dataless c"
  by (cases c) auto

lemma dataless_write_tcp:
  assumes "tcp_wf t"
  shows "emits dataless (write_tcp args t [] f)"
  using tcp_content_packet [OF assms, of f "[]"]
  unfolding write_tcp_def tun_write_def by (intro emits_rules emits_write_pcap_rec) (auto intro: dataless_tun simp: is_tun_call_def)

lemma dataless_writers:
  assumes "tcp_wf t"
  shows "emits dataless (write_syn_ack args t)" "emits dataless (write_ack args t)"
    "emits dataless (write_fin_ack args t)" "emits dataless (write_rst args t)"
  unfolding write_syn_ack_def write_ack_def write_fin_ack_def write_rst_def Let_def
  by (intro emits_rules dataless_write_tcp; use assms in simp)+

lemma emits_bind_returns:
  assumes "emits P m" "returns R m" "\<And>a. R a \<Longrightarrow> emits P (f a)"
  shows "emits P (State_Monad.bind m f)"
  unfolding emits_def
proof
  fix w
  obtain a w1 where r: "run_state m w = (a, w1)" by fastforce
  obtain es where es: "w_trace w1 = es @ w_trace w" "\<forall>e \<in> set es. P (fst e)" using emits_run [OF assms(1) r] .
  obtain b w2 where r2: "run_state (f a) w1 = (b, w2)" by fastforce
  obtain es' where "w_trace w2 = es' @ w_trace w1" "\<forall>e \<in> set es'. P (fst e)"
    using emits_run [OF assms(3) r2] returnsD [OF assms(2) r] by blast
  with es r r2 show "\<exists>es. w_trace (snd (run_state (State_Monad.bind m f) w)) = es @ w_trace w \<and> (\<forall>e \<in> set es. P (fst e))"
    by (intro exI [of _ "es' @ es"]) auto
qed

text \<open>The state in which the session goes on reading, and the states in which it does not read again.\<close>

definition shut :: "tcp_session \<Rightarrow> bool" where
  "shut t \<longleftrightarrow> t_state t \<notin> {TCP_LISTEN, TCP_SYN_RECV, TCP_ESTABLISHED, TCP_CLOSE_WAIT}"

definition kept :: "tcp_session \<Rightarrow> tcp_session \<Rightarrow> bool" where
  "kept t t' \<longleftrightarrow> tcp_wf t' \<and> (shut t' \<or> t_state t' = t_state t \<and> t_local_seq t' = t_local_seq t)"

lemma tcp_forward_dataless:
  assumes "kept t0 t"
  shows "emits dataless (tcp_forward args sock n fwd t q) \<and>
    returns (\<lambda>(t', fwd). kept t0 t') (tcp_forward args sock n fwd t q)"
  using assms
proof (induction q arbitrary: n fwd t)
  case (Cons seg q)
  have wf: "tcp_wf t" using Cons.prems by (simp add: kept_def)
  have rst: "returns (kept t0) (write_rst args (t\<lparr>t_forward := z\<rparr>))" for z
    by (rule returns_mono [OF returns_write_rst]) (use wf in \<open>auto simp: kept_def shut_def\<close>)
  have upd: "kept t0 (t\<lparr>t_sent := a, t_remote_seq := b\<rparr>)" "kept t0 (t\<lparr>t_sent := a, t_forward := c\<rparr>)" for a b c
    using Cons.prems by (auto simp: kept_def shut_def)
  note IH = Cons.IH [OF upd(1)]
  have "emits dataless (tcp_forward args sock n fwd t (seg # q))"
    unfolding tcp_forward.simps Let_def
    by (intro emits_rules IH [THEN conjunct1] dataless_writers) (use wf in simp_all)
  moreover have "returns (\<lambda>(t', fwd). kept t0 t') (tcp_forward args sock n fwd t (seg # q))"
    unfolding tcp_forward.simps Let_def
    by (intro returns_bind [where m = "load _ _ _"] returns_bind [where m = "syscall _ _"] returns_if IH [THEN conjunct2]
        returns_bind_strong [OF rst] returns_return; use upd Cons.prems in \<open>auto simp: kept_def shut_def\<close>)
  ultimately show ?case by blast
qed (auto simp: emits_return kept_def shut_def intro!: returns_return)

lemma tcp_acknowledge_dataless:
  assumes "kept t0 (s_body s)"
  shows "emits dataless (tcp_acknowledge args s fwd)" "returns (kept t0) (tcp_acknowledge args s fwd)"
proof -
  have wf: "tcp_wf (s_body s)" using assms by (simp add: kept_def)
  have ack: "returns (wrote t) (write_ack args t)" for t by (rule returns_tcp_writers)
  show "emits dataless (tcp_acknowledge args s fwd)"
    unfolding tcp_acknowledge_def get_receive_window_def get_receive_buffer_def Let_def
    by (intro emits_rules emits_jni dataless_writers) (use wf in auto)
  show "returns (kept t0) (tcp_acknowledge args s fwd)"
    unfolding tcp_acknowledge_def Let_def
    by (intro returns_bind [where m = "get_receive_window _ _"] returns_bind [where m = "time _"] returns_if
        returns_bind_strong [OF ack] returns_return returns_case_prod)
      (use assms in \<open>auto simp: wrote_def kept_def shut_def split: if_splits\<close>)
qed

section \<open>Reading\<close>

text \<open>
  From session \<open>t\<close> to \<open>t'\<close>: the data received is on the device, at the sequence numbers from
  the session's, which moves on with it unless the session is shut; only an open session reads.
\<close>

definition reading :: "tcp_session \<Rightarrow> bool" where
  "reading t \<longleftrightarrow> t_state t = TCP_ESTABLISHED \<or> t_state t = TCP_CLOSE_WAIT"

definition carried :: "tcp_session \<Rightarrow> event list \<Rightarrow> tcp_session \<Rightarrow> bool" where
  "carried t es t' \<longleftrightarrow> tcp_wf t' \<and>
     data_segments (tun_packets es) = segments_from (t_local_seq t) (recv_data es) \<and>
     (shut t' \<or> t_state t' = t_state t \<and> t_local_seq t' = t_local_seq t + total (recv_data es)) \<and>
     (\<not> reading t \<longrightarrow> recv_data es = [])"

lemma carried_kept:
  assumes "kept t t'" "\<forall>e \<in> set es. dataless (fst e)"
  shows "carried t es t'"
  using assms dataless_trace [OF assms(2)] by (auto simp: carried_def kept_def total_def)

lemma shut_not_reading: "shut t \<Longrightarrow> \<not> reading t"
  by (auto simp: shut_def reading_def)

lemma carried_trans:
  assumes "carried t es t'" "carried t' es' t''"
  shows "carried t (es' @ es) t''"
proof (cases "shut t'")
  case True
  then have "recv_data es' = []" "data_segments (tun_packets es') = []" "shut t''"
    using assms(2) shut_not_reading [of t'] by (auto simp: carried_def shut_def)
  then show ?thesis
    using assms by (auto simp: carried_def recv_data_append tun_packets_append data_segments_append)
next
  case False
  then show ?thesis
    using assms by (auto simp: carried_def recv_data_append tun_packets_append data_segments_append segments_from_append
        total_append reading_def add.assoc)
qed

lemma tcp_received_carried:
  assumes "tcp_wf (s_body s)" "length data = nat n" "0 < n"
  shows "wp (tcp_received args s n data) (\<lambda>s' w'. \<exists>es. w_trace w' = es @ w_trace w \<and> recv_data es = [] \<and>
    data_segments (tun_packets es) = [(t_local_seq (s_body s), data)] \<and> tcp_wf (s_body s') \<and>
    (shut (s_body s') \<or> t_state (s_body s') = t_state (s_body s) \<and>
      t_local_seq (s_body s') = t_local_seq (s_body s) + word_of_nat (length data))) w"
    (is "wp _ ?Q w")
  unfolding tcp_received_def Let_def wp_bind
proof (rule wp_quiet_dns, goal_cases)
  case (1 es1)
  then have es1: "quiet es1" .
  let ?t = "(s_body s)\<lparr>t_received := t_received (s_body s) + word_of_int n\<rparr>"
  have seg: "data_segments [tcp_packet ?t flags_ack data] = [(t_local_seq (s_body s), data)]"
    using tcp_content_packet [of ?t flags_ack data] assms by (auto simp: data_segments_def)
  have n: "word_of_int n = (word_of_nat (length data) :: u32)" proof -
    have "n = int (length data)" using assms(2,3) by simp
    then show ?thesis by (simp only: of_int_of_nat_eq)
  qed
  have log: "wp (log_incoming args c f uid n) (\<lambda>_ w'. \<exists>es. w_trace w' = es @ w_trace w \<and> recv_data es = [] \<and>
      data_segments (tun_packets es) = [(t_local_seq (s_body s), data)]) (w\<lparr>w_trace := es2 @ es1 @ w_trace w\<rparr>)"
    if "tun_packets es2 = [tcp_packet ?t flags_ack data]" "\<forall>e \<in> set es2. is_tun_call (fst e)" for c f uid es2
  proof (rule wp_quiet_log)
    fix es3
    assume "quiet es3"
    then show "\<exists>es. w_trace (w\<lparr>w_trace := es2 @ es1 @ w_trace w, w_trace := es3 @ w_trace (w\<lparr>w_trace := es2 @ es1 @ w_trace w\<rparr>)\<rparr>) =
        es @ w_trace w \<and> recv_data es = [] \<and> data_segments (tun_packets es) = [(t_local_seq (s_body s), data)]"
      using that es1 seg by (intro exI [of _ "es3 @ es2 @ es1"]) (simp add: recv_data_append tun_packets_append)
  qed
  show ?case
    unfolding write_data_def write_tcp_def wp_bind
  proof (rule wp_tun_write, goal_cases)
    case (1 r es2)
    then show ?case
      using assms(1) log [OF 1(2,3)] by (auto simp: Let_def shut_def n)
  qed
qed

lemma wp_dataless:
  assumes "emits dataless m" "returns (\<lambda>s'. kept t (s_body s')) m"
  shows "wp m (\<lambda>s' w'. \<exists>es. w_trace w' = es @ w_trace w \<and> carried t es (s_body s')) w"
proof -
  obtain s' w' where r: "run_state m w = (s', w')" by fastforce
  obtain es where "w_trace w' = es @ w_trace w" "\<forall>e \<in> set es. dataless (fst e)" using emits_run [OF assms(1) r] .
  with carried_kept [OF returnsD [OF assms(2) r]] show ?thesis by (auto simp: wp_def r)
qed

lemma wp_carried_after:
  assumes "carried t pre t1" "w_trace w1 = pre @ w_trace w"
    and "wp m (\<lambda>s' w'. \<exists>es. w_trace w' = es @ w_trace w1 \<and> carried t1 es (s_body s')) w1"
  shows "wp m (\<lambda>s' w'. \<exists>es. w_trace w' = es @ w_trace w \<and> carried t es (s_body s')) w1"
proof (rule wp_mono [OF assms(3)])
  fix s' w'
  assume "\<exists>es. w_trace w' = es @ w_trace w1 \<and> carried t1 es (s_body s')"
  then obtain es where "w_trace w' = es @ w_trace w1" "carried t1 es (s_body s')" by blast
  with assms(2) carried_trans [OF assms(1)] show "\<exists>es. w_trace w' = es @ w_trace w \<and> carried t es (s_body s')"
    by (intro exI [of _ "es @ pre"]) simp
qed

lemma kept_after_rst: "tcp_wf t \<Longrightarrow> kept t0 (after_rst t)"
  by (simp add: kept_def shut_def)

lemma tcp_eof_carried:
  assumes "tcp_wf (s_body s)" "reading (s_body s)"
  shows "wp (tcp_eof args s) (\<lambda>s' w'. \<exists>es. w_trace w' = es @ w_trace w \<and> carried (s_body s) es (s_body s')) w"
proof (rule wp_dataless)
  show "emits dataless (tcp_eof args s)"
    unfolding tcp_eof_def Let_def by (intro emits_rules dataless_writers) (use assms in simp_all)
  have fin: "returns (wrote t) (write_fin_ack args t)" for t by (rule returns_tcp_writers)
  have body: "returns (\<lambda>t. tcp_wf t \<and> shut t) (if t_forward (s_body s) = [] then do {
            (t, r) \<leftarrow> write_fin_ack args (s_body s);
            let t = (if r \<ge> 0 then t\<lparr>t_local_seq := t_local_seq t + 1\<rparr> else t);
            State_Monad.return
              (if t_state t = TCP_ESTABLISHED then t\<lparr>t_state := TCP_FIN_WAIT1\<rparr>
               else if t_state t = TCP_CLOSE_WAIT then t\<lparr>t_state := TCP_LAST_ACK\<rparr>
               else t)
          }
          else write_rst args (s_body s))"
  proof (rule returns_if)
    show "returns (\<lambda>t. tcp_wf t \<and> shut t) (write_rst args (s_body s))"
      by (rule returns_mono [OF returns_write_rst]) (use assms in \<open>auto simp: shut_def\<close>)
  qed (rule returns_bind_strong [OF fin], use assms in \<open>auto simp: wrote_def reading_def shut_def intro!: returns_return\<close>)
  show "returns (\<lambda>s'. kept (s_body s) (s_body s')) (tcp_eof args s)"
    unfolding tcp_eof_def
    by (rule returns_bind_strong [OF body], rule returns_bind, rule returns_return) (simp add: kept_def)
qed

lemma tcp_read_carried:
  assumes "tcp_wf (s_body s)" "reading (s_body s)"
  shows "wp (tcp_read args s events) (\<lambda>s' w'. \<exists>es. w_trace w' = es @ w_trace w \<and> carried (s_body s) es (s_body s')) w"
    (is "wp _ ?Q w")
proof -
  let ?s = "\<lambda>t0. s\<lparr>s_body := (s_body s)\<lparr>t_time := t0\<rparr>\<rparr>"
  have pre: "carried (s_body s) [(Call_recv fd k, a), (Call_time, b)] (s_body (?s t0))" if "ret a \<le> 0" for fd k a b t0
    using assms(1) that by (simp add: carried_def data_segments_def total_def)
  have after: "wp m ?Q (w\<lparr>w_trace := (Call_recv fd k, a) # (Call_time, b) # w_trace w\<rparr>)"
    if "ret a \<le> 0" "\<And>w. wp m (\<lambda>s' w'. \<exists>es. w_trace w' = es @ w_trace w \<and> carried (s_body (?s t0)) es (s_body s')) w"
    for m t0 fd k a b
    by (rule wp_carried_after [OF pre [OF that(1)]], simp, rule that(2))
  have rst: "wp (do { t \<leftarrow> write_rst args ((s_body s)\<lparr>t_time := t0\<rparr>); State_Monad.return (s\<lparr>s_body := t\<rparr>) }) (\<lambda>s' w'. \<exists>es.
      w_trace w' = es @ w_trace w \<and> carried (s_body (?s t0)) es (s_body s')) w" for t0 w
  proof (rule wp_dataless)
    show "emits dataless (do { t \<leftarrow> write_rst args ((s_body s)\<lparr>t_time := t0\<rparr>); State_Monad.return (s\<lparr>s_body := t\<rparr>) })"
      by (intro emits_rules dataless_writers) (use assms in simp)
    show "returns (\<lambda>s'. kept (s_body (?s t0)) (s_body s')) (do { t \<leftarrow> write_rst args ((s_body s)\<lparr>t_time := t0\<rparr>); State_Monad.return (s\<lparr>s_body := t\<rparr>) })"
      by (rule returns_bind_strong [OF returns_write_rst], rule returns_return) (use assms in \<open>simp add: kept_after_rst\<close>)
  qed
  have eof: "wp (tcp_eof args (?s t0)) (\<lambda>s' w'. \<exists>es. w_trace w' = es @ w_trace w \<and> carried (s_body (?s t0)) es (s_body s')) w"
    for t0 w by (rule tcp_eof_carried) (use assms in \<open>simp_all add: reading_def\<close>)
  have data: "wp (tcp_received args (?s t0) (ret a) (get_bytes (bytes a) 0 (nat (ret a)))) ?Q
      (w\<lparr>w_trace := (Call_recv fd k, a) # (Call_time, b) # w_trace w\<rparr>)" if "0 < ret a" for t0 fd k a b
  proof (rule wp_mono [OF tcp_received_carried [OF _ _ that]], goal_cases)
    case (3 s' w')
    then obtain es where es: "w_trace w' = es @ (Call_recv fd k, a) # (Call_time, b) # w_trace w" "recv_data es = []"
        "data_segments (tun_packets es) = [(t_local_seq (s_body s), get_bytes (bytes a) 0 (nat (ret a)))]" "tcp_wf (s_body s')"
        "shut (s_body s') \<or> t_state (s_body s') = t_state (s_body s) \<and>
          t_local_seq (s_body s') = t_local_seq (s_body s) + word_of_nat (nat (ret a))"
      by auto
    with that assms(2) show ?case
      by (intro exI [of _ "es @ [(Call_recv fd k, a), (Call_time, b)]"])
        (auto simp: carried_def recv_data_append tun_packets_append data_segments_append total_def data_segments_def [of "[]"])
  qed (use assms in simp_all)
  have quiet: "wp (State_Monad.return (?s t0)) (\<lambda>s' w'. \<exists>es. w_trace w' = es @ w_trace w \<and> carried (s_body (?s t0)) es (s_body s')) w"
    for t0 and w :: world by (rule wp_dataless) (use assms in \<open>auto simp: kept_def emits_return intro!: returns_return\<close>)
  have none: "wp (State_Monad.return s) ?Q w"
    by (rule wp_dataless) (use assms in \<open>auto simp: kept_def emits_return intro!: returns_return\<close>)
  note parts = after [OF _ rst, unfolded wp_bind] after [OF _ eof] after [OF _ quiet] data
  show ?thesis
    unfolding tcp_read_def Let_def wp_if wp_bind wp_time wp_syscall
    using none by (auto simp: parts simp del: wp_return wp_bind wp_if)
qed

lemma wp_dull:
  assumes "emits dataless m" "returns R m"
    and "\<And>a w' es. R a \<Longrightarrow> w_trace w' = es @ w_trace w \<Longrightarrow> \<forall>e \<in> set es. dataless (fst e) \<Longrightarrow> Q a w'"
  shows "wp m Q w"
proof -
  obtain a w' where r: "run_state m w = (a, w')" by fastforce
  obtain es where "w_trace w' = es @ w_trace w" "\<forall>e \<in> set es. dataless (fst e)" using emits_run [OF assms(1) r] .
  with assms(3) [OF returnsD [OF assms(2) r]] show ?thesis by (simp add: wp_def r)
qed

lemma check_tcp_socket_carried:
  assumes "tcp_wf (s_body s)" "t_state (s_body s) \<noteq> TCP_LISTEN"
  shows "wp (check_tcp_socket args s events)
    (\<lambda>s' w'. \<exists>es. w_trace w' = es @ w_trace w \<and> carried (s_body s) es (s_body s')) w"
    (is "wp _ ?Q w")
proof -
  have refl: "kept (s_body s) (s_body s)" using assms(1) by (simp add: kept_def)
  show ?thesis
  proof (cases "events AND EPOLLERR = 0")
    case False
    have "kept (s_body s) (after_rst ((s_body s)\<lparr>t_time := b\<rparr>))" for b using assms(1) by (simp add: kept_after_rst)
    with False assms(1) show ?thesis
      unfolding check_tcp_socket_def
      by (simp del: wp_bind, intro wp_dataless emits_rules emits_jni dataless_writers
          returns_bind [where m = "time _"] returns_bind [where m = "syscall _ _"] returns_bind_strong [OF returns_write_rst]
          returns_return) simp_all
  next
    case True
    let ?send = "if events AND EPOLLOUT \<noteq> 0 then do {
            buffer_size \<leftarrow> get_receive_buffer args (s_socket s);
            tcp_forward args (s_socket s) buffer_size False (s_body s) (t_forward (s_body s))
          }
          else State_Monad.return (s_body s, False)"
    have "emits dataless ?send"
      using tcp_forward_dataless [OF refl, of args] unfolding get_receive_buffer_def by (intro emits_rules; simp)
    moreover have "returns (\<lambda>(t, fwd). kept (s_body s) t) ?send"
      using tcp_forward_dataless [OF refl, of args] refl
      by (intro returns_if returns_bind [where m = "get_receive_buffer _ _"] returns_return; simp)
    ultimately have send: "wp ?send (\<lambda>p w'. wp (case p of (t, fwd) \<Rightarrow> do {
        t \<leftarrow> tcp_acknowledge args (s\<lparr>s_body := t\<rparr>) fwd;
        let s = s\<lparr>s_body := t\<rparr>;
        if t_state t = TCP_ESTABLISHED \<or> t_state t = TCP_CLOSE_WAIT
        then tcp_read args s events
        else State_Monad.return s }) ?Q w') w"
    proof (rule wp_dull, goal_cases)
      case (1 p w1 es1)
      then obtain t fwd where p: "p = (t, fwd)" "kept (s_body s) t" by (cases p) auto
      then have k: "kept (s_body s) (s_body (s\<lparr>s_body := t\<rparr>))" by simp
      show ?case
        unfolding p prod.case wp_bind
      proof (rule wp_dull [OF tcp_acknowledge_dataless [OF k]], goal_cases)
        case (1 u w2 es2)
        have es: "w_trace w2 = (es2 @ es1) @ w_trace w" "\<forall>e \<in> set (es2 @ es1). dataless (fst e)"
          using 1 \<open>w_trace w1 = es1 @ w_trace w\<close> \<open>\<forall>e \<in> set es1. dataless (fst e)\<close> by auto
        note c = carried_kept [OF 1(1) es(2)]
        have wf: "tcp_wf u" using 1(1) by (simp add: kept_def)
        show ?case
        proof (cases "reading u")
          case True
          then have "wp (tcp_read args (s\<lparr>s_body := u\<rparr>) events)
              (\<lambda>s' w'. \<exists>es. w_trace w' = es @ w_trace w2 \<and> carried u es (s_body s')) w2"
            using tcp_read_carried [of "s\<lparr>s_body := u\<rparr>" args events w2] wf by simp
          from wp_carried_after [OF c es(1) this] True show ?thesis by (simp add: reading_def)
        next
          case False
          with c es(1) show ?thesis by (auto simp: reading_def)
        qed
      qed
    qed
    then show ?thesis using True assms(2) unfolding check_tcp_socket_def by simp
  qed
qed

text \<open>The events of a session, one after another.\<close>

fun socket_events :: "arguments \<Rightarrow> tcp_session ng_session \<Rightarrow> u32 list \<Rightarrow> tcp_session ng_session prog" where
  "socket_events args s [] = State_Monad.return s"
| "socket_events args s (ev # evs) = do { s \<leftarrow> check_tcp_socket args s ev; socket_events args s evs }"

lemma socket_events_carried:
  assumes "tcp_wf (s_body s)" "t_state (s_body s) \<noteq> TCP_LISTEN"
  shows "wp (socket_events args s evs)
    (\<lambda>s' w'. \<exists>es. w_trace w' = es @ w_trace w \<and> carried (s_body s) es (s_body s')) w"
  using assms
proof (induction evs arbitrary: s w)
  case Nil
  then show ?case by (simp add: carried_def data_segments_def total_def)
next
  case (Cons ev evs)
  show ?case
    unfolding socket_events.simps wp_bind
  proof (rule wp_mono [OF check_tcp_socket_carried [OF Cons.prems]], elim exE conjE)
    fix s1 :: "tcp_session ng_session" and w1 :: world and es
    assume es: "w_trace w1 = es @ w_trace w" "carried (s_body s) es (s_body s1)"
    then have s1: "tcp_wf (s_body s1)" "t_state (s_body s1) \<noteq> TCP_LISTEN"
      using Cons.prems(2) by (auto simp: carried_def shut_def)
    from wp_carried_after [OF es(2,1) Cons.IH [OF s1]]
    show "wp (socket_events args s1 evs) (\<lambda>s' w'. \<exists>es. w_trace w' = es @ w_trace w \<and> carried (s_body s) es (s_body s')) w1" .
  qed
qed

section \<open>Claims\<close>

text \<open>
  C8: what the server sends reaches the application as a stream: over any events of an open
  TCP session, with any answers of the kernel, the packets with data on the tun device carry,
  as the application decodes them from their headers, exactly the data received from the
  socket, in order and unchanged, at consecutive sequence numbers from the session's own; the
  session's number moves on with the data unless the session is closed, and a session that is
  not open for reading receives nothing.
\<close>

theorem tcp_download_is_stream:
  assumes "tcp_inv s" "t_state (s_body s) \<noteq> TCP_LISTEN"
    and "run_state (socket_events args s evs) w = (s', w')"
  shows "\<exists>es. w_trace w' = es @ w_trace w \<and>
    data_segments (tun_packets es) = segments_from (t_local_seq (s_body s)) (recv_data es) \<and>
    (shut (s_body s') \<or> t_local_seq (s_body s') = t_local_seq (s_body s) + total (recv_data es)) \<and>
    (\<not> reading (s_body s) \<longrightarrow> recv_data es = [])"
proof -
  have "tcp_wf (s_body s)" using assms(1) by (simp add: tcp_inv_def tcp_ok_def)
  from socket_events_carried [OF this assms(2), of args evs w] show ?thesis
    unfolding wp_run assms(3) by (auto simp: carried_def)
qed

definition page_os :: os where
  "page_os tr c = (case c of Call_recv fd n \<Rightarrow> \<lparr>ret = 4, errno = 0, out = 0, bytes = [72, 84, 84, 80]\<rparr>
     | Call_tun_write b \<Rightarrow> \<lparr>ret = int (length b), errno = 0, out = 0, bytes = []\<rparr>
     | _ \<Rightarrow> \<lparr>ret = 0, errno = 0, out = 0, bytes = []\<rparr>)"

definition page_args :: arguments where
  "page_args = idle_args\<lparr>a_os := page_os\<rparr>"

definition page_socket :: "u32 \<Rightarrow> u16 \<Rightarrow> u32 \<Rightarrow> u64 \<Rightarrow> tcp_session ng_session" where
  "page_socket q k v r = web_socket\<lparr>s_body := web_session\<lparr>t_state := TCP_ESTABLISHED, t_acked := 5000, t_local_seq := q,
     t_unconfirmed := k, t_recv_window := v, t_received := r\<rparr>\<rparr>"

lemma page_read:
  assumes "q = 5000 \<and> k = 0 \<or> q = 5004 \<and> k = 1" "v \<noteq> 0" "\<not> w_pcap_file w"
  shows "wp (check_tcp_socket page_args (page_socket q k v r) 1) (\<lambda>s' w'.
    (\<exists>v x. v \<noteq> 0 \<and> s' = page_socket (q + 4) (k + 1) v x) \<and>
    recv_data (w_trace w') = recv_data (w_trace w) @ [[72, 84, 84, 80]] \<and> \<not> w_pcap_file w') w"
proof -
  have "get_bytes [72, 84, 84, 80] 0 4 = [72, 84, 84, 80]" by (simp add: get_bytes_in)
  with assms show ?thesis
    by (elim disjE) (simp_all add: check_tcp_socket_def tcp_acknowledge_def tcp_read_def tcp_received_def page_args_def
        idle_args_def page_os_def page_socket_def web_socket_def web_session_def epoll_defs get_receive_window_def
        get_receive_buffer_def Let_def get_send_window_def write_data_def write_tcp_def tun_write_def log_incoming_def
        toforward_def SEND_BUF_DEFAULT_def)
qed

theorem tcp_download_is_stream_witness:
  "\<exists>w' es. w' = snd (run_state (socket_events page_args (page_socket 5000 0 163840 0) [1, 1]) empty_world) \<and>
     w_trace w' = es \<and> recv_data es = [[72, 84, 84, 80], [72, 84, 84, 80]] \<and>
     data_segments (tun_packets es) = [(5000, [72, 84, 84, 80]), (5004, [72, 84, 84, 80])]"
proof -
  let ?s = "page_socket 5000 0 163840 0"
  obtain s' w' where run: "run_state (socket_events page_args ?s [1, 1]) empty_world = (s', w')" by fastforce
  have "\<not> w_pcap_file empty_world" "recv_data (w_trace empty_world) = []" by (simp_all add: empty_world_def)
  then have "wp (socket_events page_args ?s [1, 1]) (\<lambda>_ w'. recv_data (w_trace w') = [[72, 84, 84, 80], [72, 84, 84, 80]]) empty_world"
    unfolding socket_events.simps wp_bind wp_return
    by (intro wp_mono [OF page_read [of 5000 0]]) (auto intro!: wp_mono [OF page_read [of 5004 1]])
  then have recv: "recv_data (w_trace w') = [[72, 84, 84, 80], [72, 84, 84, 80]]" unfolding wp_run run by simp
  have "tcp_inv ?s" "t_state (s_body ?s) \<noteq> TCP_LISTEN" "t_local_seq (s_body ?s) = 5000"
    by (simp_all add: page_socket_def web_socket_def tcp_inv_def tcp_ok_def tcp_wf_def web_session_def addr_len_def live_states_def)
  with tcp_download_is_stream [OF _ _ run] obtain es where "w_trace w' = es @ w_trace empty_world"
      "data_segments (tun_packets es) = segments_from 5000 (recv_data es)" by auto
  with recv run show ?thesis by (auto simp: empty_world_def)
qed

end
