(* ===== verification/Tcp_Policy.thy ===== *)
theory Tcp_Policy
  imports Tcp_Machine
begin

text \<open>
  \<open>handle_tcp\<close> on the store of sessions: it keeps the invariant, and what it does with the
  packets of a flow that is not allowed.
\<close>

section \<open>Opening a session\<close>

lemma frame_open_tcp_socket [frame_rules]:
  "(\<And>w e. g (w\<lparr>w_trace := e\<rparr>) = g w) \<Longrightarrow> frame g (open_tcp_socket args t)"
  unfolding open_tcp_socket_def by (intro frame_rules)

lemma returns_open_tcp_socket: "returns (\<lambda>r. r = -1 \<or> 0 \<le> r) (open_tcp_socket args t)"
  unfolding open_tcp_socket_def by (intro returns_rules) auto

lemma frame_get_receive_window [frame_rules]:
  "(\<And>w e. g (w\<lparr>w_trace := e\<rparr>) = g w) \<Longrightarrow> frame g (get_receive_window args s)"
  unfolding get_receive_window_def get_receive_buffer_def by (intro frame_rules)

lemma tcp_session_of_sel [simp]:
  "t_state (tcp_session_of pkt h uid now mss ws isn data) = TCP_LISTEN"
  "t_socks5 (tcp_session_of pkt h uid now mss ws isn data) = SOCKS5_NONE"
  "t_daddr (tcp_session_of pkt h uid now mss ws isn data) = ip_daddr pkt"
  "t_dest (tcp_session_of pkt h uid now mss ws isn data) = h_dest h"
  by (simp_all add: tcp_session_of_def)

lemma h_dest_get_tcphdr [simp]: "h_dest (get_tcphdr pkt p) = get16 pkt (p + 2)"
  by (simp add: get_tcphdr_def Let_def)

lemma tcp_session_of_ok:
  assumes "ip_version pkt \<in> {4, 6}" "0 \<le> sock"
  shows "tcp_ok sock (tcp_session_of pkt h uid now mss ws isn data)"
  using assms by (simp add: tcp_ok_def tcp_wf_def live_states_def) (simp add: tcp_session_of_def)

lemma frame_tcp_unknown [frame_rules]:
  "(\<And>w e. g (w\<lparr>w_trace := e\<rparr>) = g w) \<Longrightarrow> frame g (tcp_unknown args pkt len payload h)"
  unfolding tcp_unknown_def by (intro frame_rules)

lemma frame_tcp_found [frame_rules]:
  assumes "\<And>w e. g (w\<lparr>w_trace := e\<rparr>) = g w" "\<And>w e. g (w\<lparr>w_ub := e\<rparr>) = g w"
  shows "frame g (tcp_found args pkt len payload h uid allowed cur)"
  unfolding tcp_found_def tcp_in_sequence_def tcp_other_ack_def using assms by (intro frame_rules)

section \<open>The invariant of the store\<close>

locale tcp_store =
  fixes ok :: "session \<Rightarrow> bool"
  assumes ok_TCP: "s_body s = TCP t \<Longrightarrow> ok s \<longleftrightarrow> tcp_inv (with_body s t)"
begin

lemma tcp_register_keeps:
  assumes "evolves ok z w0" "store w = (w_sessions w0, w_fresh w0 + 1)"
    and "\<And>sock. 0 \<le> sock \<Longrightarrow> tcp_ok sock t"
  shows "wp (tcp_register args (w_fresh w0) t allowed) (\<lambda>_. evolves ok z) w"
proof -
  let ?s = "\<lambda>sock. \<lparr>s_addr = w_fresh w0, s_protocol = IPPROTO_TCP, s_body = t, s_socket = sock,
                s_events = EPOLLOUT OR EPOLLERR\<rparr>"
  have fail: "evolves ok z w'" if "store w' = store w" for w'
    using evolves_fresh [OF assms(1)] assms(2) that by simp
  have pushed: "evolves ok z w'"
    if "store w' = (with_body (?s sock) (TCP t') # w_sessions w0, w_fresh w0 + 1)" "tcp_ok sock t'" for w' sock t'
    using evolves_push [OF assms(1) _ _ that(1)] that(2) by (simp add: ok_TCP [OF with_body_sel(3)] tcp_inv_def)
  have reset: "wp (write_rst args t') (\<lambda>t''. wp (put_session (with_body (?s sock) (TCP t''))) (\<lambda>_. evolves ok z)) w'"
    if st: "store w' = (with_body (?s sock) (TCP t') # w_sessions w0, w_fresh w0 + 1)" and t: "tcp_ok sock t'"
    for w' sock t'
  proof (rule wp_write_rst)
    fix es
    have "ok (with_body (?s sock) (TCP (after_rst t')))"
      using after_rst_advances [OF advances_refl [OF t]]
      by (simp add: ok_TCP [OF with_body_sel(3)] tcp_inv_def advances_def)
    then show "wp (put_session (with_body (?s sock) (TCP (after_rst t')))) (\<lambda>_. evolves ok z)
        (w'\<lparr>w_trace := es @ w_trace w'\<rparr>)"
      using evolves_put [OF pushed [of "w'\<lparr>w_trace := es @ w_trace w'\<rparr>" sock t']] st t by (simp add: sockets_def)
  qed
  have window: "wp (get_receive_window args s) Q w1"
    if "\<And>a w2. store w2 = store w \<Longrightarrow> Q a w2" "store w1 = store w" for Q w1 and s :: "tcp_session ng_session"
    using that by (intro wp_frame [OF frame_get_receive_window [where g = store]]) simp_all
  show ?thesis
    unfolding tcp_register_def Let_def wp_bind
  proof (rule wp_frame_returns [OF frame_open_tcp_socket [where g = store] returns_open_tcp_socket], simp)
    fix sock :: int and w1 :: world
    assume r: "sock = -1 \<or> 0 \<le> sock" and w1: "store w1 = store w"
    show "wp (if sock < 0 then State_Monad.return False
        else do {
          window \<leftarrow> get_receive_window args (?s sock);
          _ \<leftarrow> get_local_port args sock;
          _ \<leftarrow> syscall args (Call_epoll_ctl EPOLL_CTL_ADD sock (s_events (?s sock)));
          push_session (with_body (?s sock) (TCP (t\<lparr>t_recv_window := window\<rparr>)));
          guarded (\<not> allowed) (do { t \<leftarrow> write_rst args (t\<lparr>t_recv_window := window\<rparr>);
            put_session (with_body (?s sock) (TCP t)) });
          State_Monad.return True
        }) (\<lambda>_. evolves ok z) w1"
    proof (cases "sock < 0")
      case True
      then show ?thesis using w1 by (simp add: fail)
    next
      case False
      with r assms(2,3) w1 show ?thesis
        by (auto simp: Let_def intro!: window reset [unfolded wp_put_session] intro: pushed)
    qed
  qed
qed

lemma tcp_new_keeps:
  assumes w: "evolves ok z w" and v: "ip_version pkt \<in> {4, 6}"
  shows "wp (tcp_new args pkt len payload h uid allowed) (\<lambda>_. evolves ok z) w"
proof (cases "tcp_opts pkt (uint (tcp_optlen h)) (payload + 20) (get_default_mss (ip_version pkt)) 0")
  case None
  then show ?thesis using evolves_same [OF _ w] by (simp add: tcp_new_def)
next
  case (Some p)
  have "wp (tcp_register args (w_fresh w) (tcp_session_of pkt h uid now mss ws isn data) allowed) (\<lambda>_. evolves ok z) w'"
    if "store w' = (w_sessions w, w_fresh w + 1)" for w' now mss ws isn data
    by (rule tcp_register_keeps [OF w that]) (rule tcp_session_of_ok [OF v])
  then show ?thesis unfolding tcp_new_def Some by (cases p) (auto simp: Let_def)
qed

lemma handle_tcp_keeps:
  assumes w: "evolves ok z w" and v: "ip_version pkt \<in> {4, 6}"
  shows "wp (handle_tcp args pkt len payload uid allowed) (\<lambda>_. evolves ok z) w"
proof -
  have same: "evolves ok z w'" if "store w' = store w" for w' using evolves_same [OF that w] .
  have found: "wp (tcp_found args pkt len payload h uid allowed (with_body s t))
      (\<lambda>(t', r). wp (put_session (with_body s (TCP t'))) (\<lambda>_. evolves ok z)) w'"
    if "s \<in> set (w_sessions w)" "s_body s = TCP t" "store w' = store w" for s t h w'
  proof -
    have "tcp_ok (s_socket s) t" "s_protocol s = IPPROTO_TCP"
      using evolvesD [OF w that(1)] ok_TCP [OF that(2)] by (simp_all add: tcp_inv_def)
    then show ?thesis
      using that same [OF that(3)]
      by (intro wp_frame_returns [OF frame_tcp_found [where g = store] returns_tcp_found])
        (auto simp: advances_def tcp_inv_def sockets_def ok_TCP [OF with_body_sel(3)] intro!: evolves_put [where ok = ok]
          intro: same)
  qed
  show ?thesis
  proof (cases "find (tcp_match pkt payload) (w_sessions w)")
    case None
    then show ?thesis
      using same v
      by (auto simp: handle_tcp_def touch_ip_def Let_def intro!: tcp_new_keeps
          wp_frame [OF frame_tcp_unknown [where g = store]])
  next
    case (Some s)
    then obtain t where t: "s \<in> set (w_sessions w)" "s_body s = TCP t"
      by (auto dest!: find_SomeD simp: tcp_match_def split: session_body.splits)
    show ?thesis
      using Some t found [OF t]
      by (auto simp: handle_tcp_def touch_ip_def Let_def case_prod_beta' intro!: same)
  qed
qed

end

text \<open>The invariant of the TCP sessions alone.\<close>

definition tcp_sess_ok :: "session \<Rightarrow> bool" where
  "tcp_sess_ok s = (case s_body s of TCP t \<Rightarrow> tcp_inv (with_body s t) | _ \<Rightarrow> True)"

interpretation tcp_only: tcp_store tcp_sess_ok
  by unfold_locales (simp add: tcp_sess_ok_def)

section \<open>Flows that are not allowed\<close>

lemma handle_tcp_found:
  assumes "find (tcp_match pkt payload) (w_sessions w) = Some s" "s_body s = TCP t"
    and "\<not> h_urg (get_tcphdr pkt payload)" "40 \<le> length pkt" "payload + 20 \<le> length pkt"
  shows "wp (handle_tcp args pkt len payload uid allowed) Q w =
    wp (tcp_found args pkt len payload (get_tcphdr pkt payload) uid allowed (with_body s t))
      (\<lambda>(t, r). wp (put_session (with_body s (TCP t))) (\<lambda>_. Q r)) w"
proof -
  have "\<not> length pkt < (if ip_version pkt = 4 then 20 else 40)" "\<not> length pkt < payload + 20"
    using assms(4,5) by auto
  then show ?thesis
    using assms(1-3) by (simp add: handle_tcp_def touch_ip_def case_prod_beta' Let_def del: wp_put_session)
qed

text \<open>A session opened for a packet was connected to the packet's destination first.\<close>

lemma open_tcp_socket_connects:
  assumes "\<not> use_socks5 w"
  shows "wp (open_tcp_socket args t) (\<lambda>r w'. 0 \<le> r \<longrightarrow>
    (\<exists>a. (Call_connect r (t_daddr t) (t_dest t), a) \<in> set (w_trace w'))) w"
  unfolding open_tcp_socket_def protect_socket_def
  using assms by (auto simp: Let_def split: if_splits)

lemma wp_emits:
  assumes "emits P m" "\<And>a w' es. w_trace w' = es @ w_trace w \<Longrightarrow> Q a w'"
  shows "wp m Q w"
  using assms by (auto simp: wp_def emits_def split: prod.splits) (metis snd_conv)

lemma emits_get_receive_window: "emits (\<lambda>_. True) (get_receive_window args s)"
  unfolding get_receive_window_def get_receive_buffer_def by (intro emits_rules) simp_all

lemma tcp_register_connects:
  assumes "\<not> use_socks5 w"
  shows "wp (tcp_register args addr t allowed) (\<lambda>r w'. r \<longrightarrow>
    (\<exists>fd a. (Call_connect fd (t_daddr t) (t_dest t), a) \<in> set (w_trace w'))) w"
  unfolding tcp_register_def wp_bind
proof (rule wp_mono [OF open_tcp_socket_connects [OF assms]], goal_cases)
  case (1 sock w1)
  show ?case
  proof (cases "sock < 0")
    case False
    with 1 show ?thesis
      by (intro wp_emits [where P = "\<lambda>_. True"])
        (auto simp: Let_def intro!: emits_rules emits_jni emits_get_receive_window emits_tcp_writers)
  qed simp
qed

definition blocked_syn :: buf where
  "blocked_syn = [0x45, 0, 0, 40, 0, 0, 0, 0, 64, 6, 0, 0, 10, 1, 10, 1, 93, 184, 216, 34,
     0x9C, 0x40, 1, 0xBB, 0, 0, 3, 0xE8, 0, 0, 0, 0, 0x50, 2, 0xFF, 0xFF, 0, 0, 0, 0]"

definition web_world :: world where
  "web_world = empty_world\<lparr>w_sessions := [with_body web_socket (TCP web_session)], w_fresh := 2\<rparr>"

lemma web_match: "find (tcp_match blocked_syn 20) (w_sessions web_world) = Some (with_body web_socket (TCP web_session))"
  by (simp add: web_world_def tcp_match_def web_socket_def web_session_def blocked_syn_def ip_version_def ip_saddr_def
      ip_daddr_def get_bytes_def get16_def get8_def upt_rec ntohs_def le16_def ipproto_defs)

section \<open>Claims\<close>




lemma wp_returns: "returns P m \<Longrightarrow> wp m (\<lambda>r _. P r) w"
  by (simp add: wp_run returns_def)

lemma idle_open:
  assumes "w_sdk w = 30" "w_socks5_addr w = []"
  shows "wp (open_tcp_socket idle_args t) (\<lambda>r _. r = 0) w"
  using assms
  by (simp add: open_tcp_socket_def protect_socket_def idle_args_def idle_os_def use_socks5_def Let_def)


end
