(* ===== verification/Icmp.thy ===== *)
theory Icmp
  imports Udp
begin

text \<open>
  The ICMP part of the engine, \<open>icmp.c\<close>: echo requests of the application are sent on a
  datagram socket with their identifier complemented, and the replies are written back with
  the identifier of the session.
\<close>

definition ICMP_TIMEOUT :: int where "ICMP_TIMEOUT = 5"
definition ICMP4_MAXMSG :: u16 where "ICMP4_MAXMSG = 65535 - 20 - 8"
definition ICMP6_MAXMSG :: u16 where "ICMP6_MAXMSG = 65535 - 40 - 8"
definition ICMP_ECHO :: u8 where "ICMP_ECHO = 8"

section \<open>Messages\<close>

text \<open>\<open>*((uint16_t *) (buf + i)) = v\<close>, as far as it lies in the bytes that are used.\<close>

definition put16 :: "buf \<Rightarrow> nat \<Rightarrow> u16 \<Rightarrow> buf" where
  "put16 b i v = b[i := u16to8 v, i + 1 := u16to8 (drop_bit 8 v)]"

text \<open>
  The identifier replaced and the checksum computed anew, on top of the sum of a pseudo
  header: the common part of \<open>handle_icmp\<close> and \<open>check_icmp_socket\<close>.
\<close>

definition icmp_rewrite :: "u16 \<Rightarrow> u16 \<Rightarrow> buf \<Rightarrow> buf" where
  "icmp_rewrite csum ident msg =
     (let m = put16 (put16 msg 4 ident) 2 0
      in put16 m 2 (NOT (calc_checksum csum m)))"

section \<open>\<open>write_icmp\<close>\<close>

definition icmp_packet :: "icmp_session \<Rightarrow> buf \<Rightarrow> buf" where
  "icmp_packet cur data =
     (if i_version cur = 4
      then ip4_header IPPROTO_ICMP (20 + length data) (i_daddr cur) (i_saddr cur)
      else ip6_header IPPROTO_ICMPV6 (length data) (i_daddr cur) (i_saddr cur)) @ data"

definition write_icmp :: "arguments \<Rightarrow> icmp_session \<Rightarrow> buf \<Rightarrow> int prog" where
  "write_icmp args cur data = tun_write args (icmp_packet cur data)"

interpretation icmp_out: tun_writer "\<lambda>args x. write_icmp args (fst x) (snd x)" "\<lambda>x. icmp_packet (fst x) (snd x)"
  by unfold_locales (simp add: write_icmp_def)

section \<open>Session checks\<close>

definition get_icmp_timeout :: "icmp_session \<Rightarrow> int \<Rightarrow> int \<Rightarrow> int" where
  "get_icmp_timeout u sessions maxsessions =
     (let timeout = ICMP_TIMEOUT;
          scale = 100 - (sessions * 100) sdiv maxsessions
      in (timeout * scale) sdiv 100)"

interpretation icmp_timeout: timeout_policy get_icmp_timeout "\<lambda>_. ICMP_TIMEOUT"
  by unfold_locales (simp_all add: get_icmp_timeout_def Let_def ICMP_TIMEOUT_def)

text \<open>The result is whether the session is to be deleted.\<close>

definition check_icmp_session ::
  "arguments \<Rightarrow> icmp_session ng_session \<Rightarrow> int \<Rightarrow> int \<Rightarrow> (icmp_session ng_session \<times> bool) prog" where
  "check_icmp_session args s sessions maxsessions = do {
     now \<leftarrow> time args;
     let timeout = get_icmp_timeout (s_body s) sessions maxsessions;
     if i_stop (s_body s) \<or> i_time (s_body s) + timeout < now then do {
       _ \<leftarrow> syscall args (Call_close (s_socket s));
       State_Monad.return (s\<lparr>s_socket := -1\<rparr>, True)
     }
     else State_Monad.return (s, False)
   }"

section \<open>Socket events\<close>

text \<open>
  The sum of the pseudo header for a reply; its length is that of the message less the size
  of an IPv6 header, in host order.
\<close>

definition icmp_reply_csum :: "icmp_session \<Rightarrow> int \<Rightarrow> u16" where
  "icmp_reply_csum u n =
     (if i_version u = 6
      then calc_checksum 0 (ip6_hdr_pseudo IPPROTO_ICMPV6 (word_of_int (n - 40)) (i_daddr u) (i_saddr u))
      else 0)"

definition icmp_flow :: "u8 \<Rightarrow> icmp_session \<Rightarrow> flow" where
  "icmp_flow protocol u = \<lparr>f_version = i_version u, f_protocol = protocol, f_saddr = i_saddr u,
     f_sport = 0, f_daddr = i_daddr u, f_dport = 0\<rparr>"

text \<open>The branch of a message received: \<open>n\<close> bytes, \<open>data\<close>.\<close>

definition icmp_received ::
  "arguments \<Rightarrow> icmp_session ng_session \<Rightarrow> int \<Rightarrow> buf \<Rightarrow> icmp_session ng_session prog" where
  "icmp_received args s n data = do {
     let u = s_body s;
     res \<leftarrow> write_icmp args u (icmp_rewrite (icmp_reply_csum u n) (i_id u) data);
     let s = (if res < 0 then s\<lparr>s_body := u\<lparr>i_stop := True\<rparr>\<rparr> else s);
     let f = icmp_flow (s_protocol s) u;
     log_incoming args f f (i_uid u) n;
     State_Monad.return s
   }"

definition check_icmp_socket ::
  "arguments \<Rightarrow> icmp_session ng_session \<Rightarrow> u32 \<Rightarrow> icmp_session ng_session prog" where
  "check_icmp_socket args s events =
     (if events AND EPOLLERR \<noteq> 0 then do {
        t \<leftarrow> time args;
        _ \<leftarrow> syscall args (Call_getsockopt (s_socket s) SO_ERROR);
        State_Monad.return (s\<lparr>s_body := (s_body s)\<lparr>i_time := t, i_stop := True\<rparr>\<rparr>)
      }
      else if events AND EPOLLIN \<noteq> 0 then do {
        t \<leftarrow> time args;
        let s = s\<lparr>s_body := (s_body s)\<lparr>i_time := t\<rparr>\<rparr>;
        let blen = (if i_version (s_body s) = 4 then ICMP4_MAXMSG else ICMP6_MAXMSG);
        r \<leftarrow> syscall args (Call_recv (s_socket s) (unat blen));
        if ret r < 0 then
          State_Monad.return
            (if errno r \<noteq> EINTR \<and> errno r \<noteq> EAGAIN
             then s\<lparr>s_body := (s_body s)\<lparr>i_stop := True\<rparr>\<rparr> else s)
        else if ret r = 0 then
          State_Monad.return (s\<lparr>s_body := (s_body s)\<lparr>i_stop := True\<rparr>\<rparr>)
        else icmp_received args s (ret r) (get_bytes (bytes r) 0 (nat (ret r)))
      }
      else State_Monad.return s)"

section \<open>Packets from the tun device\<close>

definition open_icmp_socket :: "arguments \<Rightarrow> icmp_session \<Rightarrow> int prog" where
  "open_icmp_socket args cur = do {
     r \<leftarrow> syscall args (Call_socket (i_version cur = 4) IPPROTO_ICMP);
     if ret r < 0 then State_Monad.return (-1)
     else do {
       p \<leftarrow> protect_socket args (ret r);
       State_Monad.return (if p < 0 then -1 else ret r)
     }
   }"

text \<open>The condition of the search loop: the identifier is not part of it.\<close>

definition icmp_match :: "buf \<Rightarrow> session \<Rightarrow> bool" where
  "icmp_match pkt s =
     (case s_body s of
        ICMP u \<Rightarrow> (s_protocol s = IPPROTO_ICMP \<or> s_protocol s = IPPROTO_ICMPV6) \<and> \<not> i_stop u \<and>
                  i_version u = ip_version pkt \<and> i_saddr u = ip_saddr pkt \<and> i_daddr u = ip_daddr pkt
      | _ \<Rightarrow> False)"

definition icmp_new_session :: "arguments \<Rightarrow> buf \<Rightarrow> nat \<Rightarrow> int \<Rightarrow> icmp_session ng_session option prog" where
  "icmp_new_session args pkt payload uid = do {
     addr \<leftarrow> fresh_addr;
     t \<leftarrow> time args;
     let u = \<lparr>i_time = t, i_uid = uid, i_version = ip_version pkt, i_saddr = ip_saddr pkt, i_daddr = ip_daddr pkt,
              i_id = get16 pkt (payload + 4), i_stop = False\<rparr>;
     sock \<leftarrow> open_icmp_socket args u;
     if sock < 0 then State_Monad.return None
     else do {
       let s = \<lparr>s_addr = addr, s_protocol = (if ip_version pkt = 4 then IPPROTO_ICMP else IPPROTO_ICMPV6),
                s_body = u, s_socket = sock, s_events = EPOLLIN OR EPOLLERR\<rparr>;
       _ \<leftarrow> syscall args (Call_epoll_ctl EPOLL_CTL_ADD sock (s_events s));
       push_session (with_body s (ICMP u));
       State_Monad.return (Some s)
     }
   }"

text \<open>The sum of the pseudo header for a request: the 16 bit length of the header, as stored.\<close>

definition icmp_request_csum :: "buf \<Rightarrow> u16" where
  "icmp_request_csum pkt =
     (if ip_version pkt = 6
      then calc_checksum 0 (ip6_hdr_pseudo (get8 pkt 6) (u16to32 (get16 pkt 4)) (ip_daddr pkt) (ip_saddr pkt))
      else 0)"

definition icmp_forward ::
  "arguments \<Rightarrow> icmp_session ng_session \<Rightarrow> buf \<Rightarrow> nat \<Rightarrow> nat \<Rightarrow> (icmp_session ng_session \<times> bool) prog" where
  "icmp_forward args cur pkt len payload = do {
     let icmplen = (word_of_nat len - word_of_nat payload :: u64);
     data \<leftarrow> load pkt payload (unat icmplen);
     let msg = icmp_rewrite (icmp_request_csum pkt) (NOT (get16 pkt (payload + 4))) data;
     t \<leftarrow> time args;
     let cur = cur\<lparr>s_body := (s_body cur)\<lparr>i_time := t\<rparr>\<rparr>;
     r \<leftarrow> syscall args (Call_sendto (s_socket cur) (take (unat (ucast icmplen :: u32)) msg) (ip_daddr pkt) 0);
     State_Monad.return
       (if (word_of_int (ret r) :: u64) \<noteq> icmplen \<and> errno r \<noteq> EINTR \<and> errno r \<noteq> EAGAIN
        then (cur\<lparr>s_body := (s_body cur)\<lparr>i_stop := True\<rparr>\<rparr>, False) else (cur, True))
   }"

definition handle_icmp :: "arguments \<Rightarrow> buf \<Rightarrow> nat \<Rightarrow> nat \<Rightarrow> int \<Rightarrow> bool prog" where
  "handle_icmp args pkt len payload uid = do {
     touch_ip pkt;
     touch pkt payload 8;
     if get8 pkt payload \<noteq> ICMP_ECHO then State_Monad.return False
     else do {
       found \<leftarrow> find_session (icmp_match pkt);
       cur \<leftarrow> (case found of
           None \<Rightarrow> icmp_new_session args pkt payload uid
         | Some s \<Rightarrow> (case s_body s of
               ICMP u \<Rightarrow> State_Monad.return
                 (Some (with_body s (if i_uid u = -1 \<and> uid > 0 then u\<lparr>i_uid := uid\<rparr> else u)))
             | _ \<Rightarrow> State_Monad.return None));
       case cur of
         None \<Rightarrow> State_Monad.return False
       | Some cur \<Rightarrow> do {
           (cur, r) \<leftarrow> icmp_forward args cur pkt len payload;
           put_session (with_body cur (ICMP (s_body cur)));
           State_Monad.return r
         }
     }
   }"

section \<open>The rewritten message\<close>

lemma length_icmp_rewrite [simp]: "length (icmp_rewrite c i m) = length m"
  by (simp add: icmp_rewrite_def put16_def Let_def)

lemma put16_at:
  assumes "length a = i" "length p = 2"
  shows "put16 (a @ p @ b) i v = a @ st16 v @ b"
proof -
  obtain x y where "p = [x, y]" using assms(2) by (auto simp: numeral_2_eq_2 length_Suc_conv)
  with assms(1) show ?thesis by (simp add: put16_def list_update_append st16_def)
qed

text \<open>A message of eight bytes or more, by its fields.\<close>

lemma icmp_rewrite_fields:
  "icmp_rewrite c i ([ty, code] @ st16 ck @ st16 old @ rest) =
     [ty, code] @ st16 (NOT (calc_checksum c ([ty, code] @ st16 0 @ st16 i @ rest))) @ st16 i @ rest"
proof -
  have "put16 ([ty, code] @ st16 ck @ st16 old @ rest) 4 i = [ty, code] @ st16 ck @ st16 i @ rest"
    using put16_at [of "[ty, code] @ st16 ck" 4 "st16 old" rest i] by simp
  moreover have "put16 ([ty, code] @ st16 x @ st16 i @ rest) 2 y = [ty, code] @ st16 y @ st16 i @ rest" for x y
    by (rule put16_at) simp_all
  ultimately show ?thesis by (simp only: icmp_rewrite_def Let_def)
qed

lemma icmp_rewrite_verifies:
  assumes "length rest \<le> 130000"
  shows "calc_checksum c (icmp_rewrite c i ([ty, code] @ st16 ck @ st16 old @ rest)) = 0xFFFF"
  unfolding icmp_rewrite_fields
  by (rule ics.csum_verifies [OF _ _ refl]) (use assms in simp_all)

lemma icmp_split:
  assumes "8 \<le> length m"
  obtains ty code ck old rest where "m = [ty, code] @ st16 ck @ st16 old @ rest"
    "old = get16 m 4" "length m = 6 + length rest"
proof -
  obtain a b c d e f r where m: "m = a # b # c # d # e # f # r"
    using assms by (auto simp: numeral_eq_Suc Suc_le_length_iff)
  have "get16 m 4 = le16 e f" unfolding m by (simp add: get16_def get8_def)
  then show thesis by (intro that [of a b "le16 c d" "le16 e f" r]) (simp_all add: m)
qed

section \<open>The invariant of a session\<close>

text \<open>A stored ICMP session owns an open socket until the check that deletes it.\<close>

definition icmp_wf :: "icmp_session \<Rightarrow> bool" where
  "icmp_wf u \<longleftrightarrow> i_version u \<in> {4, 6} \<and> length (i_saddr u) = addr_len (i_version u) \<and>
     length (i_daddr u) = addr_len (i_version u)"

definition icmp_inv :: "icmp_session ng_session \<Rightarrow> bool" where
  "icmp_inv s \<longleftrightarrow> icmp_wf (s_body s) \<and> 0 \<le> s_socket s \<and>
     s_protocol s = (if i_version (s_body s) = 4 then IPPROTO_ICMP else IPPROTO_ICMPV6)"

lemma icmp_wf_update [simp]:
  "icmp_wf (u\<lparr>i_time := t\<rparr>) = icmp_wf u" "icmp_wf (u\<lparr>i_stop := b\<rparr>) = icmp_wf u"
  "icmp_wf (u\<lparr>i_uid := c\<rparr>) = icmp_wf u"
  by (simp_all add: icmp_wf_def)

lemma check_icmp_session_wp:
  "wp (check_icmp_session args s n m) (\<lambda>(s', del) w'. \<exists>es. w' = w\<lparr>w_trace := es @ w_trace w\<rparr> \<and>
     (if del then s' = s\<lparr>s_socket := -1\<rparr> \<and> closed_fds es = [s_socket s] else s' = s \<and> closed_fds es = []) \<and>
     (i_stop (s_body s) \<or> i_time (s_body s) + get_icmp_timeout (s_body s) n m < ret (a_os args (w_trace w) Call_time)
       \<longrightarrow> del)) w"
proof -
  let ?t = "a_os args (w_trace w) Call_time" and ?c = "Call_close (s_socket s)"
  let ?del = "i_stop (s_body s) \<or> i_time (s_body s) + get_icmp_timeout (s_body s) n m < ret ?t"
  show ?thesis
  proof (cases ?del)
    case True
    then show ?thesis
      by (auto simp: check_icmp_session_def Let_def
          intro!: exI [of _ "[(?c, a_os args ((Call_time, ?t) # w_trace w) ?c), (Call_time, ?t)]"])
  next
    case False
    then show ?thesis by (auto simp: check_icmp_session_def Let_def intro!: exI [of _ "[(Call_time, ?t)]"])
  qed
qed

text \<open>What a message of the server becomes: the packet written to the application.\<close>

definition icmp_delivered :: "icmp_session \<Rightarrow> buf \<Rightarrow> buf" where
  "icmp_delivered u m = icmp_packet u (icmp_rewrite (icmp_reply_csum u (int (length m))) (i_id u) m)"

lemma icmp_delivered_update [simp]:
  "icmp_delivered (u\<lparr>i_time := t\<rparr>) m = icmp_delivered u m"
  by (simp add: icmp_delivered_def icmp_packet_def icmp_reply_csum_def)

lemma icmp_received_wp:
  assumes "n = int (length data)"
  shows "wp (icmp_received args s n data) (\<lambda>s' w'. (s' = s \<or> s' = s\<lparr>s_body := (s_body s)\<lparr>i_stop := True\<rparr>\<rparr>) \<and>
    (\<exists>es. w' = w\<lparr>w_trace := es @ w_trace w\<rparr> \<and> recv_data es = [] \<and>
          tun_packets es = [icmp_delivered (s_body s) data])) w"
proof -
  have tr: "\<exists>es. w\<lparr>w_trace := es2 @ es1 @ w_trace w\<rparr> = w\<lparr>w_trace := es @ w_trace w\<rparr> \<and>
      recv_data es = [] \<and> tun_packets es = [icmp_delivered (s_body s) data]"
    if "quiet es2" "tun_packets es1 = [icmp_delivered (s_body s) data]"
      "\<forall>e \<in> set es1. is_tun_call (fst e)" for es1 es2
    using that by (intro exI [of _ "es2 @ es1"]) (simp add: recv_data_append tun_packets_append)
  show ?thesis
    unfolding icmp_received_def Let_def wp_bind wp_return write_icmp_def
    by (intro wp_tun_write wp_quiet_log) (auto simp: icmp_delivered_def [symmetric] assms intro!: tr)
qed

lemma check_icmp_socket_wp:
  assumes "icmp_inv s"
  shows "wp (check_icmp_socket args s ev) (\<lambda>s' w'.
    icmp_inv s' \<and> s_addr s' = s_addr s \<and> s_protocol s' = s_protocol s \<and> s_socket s' = s_socket s \<and>
    (\<exists>es. w' = w\<lparr>w_trace := es @ w_trace w\<rparr> \<and>
          tun_packets es = map (icmp_delivered (s_body s)) (recv_data es))) w"
    (is "wp _ ?Q w")
proof -
  let ?t = "a_os args (w_trace w) Call_time"
  let ?w1 = "(Call_time, ?t) # w_trace w"
  let ?c = "Call_recv (s_socket s) (unat (if i_version (s_body s) = 4 then ICMP4_MAXMSG else ICMP6_MAXMSG))"
  let ?r = "a_os args ?w1 ?c"
  consider "ev AND EPOLLERR \<noteq> 0" | "ev AND EPOLLERR = 0" "ev AND EPOLLIN = 0"
    | "ev AND EPOLLERR = 0" "ev AND EPOLLIN \<noteq> 0" "ret ?r \<le> 0"
    | (data) "ev AND EPOLLERR = 0" "ev AND EPOLLIN \<noteq> 0" "0 < ret ?r" by linarith
  then show ?thesis
  proof cases
    case 1
    let ?g = "Call_getsockopt (s_socket s) SO_ERROR"
    show ?thesis
      using 1 assms
      by (auto simp: check_icmp_socket_def Let_def icmp_inv_def
          intro!: exI [of _ "[(?g, a_os args ?w1 ?g), (Call_time, ?t)]"])
  next
    case 2
    then show ?thesis using assms by (auto simp: check_icmp_socket_def intro!: exI [of _ "[]"])
  next
    case 3
    show ?thesis
      using 3 assms
      by (auto simp: check_icmp_socket_def Let_def icmp_inv_def intro!: exI [of _ "[(?c, ?r), (Call_time, ?t)]"])
  next
    case data
    let ?s = "s\<lparr>s_body := (s_body s)\<lparr>i_time := ret ?t\<rparr>\<rparr>"
    let ?d = "get_bytes (bytes ?r) 0 (nat (ret ?r))"
    have "wp (icmp_received args ?s (ret ?r) ?d) ?Q (w\<lparr>w_trace := (?c, ?r) # ?w1\<rparr>)"
    proof (rule wp_mono [OF icmp_received_wp], goal_cases)
      case (2 s' w')
      then obtain es where "w' = w\<lparr>w_trace := es @ (?c, ?r) # ?w1\<rparr>" "recv_data es = []"
          "tun_packets es = [icmp_delivered (s_body s) ?d]"
        by auto
      then show ?case
        using 2 data(3) assms by (auto simp: icmp_inv_def recv_data_append tun_packets_append
            intro!: exI [of _ "es @ [(?c, ?r), (Call_time, ?t)]"])
    qed (use data(3) in simp)
    then show ?thesis using data by (simp add: check_icmp_socket_def Let_def)
  qed
qed

section \<open>Handling a packet keeps the store\<close>

lemma returns_icmp_forward:
  assumes "icmp_inv cur"
  shows "returns (\<lambda>(cur', r). icmp_inv cur' \<and> s_addr cur' = s_addr cur \<and> s_protocol cur' = s_protocol cur \<and>
      s_socket cur' = s_socket cur)
    (icmp_forward args cur pkt len payload)"
  unfolding icmp_forward_def by (intro returns_rules) (use assms in \<open>auto simp: icmp_inv_def\<close>)

lemma frame_icmp_forward: "frame store (icmp_forward args cur pkt len payload)"
  unfolding icmp_forward_def by (intro frame_rules) simp_all

lemma open_icmp_socket_summary:
  "frame store (open_icmp_socket args u)" "returns (\<lambda>r. r = -1 \<or> 0 \<le> r) (open_icmp_socket args u)"
  unfolding open_icmp_socket_def
  by (intro frame_rules; simp) (intro returns_rules; simp)

lemma icmp_new_session_wp:
  assumes "ip_version pkt \<in> {4, 6}"
    and none: "\<And>w'. store w' = (w_sessions w, w_fresh w + 1) \<Longrightarrow> Q None w'"
    and some: "\<And>s w'. icmp_inv s \<Longrightarrow> s_addr s = w_fresh w \<Longrightarrow>
      store w' = (with_body s (ICMP (s_body s)) # w_sessions w, w_fresh w + 1) \<Longrightarrow> Q (Some s) w'"
  shows "wp (icmp_new_session args pkt payload uid) Q w"
  unfolding icmp_new_session_def Let_def wp_bind wp_fresh_addr wp_time
  by (rule wp_frame_returns [OF open_icmp_socket_summary])
    (use assms(1) in \<open>auto simp: Let_def icmp_inv_def icmp_wf_def with_body_def intro!: none some\<close>)

locale icmp_store =
  fixes ok :: "session \<Rightarrow> bool"
  assumes ok_ICMP: "s_body s = ICMP u \<Longrightarrow> ok s \<longleftrightarrow> icmp_inv (with_body s u)"
begin

lemma ok_with: "icmp_inv s \<Longrightarrow> ok (with_body s (ICMP (s_body s)))"
  by (simp add: ok_ICMP [of _ "s_body s"])

lemma handle_icmp_keeps:
  assumes w: "evolves ok z w" and v: "ip_version pkt \<in> {4, 6}"
  shows "wp (handle_icmp args pkt len payload uid) (\<lambda>_. evolves ok z) w"
proof -
  have same: "evolves ok z w'" if "store w' = store w" for w' using evolves_same [OF that w] .
  have fwd: "wp (icmp_forward args cur pkt len payload)
      (\<lambda>(c, r). wp (put_session (with_body c (ICMP (s_body c)))) (\<lambda>_. evolves ok z)) w1"
    if "evolves ok z w1" "icmp_inv cur" "(s_addr cur, s_socket cur) \<in> sockets w1" for cur w1
    by (rule wp_frame_returns [OF frame_icmp_forward returns_icmp_forward [OF that(2)]])
      (use that in \<open>auto simp: sockets_def intro!: evolves_put ok_with intro: evolves_same\<close>)
  show ?thesis
  proof (cases "get8 pkt payload \<noteq> ICMP_ECHO")
    case True
    then show ?thesis using same by (simp add: handle_icmp_def touch_ip_def)
  next
    case echo: False
    define w0 where "w0 = w\<lparr>w_ub := (w_ub w \<or> length pkt < (if ip_version pkt = 4 then 20 else 40)) \<or>
      length pkt < payload + 8\<rparr>"
    have w0: "evolves ok z w0" "w_sessions w0 = w_sessions w" by (auto simp: w0_def intro: same)
    show ?thesis
    proof (cases "find (icmp_match pkt) (w_sessions w)")
      case None
      have "wp (icmp_new_session args pkt payload uid)
        (\<lambda>cur. wp (case cur of None \<Rightarrow> State_Monad.return False
           | Some cur \<Rightarrow> do { (cur, r) \<leftarrow> icmp_forward args cur pkt len payload;
               put_session (with_body cur (ICMP (s_body cur))); State_Monad.return r }) (\<lambda>_. evolves ok z)) w0"
        by (rule icmp_new_session_wp [OF v])
          (auto simp: case_prod_beta' sockets_def intro!: fwd [unfolded case_prod_beta', simplified]
            intro: evolves_fresh [OF w0(1)] evolves_push [OF w0(1) ok_with])
      then show ?thesis using None w0 echo by (simp add: handle_icmp_def touch_ip_def w0_def)
    next
      case (Some s)
      then obtain u where u: "s \<in> set (w_sessions w)" "s_body s = ICMP u"
        by (auto dest!: find_SomeD simp: icmp_match_def split: session_body.splits)
      then have inv: "icmp_inv (with_body s u)"
        using evolvesD [OF w] ok_ICMP [of s u] by simp
      let ?v = "if i_uid u = -1 \<and> uid > 0 then u\<lparr>i_uid := uid\<rparr> else u"
      have "icmp_inv (with_body s ?v)" using inv by (simp add: icmp_inv_def)
      moreover have "(s_addr s, s_socket s) \<in> sockets w0" using u(1) w0(2) by (auto simp: sockets_def)
      ultimately show ?thesis
        using Some u w0 echo fwd [of w0 "with_body s ?v"]
        by (auto simp: handle_icmp_def touch_ip_def w0_def case_prod_beta')
    qed
  qed
qed

end

definition icmp_sess_ok :: "session \<Rightarrow> bool" where
  "icmp_sess_ok s = (case s_body s of ICMP u \<Rightarrow> icmp_inv (with_body s u) | _ \<Rightarrow> True)"

interpretation icmp_only: icmp_store icmp_sess_ok
  by unfold_locales (simp add: icmp_sess_ok_def)

section \<open>What is sent and what is delivered\<close>

lemma icmp_rewrite_ok:
  assumes "8 \<le> length m" "length m \<le> 130000"
  shows "calc_checksum c (icmp_rewrite c i m) = 0xFFFF" "get16 (icmp_rewrite c i m) 4 = i"
    "take 2 (icmp_rewrite c i m) = take 2 m" "drop 6 (icmp_rewrite c i m) = drop 6 m"
proof -
  obtain ty code ck old rest where m: "m = [ty, code] @ st16 ck @ st16 old @ rest" "length m = 6 + length rest"
    using icmp_split [OF assms(1)] by metis
  show "calc_checksum c (icmp_rewrite c i m) = 0xFFFF"
    unfolding m(1) by (rule icmp_rewrite_verifies) (use m(2) assms(2) in simp)
  show "take 2 (icmp_rewrite c i m) = take 2 m" "drop 6 (icmp_rewrite c i m) = drop 6 m"
    unfolding m(1) icmp_rewrite_fields by (simp_all add: st16_def)
  have "get16 (a @ st16 x @ b) (length a) = x" for a x b
    by (simp add: get16_def get8_def nth_append st16_def le16_split)
  from this [of "[ty, code] @ st16 (NOT (calc_checksum c ([ty, code] @ st16 0 @ st16 i @ rest)))"]
  show "get16 (icmp_rewrite c i m) 4 = i"
    unfolding m(1) icmp_rewrite_fields by simp
qed

lemma icmp_forward_sends:
  assumes "payload \<le> len" "len \<le> length pkt" "length pkt < 2 ^ 32"
  shows "wp (icmp_forward args cur pkt len payload) (\<lambda>(c, r) w'. \<exists>a t.
    w' = w\<lparr>w_trace := (Call_sendto (s_socket cur) (icmp_rewrite (icmp_request_csum pkt)
        (NOT (get16 pkt (payload + 4))) (take (len - payload) (drop payload pkt))) (ip_daddr pkt) 0, a) #
      (Call_time, t) # w_trace w\<rparr>) w"
proof -
  have n: "unat (word_of_nat len - word_of_nat payload :: u64) = len - payload"
    "unat (ucast (word_of_nat len - word_of_nat payload :: u64) :: u32) = len - payload"
    using assms unat_diff_u64 [of payload len] by simp_all
  have "wp (load pkt payload (unat (word_of_nat len - word_of_nat payload :: u64))) Q =
      Q (take (len - payload) (drop payload pkt))" for Q
    using assms(1,2) by (simp add: n fun_eq_iff)
  then show ?thesis
    using assms(2) unfolding icmp_forward_def Let_def by (auto simp: Let_def n simp del: wp_load)
qed

section \<open>Claims\<close>

text \<open>
  C20: an IPv4 echo request of a flow with a session is forwarded: the one call on a socket
  sends to the packet's destination the message with its identifier complemented, a checksum
  that verifies, and every other byte as the application wrote it; no access leaves the packet.
\<close>

theorem handle_icmp_forwards:
  assumes "find (icmp_match pkt) (w_sessions w) = Some s" "s_body s = ICMP u"
    and "get8 pkt payload = ICMP_ECHO" "ip_version pkt = 4"
    and "payload + 8 \<le> len" "20 \<le> len" "len \<le> length pkt" "length pkt \<le> 65535"
    and "m = take (len - payload) (drop payload pkt)"
  shows "\<exists>msg a t r w'. run_state (handle_icmp args pkt len payload uid) w = (r, w') \<and> w_ub w' = w_ub w \<and>
    w_trace w' = (Call_sendto (s_socket s) msg (ip_daddr pkt) 0, a) # (Call_time, t) # w_trace w \<and>
    calc_checksum 0 msg = 0xFFFF \<and> get16 msg 4 = NOT (get16 pkt (payload + 4)) \<and>
    take 2 msg = take 2 m \<and> drop 6 msg = drop 6 m"
proof -
  let ?v = "if i_uid u = -1 \<and> uid > 0 then u\<lparr>i_uid := uid\<rparr> else u"
  let ?msg = "icmp_rewrite 0 (NOT (get16 pkt (payload + 4))) m"
  let ?c = "Call_sendto (s_socket s) ?msg (ip_daddr pkt) 0"
  have c: "icmp_request_csum pkt = 0" using assms(4) by (simp add: icmp_request_csum_def)
  have "wp (icmp_forward args (with_body s ?v) pkt len payload)
      (\<lambda>p w'. \<exists>a t. w' = w\<lparr>w_trace := (?c, a) # (Call_time, t) # w_trace w\<rparr>) w"
    using icmp_forward_sends [of payload len pkt args "with_body s ?v" w] assms
    unfolding with_body_sel c case_prod_beta' by simp
  then have "wp (handle_icmp args pkt len payload uid)
      (\<lambda>r w'. \<exists>a t. w_ub w' = w_ub w \<and> w_trace w' = (?c, a) # (Call_time, t) # w_trace w) w"
    using assms(1-7)
    by (auto simp: handle_icmp_def touch_ip_def case_prod_beta' split: if_splits elim!: wp_mono)
  moreover have "8 \<le> length m" "length m \<le> 130000" using assms(5,7,8,9) by auto
  note icmp_rewrite_ok [OF this, of 0 "NOT (get16 pkt (payload + 4))"]
  ultimately show ?thesis by (auto simp: wp_def split: prod.splits)
qed

definition ping :: buf where
  "ping = [0x45, 0, 0, 30, 0, 0, 0, 0, 64, 1, 0, 0, 10, 1, 10, 1, 8, 8, 8, 8,
     8, 0, 0, 0, 0x12, 0x34, 0, 1, 104, 105]"

definition ping_session :: icmp_session where
  "ping_session = \<lparr>i_time = 0, i_uid = 10001, i_version = 4, i_saddr = [10, 1, 10, 1], i_daddr = [8, 8, 8, 8],
     i_id = 0x3412, i_stop = False\<rparr>"

definition ping_socket :: "icmp_session ng_session" where
  "ping_socket = \<lparr>s_addr = 0, s_protocol = IPPROTO_ICMP, s_body = ping_session, s_socket = 9, s_events = 9\<rparr>"

definition ping_world :: world where
  "ping_world = empty_world\<lparr>w_sessions := [with_body ping_socket (ICMP ping_session)], w_fresh := 1\<rparr>"

lemma ping_inv: "icmp_inv ping_socket"
  by (simp add: icmp_inv_def icmp_wf_def ping_socket_def ping_session_def addr_len_def)

theorem handle_icmp_forwards_witness:
  "\<exists>msg a t r w'. run_state (handle_icmp idle_args ping 30 20 10001) ping_world = (r, w') \<and>
    w_ub w' = w_ub ping_world \<and>
    w_trace w' = (Call_sendto (s_socket (with_body ping_socket (ICMP ping_session))) msg (ip_daddr ping) 0, a) #
      (Call_time, t) # w_trace ping_world \<and>
    calc_checksum 0 msg = 0xFFFF \<and> get16 msg 4 = NOT (get16 ping (20 + 4)) \<and>
    take 2 msg = take 2 (take (30 - 20) (drop 20 ping)) \<and> drop 6 msg = drop 6 (take (30 - 20) (drop 20 ping))"
proof (rule handle_icmp_forwards [where u = ping_session])
  show "find (icmp_match ping) (w_sessions ping_world) = Some (with_body ping_socket (ICMP ping_session))"
    by (simp add: ping_world_def icmp_match_def ping_socket_def ping_session_def ping_def ip_version_def ip_saddr_def
        ip_daddr_def get_bytes_def get8_def upt_rec ipproto_defs)
qed (simp_all add: ping_def ip_version_def get8_def ICMP_ECHO_def)

text \<open>
  C21: on a socket event of an ICMP session every message received is written to the
  application exactly once, in order, as a packet of the session; over IPv4 the packet has a
  valid header, the message in it a valid checksum and the session's identifier, whatever
  identifier the server answered with; the session keeps its socket and its invariant.
\<close>

theorem check_icmp_socket_delivers:
  assumes "icmp_inv s" "run_state (check_icmp_socket args s ev) w = (s', w')"
  shows "icmp_inv s' \<and> s_socket s' = s_socket s \<and>
    (\<exists>es. w' = w\<lparr>w_trace := es @ w_trace w\<rparr> \<and> tun_packets es = map (icmp_delivered (s_body s)) (recv_data es)) \<and>
    (i_version (s_body s) = 4 \<longrightarrow> (\<forall>m. 8 \<le> length m \<and> length m \<le> 65507 \<longrightarrow>
       ip4_ok (icmp_delivered (s_body s) m) \<and>
       calc_checksum 0 (drop 20 (icmp_delivered (s_body s) m)) = 0xFFFF \<and>
       get16 (drop 20 (icmp_delivered (s_body s) m)) 4 = i_id (s_body s)))"
proof (intro conjI impI allI)
  let ?u = "s_body s"
  assume v: "i_version ?u = 4"
  fix m :: buf
  assume m: "8 \<le> length m \<and> length m \<le> 65507"
  have l: "length (i_saddr ?u) = 4" "length (i_daddr ?u) = 4"
    using assms(1) v by (simp_all add: icmp_inv_def icmp_wf_def addr_len_def)
  have d: "icmp_delivered ?u m = ip4_header IPPROTO_ICMP (20 + length m) (i_daddr ?u) (i_saddr ?u) @ icmp_rewrite 0 (i_id ?u) m"
    using v by (simp add: icmp_delivered_def icmp_packet_def icmp_reply_csum_def)
  show "ip4_ok (icmp_delivered ?u m)"
    using ip4_header_ok [of "i_daddr ?u" "i_saddr ?u" "icmp_rewrite 0 (i_id ?u) m" IPPROTO_ICMP] l m
    by (simp add: d)
  have "drop 20 (icmp_delivered ?u m) = icmp_rewrite 0 (i_id ?u) m"
    using l by (simp add: d ip4_header_def ip4_bytes_def)
  then show "calc_checksum 0 (drop 20 (icmp_delivered ?u m)) = 0xFFFF"
      "get16 (drop 20 (icmp_delivered ?u m)) 4 = i_id ?u"
    using icmp_rewrite_ok [of m 0 "i_id ?u"] m by simp_all
qed (use check_icmp_socket_wp [OF assms(1), of args ev w] assms(2) in \<open>simp_all add: wp_def\<close>)

theorem check_icmp_socket_delivers_witness:
  "\<exists>s' w' es. run_state (check_icmp_socket idle_args ping_socket 1) empty_world = (s', w') \<and> icmp_inv s' \<and>
     w' = empty_world\<lparr>w_trace := es @ w_trace empty_world\<rparr> \<and>
     tun_packets es = map (icmp_delivered (s_body ping_socket)) (recv_data es) \<and>
     get16 (drop 20 (icmp_delivered (s_body ping_socket) [0, 0, 0, 0, 1, 2, 3, 4])) 4 = i_id (s_body ping_socket)"
proof -
  obtain s' w' where r: "run_state (check_icmp_socket idle_args ping_socket 1) empty_world = (s', w')" by fastforce
  have "i_version (s_body ping_socket) = 4" by (simp add: ping_socket_def ping_session_def)
  moreover have "8 \<le> length [0, 0, 0, 0, 1, 2, 3, 4 :: u8] \<and> length [0, 0, 0, 0, 1, 2, 3, 4 :: u8] \<le> 65507" by simp
  ultimately show ?thesis using check_icmp_socket_delivers [OF ping_inv r] r by blast
qed

end
