(* ===== verification/Uid.thy ===== *)
theory Uid
  imports Jni Util
begin

text \<open>
  The owner of a flow, \<open>get_uid\<close> and \<open>get_uid_sub\<close> of \<open>ip.c\<close>: the socket tables of
  \<open>/proc/net\<close> read line by line with \<open>fgets\<close> and \<open>sscanf\<close>, and the cache of their entries.
\<close>

definition UID_MAX_AGE :: int where "UID_MAX_AGE = 30000"

section \<open>\<open>fgets\<close> and \<open>sscanf\<close>\<close>

text \<open>\<open>fgets(line, 250, fd)\<close>: up to 249 characters through the next newline, and what is left.\<close>

fun fgets_line :: "nat \<Rightarrow> buf \<Rightarrow> buf \<times> buf" where
  "fgets_line 0 b = ([], b)"
| "fgets_line (Suc n) [] = ([], [])"
| "fgets_line (Suc n) (c # b) = (if c = 10 then ([10], b) else (case fgets_line n b of (l, r) \<Rightarrow> (c # l, r)))"

lemma fgets_line_shorter: "fgets_line (Suc n) (c # b) = (l, r) \<Longrightarrow> length r < Suc (length b)"
proof -
  have "length (snd (fgets_line m b)) \<le> length b" for m b
    by (induction m b rule: fgets_line.induct) (auto split: prod.splits)
  from this [of n b] show "fgets_line (Suc n) (c # b) = (l, r) \<Longrightarrow> length r < Suc (length b)"
    by (auto split: if_splits prod.splits)
qed

text \<open>The lines \<open>fgets\<close> returns until the end of the file, as C strings.\<close>

function file_lines :: "buf \<Rightarrow> buf list" where
  "file_lines [] = []"
| "file_lines (c # b) = (case fgets_line 249 (c # b) of (l, r) \<Rightarrow> takeWhile (\<lambda>x. x \<noteq> 0) l # file_lines r)"
  by pat_completeness auto

termination file_lines
proof (relation "measure length", goal_cases)
  case (2 c b l r)
  then show ?case using fgets_line_shorter [of 248 c b l r] by (simp add: numeral_eq_Suc)
qed simp

definition is_space :: "u8 \<Rightarrow> bool" where
  "is_space c \<longleftrightarrow> c \<in> {32, 9, 10, 11, 12, 13}"

text \<open>\<open>%ns\<close>, a literal character, and \<open>%d\<close> or \<open>%X\<close> as numbers of base 10 and 16.\<close>

definition skip_space :: "buf \<Rightarrow> buf" where
  "skip_space = dropWhile is_space"

definition scan_word :: "nat \<Rightarrow> buf \<Rightarrow> (buf \<times> buf) option" where
  "scan_word n b =
     (let b = skip_space b; w = take n (takeWhile (\<lambda>c. \<not> is_space c) b)
      in if w = [] then None else Some (w, drop (length w) b))"

fun scan_char :: "u8 \<Rightarrow> buf \<Rightarrow> buf option" where
  "scan_char c [] = None"
| "scan_char c (x # b) = (if x = c then Some b else None)"

definition digit_of :: "nat \<Rightarrow> u8 \<Rightarrow> nat option" where
  "digit_of base c =
     (let v = (if 48 \<le> c \<and> c \<le> 57 then unat (c - 48)
               else if 65 \<le> c \<and> c \<le> 70 then unat (c - 55)
               else if 97 \<le> c \<and> c \<le> 102 then unat (c - 87) else 16)
      in if v < base then Some v else None)"

fun scan_digits :: "nat \<Rightarrow> nat \<Rightarrow> buf \<Rightarrow> nat \<times> buf" where
  "scan_digits base v [] = (v, [])"
| "scan_digits base v (c # b) = (case digit_of base c of None \<Rightarrow> (v, c # b) | Some d \<Rightarrow> scan_digits base (v * base + d) b)"

definition scan_unsigned :: "nat \<Rightarrow> buf \<Rightarrow> (int \<times> buf) option" where
  "scan_unsigned base b =
     (case b of [] \<Rightarrow> None
      | c # r \<Rightarrow>
          let b = (if base = 16 \<and> c = 48 \<and> length r \<ge> 2 \<and> (r ! 0 = 120 \<or> r ! 0 = 88) \<and> digit_of 16 (r ! 1) \<noteq> None
                   then drop 1 r else b)
          in if digit_of base (b ! 0) = None then None
             else (case scan_digits base 0 b of (v, b) \<Rightarrow> Some (int v, b)))"

definition scan_num :: "nat \<Rightarrow> buf \<Rightarrow> (int \<times> buf) option" where
  "scan_num base b =
     (case skip_space b of
        [] \<Rightarrow> None
      | c # r \<Rightarrow> if c = 45 then map_option (\<lambda>(v, b). (- v, b)) (scan_unsigned base r)
                 else if c = 43 then scan_unsigned base r
                 else scan_unsigned base (c # r))"

text \<open>An assignment to an \<open>int\<close>.\<close>

definition to_int :: "int \<Rightarrow> int" where
  "to_int v = sint (word_of_int v :: u32)"

lemma to_int_small: "0 \<le> v \<Longrightarrow> v < 2 ^ 31 \<Longrightarrow> to_int v = v"
  by (simp add: to_int_def sint_sbintrunc' signed_take_bit_int_eq_self)

section \<open>Lines of the socket tables\<close>

record proc_entry =
  p_saddr :: buf
  p_sport :: int
  p_daddr :: buf
  p_dport :: int
  p_uid :: int

text \<open>\<open>htonl\<close> on each 32 bit word.\<close>

fun swap_words :: "buf \<Rightarrow> buf" where
  "swap_words (a # b # c # d # r) = d # c # b # a # swap_words r"
| "swap_words r = r"

text \<open>
  The call of \<open>sscanf\<close> with \<open>%*d: %8s:%X %8s:%X %*X %*lX:%*lX %*X:%*X %*X %d\<close> (\<open>%32s\<close> for version 6):
  \<^term>\<open>None\<close> unless it assigns all five fields and both addresses have their length.
\<close>

definition parse_line :: "nat \<Rightarrow> buf \<Rightarrow> proc_entry option" where
  "parse_line ws line = do {
     (_, b) \<leftarrow> scan_num 10 line;
     b \<leftarrow> scan_char 58 b;
     (shex, b) \<leftarrow> scan_word (ws * 8) b;
     b \<leftarrow> scan_char 58 b;
     (sport, b) \<leftarrow> scan_num 16 b;
     (dhex, b) \<leftarrow> scan_word (ws * 8) b;
     b \<leftarrow> scan_char 58 b;
     (dport, b) \<leftarrow> scan_num 16 b;
     (_, b) \<leftarrow> scan_num 16 b;
     (_, b) \<leftarrow> scan_num 16 b;
     b \<leftarrow> scan_char 58 b;
     (_, b) \<leftarrow> scan_num 16 b;
     (_, b) \<leftarrow> scan_num 16 b;
     b \<leftarrow> scan_char 58 b;
     (_, b) \<leftarrow> scan_num 16 b;
     (_, b) \<leftarrow> scan_num 16 b;
     (uid, _) \<leftarrow> scan_num 10 b;
     if length shex = ws * 8 \<and> length dhex = ws * 8
     then Some \<lparr>p_saddr = swap_words (hex2bytes shex), p_sport = to_int sport,
                p_daddr = swap_words (hex2bytes dhex), p_dport = to_int dport, p_uid = to_int uid\<rparr>
     else None
   }"

section \<open>The lookup\<close>

definition words_of :: "int \<Rightarrow> nat" where
  "words_of version = (if version = 4 then 1 else 4)"

text \<open>An address of a table or the cache covers one of the flow: equal, or zero.\<close>

definition covers :: "nat \<Rightarrow> buf \<Rightarrow> buf \<Rightarrow> bool" where
  "covers ws a b \<longleftrightarrow> a = b \<or> a = replicate (ws * 4) 0"

definition cache_hit :: "int \<Rightarrow> int \<Rightarrow> u8 \<Rightarrow> buf \<Rightarrow> u16 \<Rightarrow> buf \<Rightarrow> u16 \<Rightarrow> uid_cache_entry \<Rightarrow> bool" where
  "cache_hit now version protocol saddr sport daddr dport e \<longleftrightarrow>
     now - c_time e \<le> UID_MAX_AGE \<and> uint (c_version e) = version \<and> c_protocol e = protocol \<and>
     c_sport e = sport \<and> (c_dport e = dport \<or> c_dport e = 0) \<and>
     covers (words_of version) (c_saddr e) saddr \<and> covers (words_of version) (c_daddr e) daddr"

definition proc_file :: "int \<Rightarrow> u8 \<Rightarrow> string option" where
  "proc_file version protocol =
     (if protocol = IPPROTO_ICMP \<and> version = 4 then Some ''/proc/net/icmp''
      else if protocol = IPPROTO_ICMPV6 \<and> version = 6 then Some ''/proc/net/icmp6''
      else if protocol = IPPROTO_TCP then Some (if version = 4 then ''/proc/net/tcp'' else ''/proc/net/tcp6'')
      else if protocol = IPPROTO_UDP then Some (if version = 4 then ''/proc/net/udp'' else ''/proc/net/udp6'')
      else None)"

definition entry_matches :: "nat \<Rightarrow> buf \<Rightarrow> u16 \<Rightarrow> buf \<Rightarrow> u16 \<Rightarrow> proc_entry \<Rightarrow> bool" where
  "entry_matches ws saddr sport daddr dport e \<longleftrightarrow>
     p_sport e = uint sport \<and> (p_dport e = uint dport \<or> p_dport e = 0) \<and>
     covers ws (p_saddr e) saddr \<and> covers ws (p_daddr e) daddr"

text \<open>The index of the next expired entry from \<open>c\<close> on, or the size of the cache.\<close>

function next_expired :: "int \<Rightarrow> uid_cache_entry list \<Rightarrow> nat \<Rightarrow> nat" where
  "next_expired now cache c =
     (if c < length cache then if now - c_time (cache ! c) > UID_MAX_AGE then c else next_expired now cache (c + 1)
      else c)"
  by pat_completeness auto

termination next_expired
  by (relation "measure (\<lambda>(now, cache, c). length cache - c)") auto

definition cache_put :: "uid_cache_entry list \<Rightarrow> nat \<Rightarrow> uid_cache_entry \<Rightarrow> uid_cache_entry list" where
  "cache_put cache c e = (if c < length cache then cache[c := e] else cache @ [e])"

definition entry_of :: "int \<Rightarrow> u8 \<Rightarrow> int \<Rightarrow> proc_entry \<Rightarrow> uid_cache_entry" where
  "entry_of version protocol now e =
     \<lparr>c_version = word_of_int version, c_protocol = protocol, c_saddr = p_saddr e, c_sport = word_of_int (p_sport e),
      c_daddr = p_daddr e, c_dport = word_of_int (p_dport e), c_uid = p_uid e, c_time = now\<rparr>"

text \<open>
  The loop over the lines after the first. Its state is the owner found so far, the cache and
  the index into it; \<^term>\<open>Inl\<close> is the return at a line that does not parse.
\<close>

fun scan_lines ::
  "int \<Rightarrow> u8 \<Rightarrow> buf \<Rightarrow> u16 \<Rightarrow> buf \<Rightarrow> u16 \<Rightarrow> int \<Rightarrow> int \<Rightarrow> uid_cache_entry list \<Rightarrow> nat \<Rightarrow> buf list \<Rightarrow>
     (uid_cache_entry list + int \<times> uid_cache_entry list)" where
  "scan_lines version protocol saddr sport daddr dport now uid cache c [] = Inr (uid, cache)"
| "scan_lines version protocol saddr sport daddr dport now uid cache c (line # lines) =
     (case parse_line (words_of version) line of
        None \<Rightarrow> Inl cache
      | Some e \<Rightarrow>
          let uid = (if entry_matches (words_of version) saddr sport daddr dport e then p_uid e else uid);
              c = next_expired now cache c;
              cache = cache_put cache c (entry_of version protocol now e)
          in scan_lines version protocol saddr sport daddr dport now uid cache c lines)"

text \<open>
  \<open>fopen\<close> answers 0 for \<open>NULL\<close>, and the file's content. On a line that does not parse the
  file stays open.
\<close>

definition get_uid_sub ::
  "arguments \<Rightarrow> int \<Rightarrow> u8 \<Rightarrow> buf \<Rightarrow> u16 \<Rightarrow> buf \<Rightarrow> u16 \<Rightarrow> int \<Rightarrow> int prog" where
  "get_uid_sub args version protocol saddr sport daddr dport now = do {
     w \<leftarrow> State_Monad.get;
     case find (cache_hit now version protocol saddr sport daddr dport) (w_uid_cache w) of
       Some e \<Rightarrow> State_Monad.return (c_uid e)
     | None \<Rightarrow> (case proc_file version protocol of
         None \<Rightarrow> State_Monad.return (-1)
       | Some fn \<Rightarrow> do {
           a \<leftarrow> syscall args (Call_fopen (map (\<lambda>c. of_char c) fn));
           if ret a = 0 then State_Monad.return (-2)
           else (case scan_lines version protocol saddr sport daddr dport now (-1) (w_uid_cache w) 0
                        (drop 1 (file_lines (bytes a))) of
               Inl cache \<Rightarrow> do {
                 State_Monad.update (\<lambda>w. w\<lparr>w_uid_cache := cache\<rparr>);
                 State_Monad.return (-2)
               }
             | Inr (uid, cache) \<Rightarrow> do {
                 State_Monad.update (\<lambda>w. w\<lparr>w_uid_cache := cache\<rparr>);
                 _ \<leftarrow> syscall args Call_fclose;
                 State_Monad.return uid
               })
         })
   }"

definition get_uid :: "arguments \<Rightarrow> int \<Rightarrow> u8 \<Rightarrow> buf \<Rightarrow> u16 \<Rightarrow> buf \<Rightarrow> u16 \<Rightarrow> int prog" where
  "get_uid args version protocol saddr sport daddr dport = do {
     now \<leftarrow> gettimeofday_ms args;
     uid \<leftarrow> (if version = 4
            then get_uid_sub args 6 protocol (replicate 10 0 @ [0xFF, 0xFF] @ saddr) sport
                   (replicate 10 0 @ [0xFF, 0xFF] @ daddr) dport now
            else State_Monad.return (-1));
     if uid = -1 then get_uid_sub args version protocol saddr sport daddr dport now
     else State_Monad.return uid
   }"

end
