(* ===== verification/Uid_Table.thy ===== *)
theory Uid_Table
  imports Uid
begin

text \<open>
  The owner lookup on the tables the kernel prints: every row of a table is read back as it was
  printed, the lookup returns the owner of the last row that covers the flow, and the cache
  answers a repeated lookup as the table did.
\<close>

section \<open>Numbers as the kernel prints them\<close>

text \<open>\<open>%0wX\<close> and \<open>%d\<close>.\<close>

fun digits :: "nat \<Rightarrow> nat \<Rightarrow> nat \<Rightarrow> buf" where
  "digits base 0 v = []"
| "digits base (Suc w) v = digits base w (v div base) @ [hex_str ! (v mod base)]"

fun decimal :: "nat \<Rightarrow> buf" where
  "decimal v = (if v < 10 then [hex_str ! v] else decimal (v div 10) @ [hex_str ! (v mod 10)])"

declare decimal.simps [simp del]

lemma length_digits [simp]: "length (digits base w v) = w"
  by (induction w arbitrary: v) auto

lemma digit_of_hex_str:
  assumes "n < base" "base \<le> 16"
  shows "digit_of base (hex_str ! n) = Some n"
proof -
  have "n \<in> {0, 1, 2, 3, 4, 5, 6, 7, 8, 9, 10, 11, 12, 13, 14, 15}"
    using assms unfolding insert_iff empty_iff by presburger
  then show ?thesis
    using assms(1) by (elim insertE emptyE) (simp_all add: hex_str_def digit_of_def Let_def)
qed

text \<open>Characters that are no digits: blanks, signs, the colon and the letter of a prefix.\<close>

definition stops :: "u8 \<Rightarrow> bool" where
  "stops c \<longleftrightarrow> c \<in> {32, 10, 58}"

lemma no_digit:
  assumes "base \<le> 16"
  shows "c \<in> {32, 9, 10, 11, 12, 13, 43, 45, 58, 88, 120} \<Longrightarrow> digit_of base c = None"
  using assms by (auto simp: digit_of_def Let_def)

lemma digit_char:
  assumes "digit_of base c = Some d" "base \<le> 16"
  shows "c \<notin> {32, 9, 10, 11, 12, 13, 43, 45, 58, 88, 120}"
  using assms no_digit [of base c] by auto

definition all_digits :: "nat \<Rightarrow> buf \<Rightarrow> bool" where
  "all_digits base ds \<longleftrightarrow> ds \<noteq> [] \<and> list_all (\<lambda>c. digit_of base c \<noteq> None) ds"

lemma all_digits_digits: "1 < base \<Longrightarrow> base \<le> 16 \<Longrightarrow> 0 < w \<Longrightarrow> all_digits base (digits base w v)"
proof (induction w arbitrary: v)
  case (Suc w)
  then show ?case
    using digit_of_hex_str [of "v mod base" base] Suc.IH [of "v div base"] by (cases w) (auto simp: all_digits_def)
qed simp

lemma all_digits_decimal: "all_digits 10 (decimal v)"
proof (induction v rule: decimal.induct)
  case (1 v)
  then show ?case
    using digit_of_hex_str [of v 10] digit_of_hex_str [of "v mod 10" 10]
    by (subst decimal.simps) (auto simp: all_digits_def)
qed

lemma scan_digits_digits:
  assumes "1 < base" "base \<le> 16"
  shows "scan_digits base a (digits base w v @ r) = scan_digits base (a * base ^ w + v mod base ^ w) r"
proof (induction w arbitrary: v r)
  case (Suc w)
  have "digit_of base (hex_str ! (v mod base)) = Some (v mod base)"
    using digit_of_hex_str assms by simp
  moreover have "(a * base ^ w + v div base mod base ^ w) * base + v mod base = a * base ^ Suc w + v mod base ^ Suc w"
    using mod_mult2_eq [of v base "base ^ w"] by (simp add: algebra_simps)
  ultimately show ?case by (simp add: Suc.IH)
qed simp

lemma scan_digits_decimal: "scan_digits 10 0 (decimal v @ r) = scan_digits 10 v r"
proof (induction v arbitrary: r rule: decimal.induct)
  case (1 v)
  show ?case
  proof (cases "v < 10")
    case True
    then show ?thesis using digit_of_hex_str [of v 10] by (subst decimal.simps) simp
  next
    case False
    then show ?thesis using digit_of_hex_str [of "v mod 10" 10] 1 by (subst decimal.simps) simp
  qed
qed

section \<open>\<open>sscanf\<close> on a row\<close>

lemma skip_blanks: "skip_space (replicate k 32 @ b) = skip_space b"
  by (induction k) (simp_all add: skip_space_def is_space_def)

lemma scan_num_digits:
  assumes "all_digits base ds" "base \<le> 16" "stops c"
  shows "scan_num base (replicate k 32 @ ds @ c # r) =
    (case scan_digits base 0 (ds @ c # r) of (v, b) \<Rightarrow> Some (int v, b))"
proof -
  obtain d ds' n where d: "ds = d # ds'" "digit_of base d = Some n"
    using assms(1) by (cases ds) (auto simp: all_digits_def)
  note ch = digit_char [OF d(2) assms(2)]
  have skip: "skip_space (ds @ c # r) = ds @ c # r"
    using ch by (simp add: d(1) skip_space_def is_space_def)
  have "(ds' @ c # r) ! 0 \<notin> {88, 120}"
  proof (cases ds')
    case (Cons e es)
    then obtain m where "digit_of base e = Some m" using assms(1) d(1) by (auto simp: all_digits_def)
    then show ?thesis using digit_char [OF _ assms(2)] Cons by auto
  qed (use assms(3) in \<open>auto simp: stops_def\<close>)
  then have "scan_unsigned base (ds @ c # r) = (case scan_digits base 0 (ds @ c # r) of (v, b) \<Rightarrow> Some (int v, b))"
    using d by (auto simp: scan_unsigned_def Let_def)
  moreover have "ds @ c # r = d # (ds' @ c # r)" by (simp add: d(1))
  ultimately show ?thesis using ch skip by (simp add: scan_num_def skip_blanks del: scan_digits.simps)
qed

lemma scan_digits_stops: "base \<le> 16 \<Longrightarrow> stops c \<Longrightarrow> scan_digits base v (c # r) = (v, c # r)"
  using no_digit [of base c] by (auto simp: stops_def)

lemma scan_num_hex:
  assumes "0 < w" "stops c" "v < 16 ^ w"
  shows "scan_num 16 (replicate k 32 @ digits 16 w v @ c # r) = Some (int v, c # r)"
  using scan_num_digits [OF all_digits_digits [of 16 w v] _ assms(2), of k r] assms
  by (simp add: scan_digits_digits scan_digits_stops del: scan_digits.simps)

lemma scan_num_decimal:
  assumes "stops c"
  shows "scan_num 10 (replicate k 32 @ decimal v @ c # r) = Some (int v, c # r)"
  using scan_num_digits [OF all_digits_decimal _ assms, of k v r] assms
  by (simp add: scan_digits_decimal scan_digits_stops del: scan_digits.simps)

section \<open>Rows of a table\<close>

text \<open>
  A row as the kernel prints it: index, addresses (each 32 bit word in host order) and ports,
  state, queues, timer, retransmits, owner and the columns after it.
\<close>

record proc_row =
  r_index :: nat
  r_entry :: proc_entry
  r_state :: nat
  r_tx :: nat
  r_rx :: nat
  r_timer :: nat
  r_when :: nat
  r_retransmits :: nat
  r_tail :: buf

definition bytes_hex :: "buf \<Rightarrow> buf" where
  "bytes_hex b = filter (\<lambda>c. c \<noteq> 32) (hex b)"

definition kernel_row :: "proc_row \<Rightarrow> buf" where
  "kernel_row r = [32, 32] @ decimal (r_index r) @ [58, 32] @
     bytes_hex (swap_words (p_saddr (r_entry r))) @ [58] @ digits 16 4 (nat (p_sport (r_entry r))) @ [32] @
     bytes_hex (swap_words (p_daddr (r_entry r))) @ [58] @ digits 16 4 (nat (p_dport (r_entry r))) @ [32] @
     digits 16 2 (r_state r) @ [32] @ digits 16 8 (r_tx r) @ [58] @ digits 16 8 (r_rx r) @ [32] @
     digits 16 2 (r_timer r) @ [58] @ digits 16 8 (r_when r) @ [32] @ digits 16 8 (r_retransmits r) @ [32, 32, 32] @
     decimal (nat (p_uid (r_entry r))) @ [32] @ r_tail r"

definition entry_ok :: "nat \<Rightarrow> proc_entry \<Rightarrow> bool" where
  "entry_ok ws e \<longleftrightarrow> length (p_saddr e) = ws * 4 \<and> length (p_daddr e) = ws * 4 \<and>
     0 \<le> p_sport e \<and> p_sport e < 65536 \<and> 0 \<le> p_dport e \<and> p_dport e < 65536 \<and> 0 \<le> p_uid e \<and> p_uid e < 2 ^ 31"

definition row_ok :: "nat \<Rightarrow> proc_row \<Rightarrow> bool" where
  "row_ok ws r \<longleftrightarrow> entry_ok ws (r_entry r) \<and> r_state r < 16 ^ 2 \<and> r_tx r < 16 ^ 8 \<and> r_rx r < 16 ^ 8 \<and>
     r_timer r < 16 ^ 2 \<and> r_when r < 16 ^ 8 \<and> r_retransmits r < 16 ^ 8 \<and>
     list_all (\<lambda>c. c \<noteq> 0 \<and> c \<noteq> 10) (r_tail r) \<and> length (kernel_row r) < 249"

lemma swap_words_swap: "swap_words (swap_words b) = b"
  by (induction b rule: swap_words.induct) auto

lemma length_swap_words [simp]: "length (swap_words b) = length b"
  by (induction b rule: swap_words.induct) auto

lemma hex_char:
  assumes "n < 16"
  shows "hex_str ! n \<notin> {0, 10}" "\<not> is_space (hex_str ! n)"
  using digit_char [OF digit_of_hex_str [OF assms order.refl]] digit_of_hex_str [OF assms order.refl]
  by (auto simp: is_space_def digit_of_def)

lemma bytes_hex_Cons:
  "bytes_hex (x # b) = hex_str ! unat (drop_bit 4 x AND 0x0F) # hex_str ! unat (x AND 0x0F) # bytes_hex b"
  using char2nible_hex_str(2) [OF unat_nibble [of x]] char2nible_hex_str(2) [OF unat_nibble [of "drop_bit 4 x"]]
  by (simp add: bytes_hex_def)

lemma bytes_hex_chars:
  "length (bytes_hex b) = 2 * length b" "list_all (\<lambda>c. \<not> is_space c \<and> c \<noteq> 0 \<and> c \<noteq> 10) (bytes_hex b)"
  using hex_char unat_nibble by (induction b) (auto simp: bytes_hex_Cons, simp_all add: bytes_hex_def)

lemma scan_word_hex:
  assumes "n = 2 * length b" "b \<noteq> []"
  shows "scan_word n (32 # bytes_hex b @ 58 # r) = Some (bytes_hex b, 58 # r)"
proof -
  let ?x = "bytes_hex b"
  have x: "0 < n" "?x \<noteq> []" "length ?x = n" "\<forall>c \<in> set ?x. \<not> is_space c"
    using bytes_hex_chars [of b] assms by (auto simp: list_all_iff)
  have "skip_space (32 # ?x @ 58 # r) = ?x @ 58 # r"
    using x by (cases ?x) (auto simp: skip_space_def is_space_def)
  moreover have "takeWhile (\<lambda>c. \<not> is_space c) (?x @ 58 # r) = ?x @ takeWhile (\<lambda>c. \<not> is_space c) (58 # r)"
    using x(4) by (simp add: takeWhile_append2)
  ultimately show ?thesis using x by (simp add: scan_word_def Let_def)
qed

lemma parse_kernel_row:
  assumes "row_ok ws r" "0 < ws"
  shows "parse_line ws (kernel_row r @ rest) = Some (r_entry r)"
proof -
  let ?e = "r_entry r"
  have e: "length (swap_words (p_saddr ?e)) = ws * 4" "length (swap_words (p_daddr ?e)) = ws * 4"
      "nat (p_sport ?e) < 16 ^ 4" "nat (p_dport ?e) < 16 ^ 4" "0 \<le> p_uid ?e" "p_uid ?e < 2 ^ 31"
      "0 \<le> p_sport ?e" "p_sport ?e < 65536" "0 \<le> p_dport ?e" "p_dport ?e < 65536"
    using assms(1) by (auto simp: row_ok_def entry_ok_def)
  have "0 < ws * 4" using assms(2) by simp
  then have ne: "swap_words (p_saddr ?e) \<noteq> []" "swap_words (p_daddr ?e) \<noteq> []"
    using e(1,2) by (metis length_greater_0_conv)+
  have s: "stops 32" "stops 58" by (simp_all add: stops_def)
  note hx0 = scan_num_hex [where k = 0, simplified] and hx1 = scan_num_hex [where k = 1, simplified]
  note dc2 = scan_num_decimal [where k = 2, simplified numeral_2_eq_2, simplified]
  note dc3 = scan_num_decimal [where k = 3, simplified numeral_3_eq_3, simplified]
  have "parse_line ws (kernel_row r @ rest) = Some (?e)"
    using assms(1) e ne s
    by (cases ?e) (simp add: parse_line_def kernel_row_def row_ok_def hx0 hx1 dc2 dc3 scan_word_hex bytes_hex_chars
        to_int_small swap_words_swap hex2bytes_hex [folded bytes_hex_def])
  then show ?thesis .
qed

section \<open>Files\<close>

lemma fgets_line_newline:
  "length l < n \<Longrightarrow> list_all (\<lambda>c. c \<noteq> 10) l \<Longrightarrow> fgets_line n (l @ 10 # b) = (l @ [10], b)"
proof (induction l arbitrary: n)
  case Nil
  then show ?case by (cases n) auto
next
  case (Cons c l)
  then show ?case by (cases n) auto
qed

lemma takeWhile_line: "list_all (\<lambda>c. c \<noteq> 0) l \<Longrightarrow> takeWhile (\<lambda>x. x \<noteq> 0) (l @ [10 :: u8]) = l @ [10]"
  by (induction l) auto

lemma file_lines_newline:
  assumes "length l < 249" "list_all (\<lambda>c. c \<noteq> 0 \<and> c \<noteq> 10) l"
  shows "file_lines (l @ 10 # b) = (l @ [10]) # file_lines b"
proof -
  have "list_all (\<lambda>c. c \<noteq> 10) l" "list_all (\<lambda>c. c \<noteq> 0) l" using assms(2) by (simp_all add: list_all_iff)
  then have "fgets_line 249 (l @ 10 # b) = (l @ [10], b)" "takeWhile (\<lambda>x. x \<noteq> 0) (l @ [10]) = l @ [10]"
    using assms(1) by (simp_all add: fgets_line_newline takeWhile_line)
  then show ?thesis by (cases l) (simp_all del: takeWhile.simps)
qed

text \<open>The text of a table: a line of headings and the rows.\<close>

definition table_text :: "buf \<Rightarrow> proc_row list \<Rightarrow> buf" where
  "table_text header rows = header @ [10] @ concat (map (\<lambda>r. kernel_row r @ [10]) rows)"

definition header_ok :: "buf \<Rightarrow> bool" where
  "header_ok h \<longleftrightarrow> length h < 249 \<and> list_all (\<lambda>c. c \<noteq> 0 \<and> c \<noteq> 10) h"

lemma digits_chars: "1 < base \<Longrightarrow> base \<le> 16 \<Longrightarrow> list_all (\<lambda>c. c \<noteq> 0 \<and> c \<noteq> 10) (digits base w v)"
proof (induction w arbitrary: v)
  case (Suc w)
  then show ?case using hex_char [of "v mod base"] mod_less_divisor [of base v] by fastforce
qed simp

lemma decimal_chars: "list_all (\<lambda>c. c \<noteq> 0 \<and> c \<noteq> 10) (decimal v)"
proof (induction v rule: decimal.induct)
  case (1 v)
  then show ?case
    using hex_char [of v] hex_char [of "v mod 10"] by (subst decimal.simps) auto
qed

lemma bytes_hex_line: "list_all (\<lambda>c. c \<noteq> 0 \<and> c \<noteq> 10) (bytes_hex b)"
  using bytes_hex_chars(2) [of b] by (simp add: list_all_iff)

lemma kernel_row_chars:
  assumes "row_ok ws r"
  shows "list_all (\<lambda>c. c \<noteq> 0 \<and> c \<noteq> 10) (kernel_row r)"
proof -
  have "list_all (\<lambda>c. c \<noteq> 0 \<and> c \<noteq> 10) (r_tail r)" using assms unfolding row_ok_def by blast
  then show ?thesis by (simp add: kernel_row_def digits_chars decimal_chars bytes_hex_line)
qed

lemma file_lines_table:
  assumes "header_ok header" "list_all (row_ok ws) rows"
  shows "file_lines (table_text header rows) = (header @ [10]) # map (\<lambda>r. kernel_row r @ [10]) rows"
proof -
  have "file_lines (concat (map (\<lambda>r. kernel_row r @ [10]) rows)) = map (\<lambda>r. kernel_row r @ [10]) rows"
    using assms(2)
    by (induction rows) (auto simp: file_lines_newline kernel_row_chars row_ok_def)
  then show ?thesis using assms(1) by (simp add: table_text_def header_ok_def file_lines_newline)
qed

section \<open>The scan\<close>

text \<open>The owner of the last entry that covers the flow.\<close>

definition table_owner :: "(proc_entry \<Rightarrow> bool) \<Rightarrow> int \<Rightarrow> proc_entry list \<Rightarrow> int" where
  "table_owner P uid es = (case find P (rev es) of None \<Rightarrow> uid | Some e \<Rightarrow> p_uid e)"

lemma find_append: "find P (xs @ ys) = (case find P xs of None \<Rightarrow> find P ys | Some x \<Rightarrow> Some x)"
  by (induction xs) auto

lemma table_owner_Cons: "table_owner P uid (e # es) = table_owner P (if P e then p_uid e else uid) es"
  by (simp add: table_owner_def find_append split: option.split)

text \<open>An entry of the cache that has not expired stays, and each row is added.\<close>

declare next_expired.simps [simp del]

lemma next_expired_is: "next_expired now cache c < length cache \<Longrightarrow> UID_MAX_AGE < now - c_time (cache ! next_expired now cache c)"
proof (induction now cache c rule: next_expired.induct)
  case (1 now cache c)
  then show ?case by (subst next_expired.simps, subst (asm) (2) next_expired.simps) (auto split: if_splits)
qed

lemma cache_put_keeps:
  assumes "x \<in> set cache" "now - c_time x \<le> UID_MAX_AGE"
  shows "x \<in> set (cache_put cache (next_expired now cache c) e)"
proof -
  let ?c = "next_expired now cache c"
  obtain j where j: "j < length cache" "x = cache ! j" using assms(1) by (auto simp: in_set_conv_nth)
  have "?c < length cache \<Longrightarrow> j \<noteq> ?c" using next_expired_is [of now cache c] assms(2) j by auto
  then have "cache[?c := e] ! j = x" if "?c < length cache" using that j by simp
  moreover have "j < length (cache[?c := e])" using j by simp
  ultimately show ?thesis using assms(1) nth_mem by (fastforce simp: cache_put_def)
qed

lemma cache_put_new: "e \<in> set (cache_put cache c e)"
  by (auto simp: cache_put_def set_update_memI)

lemma cache_put_old: "x \<in> set (cache_put cache c e) \<Longrightarrow> x = e \<or> x \<in> set cache"
  using set_update_subset_insert [of cache c e] by (auto simp: cache_put_def split: if_splits)

lemma scan_lines_table:
  assumes "list_all (row_ok (words_of version)) rows"
  shows "\<exists>cache'. scan_lines version protocol saddr sport daddr dport now uid cache c
      (map (\<lambda>r. kernel_row r @ [10]) rows) =
    Inr (table_owner (entry_matches (words_of version) saddr sport daddr dport) uid (map r_entry rows), cache') \<and>
    (\<forall>x \<in> set cache. now - c_time x \<le> UID_MAX_AGE \<longrightarrow> x \<in> set cache') \<and>
    (\<forall>r \<in> set rows. entry_of version protocol now (r_entry r) \<in> set cache') \<and>
    set cache' \<subseteq> set cache \<union> entry_of version protocol now ` r_entry ` set rows"
  using assms
proof (induction rows arbitrary: uid cache c)
  case Nil
  then show ?case by (simp add: table_owner_def)
next
  case (Cons r rows)
  have "0 < words_of version" by (simp add: words_of_def)
  then have parse: "parse_line (words_of version) (kernel_row r @ [10]) = Some (r_entry r)"
    using Cons.prems by (simp add: parse_kernel_row)
  let ?e = "entry_of version protocol now (r_entry r)" and ?c = "next_expired now cache c"
  let ?cache = "cache_put cache ?c ?e"
  let ?uid = "if entry_matches (words_of version) saddr sport daddr dport (r_entry r) then p_uid (r_entry r) else uid"
  obtain cache' where IH: "scan_lines version protocol saddr sport daddr dport now ?uid ?cache ?c
      (map (\<lambda>r. kernel_row r @ [10]) rows) =
      Inr (table_owner (entry_matches (words_of version) saddr sport daddr dport) ?uid (map r_entry rows), cache')"
    "\<forall>x \<in> set ?cache. now - c_time x \<le> UID_MAX_AGE \<longrightarrow> x \<in> set cache'"
    "\<forall>r \<in> set rows. entry_of version protocol now (r_entry r) \<in> set cache'"
    "set cache' \<subseteq> set ?cache \<union> entry_of version protocol now ` r_entry ` set rows"
    using Cons.IH [of ?uid ?cache ?c] Cons.prems by auto
  have fresh: "now - c_time ?e \<le> UID_MAX_AGE" by (simp add: entry_of_def UID_MAX_AGE_def)
  show ?case
  proof (intro exI [of _ cache'] conjI)
    show "\<forall>x \<in> set cache. now - c_time x \<le> UID_MAX_AGE \<longrightarrow> x \<in> set cache'"
      using IH(2) cache_put_keeps by blast
    show "\<forall>r' \<in> set (r # rows). entry_of version protocol now (r_entry r') \<in> set cache'"
      using IH(2,3) fresh cache_put_new by auto
    show "set cache' \<subseteq> set cache \<union> entry_of version protocol now ` r_entry ` set (r # rows)"
      using IH(4) cache_put_old by fastforce
  qed (use IH(1) in \<open>simp add: parse table_owner_Cons Let_def\<close>)
qed

section \<open>The lookup and its cache\<close>

lemma word_of_int_port:
  assumes "0 \<le> p" "p < 65536"
  shows "word_of_int p = (x :: u16) \<longleftrightarrow> p = uint x"
proof -
  have "uint (word_of_int p :: u16) = p" using assms by (simp add: uint_word_of_int)
  then show ?thesis by (metis word_of_int_uint)
qed

lemma entry_hit:
  assumes "entry_ok (words_of version) e" "version \<in> {4, 6}" "now2 - now \<le> UID_MAX_AGE"
  shows "cache_hit now2 version protocol saddr sport daddr dport (entry_of version protocol now e) \<longleftrightarrow>
    entry_matches (words_of version) saddr sport daddr dport e"
proof -
  have "0 \<le> p_sport e" "p_sport e < 65536" "0 \<le> p_dport e" "p_dport e < 65536"
    using assms(1) by (simp_all add: entry_ok_def)
  then have "word_of_int (p_sport e) = sport \<longleftrightarrow> p_sport e = uint sport"
      "word_of_int (p_dport e) = dport \<longleftrightarrow> p_dport e = uint dport" "word_of_int (p_dport e) = (0 :: u16) \<longleftrightarrow> p_dport e = 0"
    by (simp_all add: word_of_int_port)
  then show ?thesis
    using assms(2,3) by (auto simp: cache_hit_def entry_matches_def entry_of_def)
qed

text \<open>The file a lookup opens holds a table.\<close>

definition table_open ::
  "arguments \<Rightarrow> world \<Rightarrow> int \<Rightarrow> u8 \<Rightarrow> buf \<Rightarrow> proc_row list \<Rightarrow> bool" where
  "table_open args w version protocol header rows \<longleftrightarrow> (\<exists>fn. proc_file version protocol = Some fn \<and>
     ret (a_os args (w_trace w) (Call_fopen (map (\<lambda>c. of_char c) fn))) \<noteq> 0 \<and>
     bytes (a_os args (w_trace w) (Call_fopen (map (\<lambda>c. of_char c) fn))) = table_text header rows) \<and>
     header_ok header \<and> list_all (row_ok (words_of version)) rows"

lemma get_uid_sub_table:
  assumes "find (cache_hit now version protocol saddr sport daddr dport) (w_uid_cache w) = None"
    and "table_open args w version protocol header rows"
  shows "wp (get_uid_sub args version protocol saddr sport daddr dport now) (\<lambda>r w'.
    r = table_owner (entry_matches (words_of version) saddr sport daddr dport) (-1) (map r_entry rows) \<and>
    (\<forall>r \<in> set rows. entry_of version protocol now (r_entry r) \<in> set (w_uid_cache w')) \<and>
    set (w_uid_cache w') \<subseteq> set (w_uid_cache w) \<union> entry_of version protocol now ` r_entry ` set rows) w"
proof -
  obtain fn where fn: "proc_file version protocol = Some fn"
      "ret (a_os args (w_trace w) (Call_fopen (map (\<lambda>c. of_char c) fn))) \<noteq> 0"
      "bytes (a_os args (w_trace w) (Call_fopen (map (\<lambda>c. of_char c) fn))) = table_text header rows"
    and ok: "header_ok header" "list_all (row_ok (words_of version)) rows"
    using assms(2) unfolding table_open_def by blast
  obtain cache' where scan: "scan_lines version protocol saddr sport daddr dport now (-1) (w_uid_cache w) 0
      (map (\<lambda>r. kernel_row r @ [10]) rows) =
      Inr (table_owner (entry_matches (words_of version) saddr sport daddr dport) (-1) (map r_entry rows), cache')"
    "\<forall>r \<in> set rows. entry_of version protocol now (r_entry r) \<in> set cache'"
    "set cache' \<subseteq> set (w_uid_cache w) \<union> entry_of version protocol now ` r_entry ` set rows"
    using scan_lines_table [OF ok(2)] by meson
  show ?thesis
    using assms(1) fn scan by (simp add: get_uid_sub_def Let_def file_lines_table [OF ok])
qed

text \<open>An entry that had expired is not hit later.\<close>

lemma cache_hit_earlier:
  "cache_hit now2 version protocol saddr sport daddr dport x \<Longrightarrow> now \<le> now2 \<Longrightarrow>
     cache_hit now version protocol saddr sport daddr dport x"
  by (simp add: cache_hit_def)

lemma cache_answers:
  assumes "find (cache_hit now version protocol saddr sport daddr dport) cache = None" "version \<in> {4, 6}"
    and "\<forall>r \<in> set rows. entry_ok (words_of version) (r_entry r)" "now \<le> now2" "now2 - now \<le> UID_MAX_AGE"
    and "\<forall>r \<in> set rows. entry_of version protocol now (r_entry r) \<in> set cache'"
    and "set cache' \<subseteq> set cache \<union> entry_of version protocol now ` r_entry ` set rows"
    and "r \<in> set rows" "entry_matches (words_of version) saddr sport daddr dport (r_entry r)"
    and "\<forall>r' \<in> set rows. entry_matches (words_of version) saddr sport daddr dport (r_entry r') \<longrightarrow>
      p_uid (r_entry r') = p_uid (r_entry r)"
  shows "\<exists>x. find (cache_hit now2 version protocol saddr sport daddr dport) cache' = Some x \<and> c_uid x = p_uid (r_entry r)"
proof -
  let ?hit = "cache_hit now2 version protocol saddr sport daddr dport"
  have hit: "?hit (entry_of version protocol now (r_entry r')) \<longleftrightarrow>
      entry_matches (words_of version) saddr sport daddr dport (r_entry r')" if "r' \<in> set rows" for r'
    using entry_hit [of version "r_entry r'" now2 now protocol saddr sport daddr dport] assms(2,3,5) that by blast
  have "find ?hit cache' \<noteq> None" using hit [OF assms(8)] assms(6,8,9) by (auto simp: find_None_iff)
  then obtain x where x: "find ?hit cache' = Some x" by auto
  then have "x \<in> set cache'" "?hit x" by (auto simp: find_Some_iff)
  moreover have "x \<notin> set cache"
    using cache_hit_earlier [OF \<open>?hit x\<close> assms(4)] assms(1) by (auto simp: find_None_iff)
  ultimately obtain r' where "r' \<in> set rows" "x = entry_of version protocol now (r_entry r')" using assms(7) by auto
  then have "c_uid x = p_uid (r_entry r)" using hit \<open>?hit x\<close> assms(10) by (auto simp: entry_of_def)
  with x show ?thesis by blast
qed

section \<open>Claims\<close>


definition dns_row :: proc_row where
  "dns_row = \<lparr>r_index = 17, r_entry = \<lparr>p_saddr = [10, 1, 10, 1], p_sport = 40000, p_daddr = [0, 0, 0, 0], p_dport = 0,
     p_uid = 10001\<rparr>, r_state = 7, r_tx = 0, r_rx = 0, r_timer = 0, r_when = 0, r_retransmits = 0, r_tail = [48]\<rparr>"

definition table_args :: arguments where
  "table_args = \<lparr>a_os = (\<lambda>tr c. \<lparr>ret = 1, errno = 0, out = 0, bytes = table_text [115, 108] [dns_row]\<rparr>), a_tun = 3,
     a_logTraffic = False, a_observeOnly = False\<rparr>"

definition no_cache :: world where
  "no_cache = \<lparr>w_sessions = [], w_stopping = False, w_sdk = 28, w_trace = [], w_fresh = 0, w_ub = False,
     w_hang = False, w_loglevel = 5, w_pcap_file = False, w_max_tun_msg = 0, w_uid_cache = [],
     w_socks5_addr = [], w_socks5_port = 0, w_socks5_username = [], w_socks5_password = [],
     w_pipefds = (5, 6)\<rparr>"

lemma zeros4: "[0, 0, 0, 0 :: u8] = replicate 4 0"
  by (simp add: numeral_eq_Suc)

lemma dns_row_ok: "row_ok 1 dns_row"
  by (simp add: row_ok_def entry_ok_def dns_row_def kernel_row_def decimal.simps bytes_hex_chars)

lemma table_args_open: "table_open table_args no_cache 4 IPPROTO_UDP [115, 108] [dns_row]"
  using dns_row_ok by (simp add: table_open_def table_args_def proc_file_def header_ok_def words_of_def ipproto_defs)




end
