(* ===== verification/Ip.thy ===== *)
theory Ip
  imports Tcp_Policy Tls Uid Icmp
begin

text \<open>
  The dispatch of packets, \<open>ip.c\<close>: \<open>check_tun\<close> reads a packet of the application,
  \<open>handle_ip\<close> finds its protocol, ports, owner and server name, asks the service whether it
  is allowed and hands it to the protocol's handler. With \<open>get_uid_from_session\<close> of
  \<open>netguard.c\<close>.
\<close>

definition ICMP_MINLEN :: u64 where "ICMP_MINLEN = 8"
definition IP_MF :: u16 where "IP_MF = 0x2000"
definition ANDROID_LOG_WARN :: int where "ANDROID_LOG_WARN = 5"

section \<open>Protocol and payload\<close>

definition is_lower_layer :: "u8 \<Rightarrow> bool" where
  "is_lower_layer protocol \<longleftrightarrow>
     protocol = 0 \<or> protocol = 60 \<or> protocol = 43 \<or> protocol = 44 \<or> protocol = 51 \<or> protocol = 50 \<or>
     protocol = 60 \<or> protocol = 135"

definition is_upper_layer :: "u8 \<Rightarrow> bool" where
  "is_upper_layer protocol \<longleftrightarrow>
     protocol = IPPROTO_TCP \<or> protocol = IPPROTO_UDP \<or> protocol = IPPROTO_ICMP \<or> protocol = IPPROTO_ICMPV6"

text \<open>
  The loop over the IPv6 extension headers. The 16 bit offset wraps. The boolean is set when
  a header lies outside the packet buffer; the loop does not go on from there.
\<close>

partial_function (option) ip6_ext :: "buf \<Rightarrow> nat \<Rightarrow> u8 \<Rightarrow> (nat \<times> u8 \<times> bool) option" where
  "ip6_ext pkt off protocol =
     (if off + 2 \<le> length pkt then
        if is_lower_layer (get8 pkt off) \<and> \<not> is_upper_layer protocol
        then ip6_ext pkt ((off + 8 + unat (get8 pkt (off + 1))) mod 65536) (get8 pkt off)
        else Some (off, protocol, False)
      else Some (off, protocol, True))"

text \<open>
  The header of version 4: too short, fragmented (the flag is tested on the field as stored),
  of another length, or, when debugging, with a checksum of zero, it is dropped.
\<close>

definition ip4_dropped :: "int \<Rightarrow> buf \<Rightarrow> nat \<Rightarrow> bool" where
  "ip4_dropped loglevel pkt len \<longleftrightarrow>
     get16 pkt 6 AND IP_MF \<noteq> 0 \<or> unat (ntohs (get16 pkt 2)) \<noteq> len \<or>
     (loglevel < ANDROID_LOG_WARN \<and> calc_checksum 0 (get_bytes pkt 0 20) = 0)"

definition ip4_payload :: "buf \<Rightarrow> nat" where
  "ip4_payload pkt = 20 + unat (((get8 pkt 0 AND 0x0F) - 5) * 4)"

text \<open>The protocol and the offset of the payload; \<^term>\<open>None\<close> when the packet is dropped.\<close>

definition ip_locate :: "buf \<Rightarrow> nat \<Rightarrow> (u8 \<times> nat) option prog" where
  "ip_locate pkt len = do {
     touch pkt 0 1;
     if ip_version pkt = 4 then
       if len < 20 then State_Monad.return None
       else do {
         touch pkt 0 20;
         w \<leftarrow> State_Monad.get;
         State_Monad.return
           (if ip4_dropped (w_loglevel w) pkt len then None else Some (get8 pkt 9, ip4_payload pkt))
       }
     else if ip_version pkt = 6 then
       if len < 40 then State_Monad.return None
       else do {
         touch pkt 0 40;
         let protocol = get8 pkt 6;
         if is_upper_layer protocol then State_Monad.return (Some (protocol, 40))
         else (case ip6_ext pkt 40 protocol of
             None \<Rightarrow> do { hang; State_Monad.return None }
           | Some (off, p, ub) \<Rightarrow> do {
               guarded ub undefined_behaviour;
               State_Monad.return (Some (if is_upper_layer p then (p, 40 + off) else (protocol, 40)))
             })
       }
     else State_Monad.return None
   }"

section \<open>Ports\<close>

text \<open>\<open>length - (payload - pkt)\<close>, a \<open>size_t\<close>.\<close>

definition payload_len :: "nat \<Rightarrow> nat \<Rightarrow> u64" where
  "payload_len len payload = word_of_nat len - word_of_nat payload"

definition ip_ports :: "u8 \<Rightarrow> buf \<Rightarrow> nat \<Rightarrow> nat \<Rightarrow> (u16 \<times> u16 \<times> bool) option prog" where
  "ip_ports protocol pkt len payload =
     (if protocol = IPPROTO_ICMP \<or> protocol = IPPROTO_ICMPV6 then
        if payload_len len payload < ICMP_MINLEN then State_Monad.return None
        else do {
          touch pkt payload 6;
          let ident = ntohs (get16 pkt (payload + 4));
          State_Monad.return (Some (ident, ident, False))
        }
      else if protocol = IPPROTO_UDP then
        if payload_len len payload < 8 then State_Monad.return None
        else do {
          touch pkt payload 4;
          State_Monad.return (Some (ntohs (get16 pkt payload), ntohs (get16 pkt (payload + 2)), False))
        }
      else if protocol = IPPROTO_TCP then
        if payload_len len payload < 20 then State_Monad.return None
        else do {
          touch pkt payload 14;
          let h = get_tcphdr pkt payload;
          State_Monad.return (Some (ntohs (h_source h), ntohs (h_dest h), h_syn h))
        }
      else State_Monad.return (Some (0, 0, False)))"

section \<open>The owner\<close>

text \<open>
  \<open>get_uid_from_session\<close>: the first session between the packet's addresses, of any
  protocol. The ports are read when there is a TCP or UDP session of the version.
\<close>

definition same_flow :: "buf \<Rightarrow> nat \<Rightarrow> session \<Rightarrow> bool" where
  "same_flow pkt payload s =
     (case s_body s of
        ICMP u \<Rightarrow> \<not> i_stop u \<and> i_version u = ip_version pkt \<and> i_saddr u = ip_saddr pkt \<and> i_daddr u = ip_daddr pkt
      | TCP t \<Rightarrow> t_version t = ip_version pkt \<and> t_source t = get16 pkt payload \<and>
          t_dest t = get16 pkt (payload + 2) \<and> t_saddr t = ip_saddr pkt \<and> t_daddr t = ip_daddr pkt
      | UDP u \<Rightarrow> u_version u = ip_version pkt \<and> u_source u = get16 pkt payload \<and>
          u_dest u = get16 pkt (payload + 2) \<and> u_saddr u = ip_saddr pkt \<and> u_daddr u = ip_daddr pkt)"

definition body_uid :: "session_body \<Rightarrow> int" where
  "body_uid b = (case b of ICMP u \<Rightarrow> i_uid u | UDP u \<Rightarrow> u_uid u | TCP t \<Rightarrow> t_uid t)"

definition reads_ports :: "buf \<Rightarrow> session \<Rightarrow> bool" where
  "reads_ports pkt s =
     (case s_body s of ICMP _ \<Rightarrow> False | UDP u \<Rightarrow> u_version u = ip_version pkt | TCP t \<Rightarrow> t_version t = ip_version pkt)"

definition get_uid_from_session :: "buf \<Rightarrow> nat \<Rightarrow> int prog" where
  "get_uid_from_session pkt payload = do {
     touch_ip pkt;
     ports \<leftarrow> find_session (reads_ports pkt);
     guarded (ports \<noteq> None) (touch pkt payload 4);
     cur \<leftarrow> find_session (same_flow pkt payload);
     State_Monad.return (case cur of None \<Rightarrow> -1 | Some s \<Rightarrow> body_uid (s_body s))
   }"

definition ip_owner :: "arguments \<Rightarrow> buf \<Rightarrow> nat \<Rightarrow> flow \<Rightarrow> int prog" where
  "ip_owner args pkt payload f = do {
     uid \<leftarrow> get_uid_from_session pkt payload;
     if uid < 0 then do {
       w \<leftarrow> State_Monad.get;
       uid \<leftarrow> (if w_sdk w \<le> 28
              then get_uid args (f_version f) (f_protocol f) (f_saddr f) (f_sport f) (f_daddr f) (f_dport f)
              else get_uid_q args f);
       if uid < 0 then get_uid_cached args f
       else do { cache_uid args f uid; State_Monad.return uid }
     }
     else State_Monad.return uid
   }"

section \<open>The server name\<close>

text \<open>The name found in the data of a TCP packet, as a C string; empty when there is none.\<close>

definition ip_server_name :: "arguments \<Rightarrow> buf \<Rightarrow> nat \<Rightarrow> nat \<Rightarrow> flow \<Rightarrow> int \<Rightarrow> buf prog" where
  "ip_server_name args pkt len payload f uid =
     (if f_protocol f = IPPROTO_TCP then do {
        let h = get_tcphdr pkt payload;
        case parse_sni (drop (tcp_dataoff h payload) pkt) (tcp_datalen h len payload) of
          None \<Rightarrow> do { undefined_behaviour; State_Monad.return [] }
        | Some None \<Rightarrow> State_Monad.return []
        | Some (Some name) \<Rightarrow> do {
            let server_name = takeWhile (\<lambda>c. c \<noteq> 0) name;
            sni_resolved args server_name f uid;
            State_Monad.return server_name
          }
      }
      else State_Monad.return [])"

section \<open>The policy\<close>

text \<open>\<open>allowed\<close> and \<open>blockedQuic\<close>.\<close>

definition ip_policy :: "arguments \<Rightarrow> flow \<Rightarrow> int \<Rightarrow> buf \<Rightarrow> (bool \<times> bool) prog" where
  "ip_policy args f uid server_name = do {
     quic \<leftarrow> (if f_protocol f = IPPROTO_UDP \<and> f_dport f = 443 \<and> uid > 0 then is_quic_blocked args uid
             else State_Monad.return False);
     if quic then State_Monad.return (False, True)
     else do {
       allowed \<leftarrow> is_address_allowed args f uid;
       if allowed \<and> server_name \<noteq> [] then do {
         blocked \<leftarrow> is_domain_blocked args uid server_name;
         State_Monad.return (\<not> blocked, False)
       }
       else State_Monad.return (allowed, False)
     }
   }"

definition ip_dispatch :: "arguments \<Rightarrow> buf \<Rightarrow> nat \<Rightarrow> nat \<Rightarrow> u8 \<Rightarrow> int \<Rightarrow> bool \<Rightarrow> bool \<Rightarrow> unit prog" where
  "ip_dispatch args pkt len payload protocol uid allowed blockedQuic =
     (if allowed \<or> (a_observeOnly args \<and> \<not> blockedQuic) then
        if protocol = IPPROTO_ICMP \<or> protocol = IPPROTO_ICMPV6
        then do { _ \<leftarrow> handle_icmp args pkt len payload uid; State_Monad.return () }
        else if protocol = IPPROTO_UDP
        then do { _ \<leftarrow> handle_udp args pkt len payload uid; State_Monad.return () }
        else if protocol = IPPROTO_TCP
        then do { _ \<leftarrow> handle_tcp args pkt len payload uid True; State_Monad.return () }
        else State_Monad.return ()
      else
        if protocol = IPPROTO_UDP then block_udp args pkt payload uid
        else if protocol = IPPROTO_TCP
        then do { _ \<leftarrow> handle_tcp args pkt len payload uid allowed; State_Monad.return () }
        else State_Monad.return ())"

section \<open>\<open>handle_ip\<close>\<close>

text \<open>The limit on the number of sessions: a packet that would open one is dropped.\<close>

definition ip_limited :: "buf \<Rightarrow> nat \<Rightarrow> u8 \<Rightarrow> bool \<Rightarrow> int \<Rightarrow> int \<Rightarrow> bool prog" where
  "ip_limited pkt payload protocol syn sessions maxsessions =
     (if sessions \<ge> maxsessions then
        if protocol = IPPROTO_ICMP \<or> protocol = IPPROTO_ICMPV6 then State_Monad.return True
        else if protocol = IPPROTO_UDP then do {
          known \<leftarrow> has_udp_session pkt payload;
          State_Monad.return (\<not> known)
        }
        else State_Monad.return (protocol = IPPROTO_TCP \<and> syn)
      else State_Monad.return False)"

definition handle_ip :: "arguments \<Rightarrow> buf \<Rightarrow> nat \<Rightarrow> int \<Rightarrow> int \<Rightarrow> unit prog" where
  "handle_ip args pkt len sessions maxsessions = do {
     located \<leftarrow> ip_locate pkt len;
     case located of
       None \<Rightarrow> State_Monad.return ()
     | Some (protocol, payload) \<Rightarrow> do {
         ports \<leftarrow> ip_ports protocol pkt len payload;
         case ports of
           None \<Rightarrow> State_Monad.return ()
         | Some (sport, dport, syn) \<Rightarrow> do {
             limited \<leftarrow> ip_limited pkt payload protocol syn sessions maxsessions;
             if limited then State_Monad.return ()
             else do {
               let f = \<lparr>f_version = ip_version pkt, f_protocol = protocol, f_saddr = ip_saddr pkt, f_sport = sport,
                        f_daddr = ip_daddr pkt, f_dport = dport\<rparr>;
               uid \<leftarrow> ip_owner args pkt payload f;
               server_name \<leftarrow> ip_server_name args pkt len payload f uid;
               (allowed, blockedQuic) \<leftarrow> ip_policy args f uid server_name;
               ip_dispatch args pkt len payload protocol uid allowed blockedQuic;
               guarded (a_logTraffic args) (log_traffic args f (int len) uid allowed True)
             }
           }
       }
   }"

section \<open>\<open>check_tun\<close>\<close>

text \<open>
  The buffer has the size of the MTU; what \<open>read\<close> did not fill holds what memory held. The
  result is the return value.
\<close>

definition check_tun :: "arguments \<Rightarrow> u32 \<Rightarrow> int \<Rightarrow> int \<Rightarrow> int prog" where
  "check_tun args events sessions maxsessions =
     (if events AND EPOLLERR \<noteq> 0 then do {
        _ \<leftarrow> syscall args (Call_fcntl_getfl (a_tun args));
        report_exit args;
        State_Monad.return (-1)
      }
      else if events AND EPOLLIN \<noteq> 0 then do {
        junk \<leftarrow> syscall args Call_uninit;
        r \<leftarrow> syscall args (Call_tun_read (unat get_mtu));
        if ret r < 0 then
          if errno r = EINTR \<or> errno r = EAGAIN then State_Monad.return 0
          else do { report_exit args; State_Monad.return (-1) }
        else if ret r > 0 then do {
          let len = nat (ret r);
          let buffer = take (unat get_mtu) (get_bytes (bytes r) 0 len @ get_bytes (bytes junk) 0 (unat get_mtu));
          w \<leftarrow> State_Monad.get;
          guarded (w_pcap_file w) (write_pcap_rec args (take len buffer));
          guarded (len > w_max_tun_msg w) (State_Monad.update (\<lambda>w. w\<lparr>w_max_tun_msg := len\<rparr>));
          handle_ip args buffer len sessions maxsessions;
          State_Monad.return 0
        }
        else do { report_exit args; State_Monad.return (-1) }
      }
      else State_Monad.return 0)"

section \<open>Frames\<close>

text \<open>The parts before the dispatch change only the trace, the cache and the flags of the model.\<close>

lemma frame_get_uid [frame_rules]:
  assumes "\<And>w e. g (w\<lparr>w_trace := e\<rparr>) = g w" "\<And>w e. g (w\<lparr>w_uid_cache := e\<rparr>) = g w"
  shows "frame g (get_uid args version protocol saddr sport daddr dport)"
  unfolding get_uid_def get_uid_sub_def
  by (intro frame_rules assms) (auto intro!: frame_rules assms split: sum.split)

lemma frame_ip_parts [frame_rules]:
  assumes "\<And>w e. g (w\<lparr>w_trace := e\<rparr>) = g w" "\<And>w e. g (w\<lparr>w_uid_cache := e\<rparr>) = g w"
    and "\<And>w e. g (w\<lparr>w_ub := e\<rparr>) = g w" "\<And>w e. g (w\<lparr>w_hang := e\<rparr>) = g w"
  shows "frame g (ip_locate pkt len)" "frame g (ip_ports protocol pkt len payload)"
    "frame g (ip_limited pkt payload protocol syn sessions maxsessions)" "frame g (ip_owner args pkt payload f)"
    "frame g (ip_server_name args pkt len payload f uid)" "frame g (ip_policy args f uid name)"
  unfolding ip_locate_def ip_ports_def ip_limited_def has_udp_session_def ip_owner_def get_uid_from_session_def
    ip_server_name_def ip_policy_def
  using assms by (intro frame_rules; simp)+

end
