(* ===== verification/Ip_Policy.thy ===== *)
theory Ip_Policy
  imports Ip
begin

text \<open>
  What the dispatch of a packet guarantees: nothing is sent for a packet before the service
  allowed its flow; the loop over the IPv6 extension headers ends; and whose owner a packet
  is given.
\<close>

section \<open>Calls that send\<close>

fun sends :: "call \<Rightarrow> bool" where
  "sends (Call_send _ _ _) = True"
| "sends (Call_sendto _ _ _ _) = True"
| "sends _ = False"

lemma not_sends [simp]: "is_service_call c \<Longrightarrow> \<not> sends c" "is_tun_call c \<Longrightarrow> \<not> sends c"
  by (cases c; simp add: is_tun_call_def)+

abbreviation silent :: "'a prog \<Rightarrow> bool" where
  "silent \<equiv> emits (\<lambda>c. \<not> sends c)"

text \<open>The permission of the service for a flow between two addresses, in a trace.\<close>

definition permitted :: "buf \<Rightarrow> event list \<Rightarrow> bool" where
  "permitted pkt es \<longleftrightarrow> (\<exists>f uid a. (Java_is_address_allowed f uid, a) \<in> set es \<and> ret a \<noteq> 0 \<and>
     f_version f = ip_version pkt \<and> f_saddr f = ip_saddr pkt \<and> f_daddr f = ip_daddr pkt)"

lemma permitted_append [simp]: "permitted pkt (es @ es') \<longleftrightarrow> permitted pkt es \<or> permitted pkt es'"
  unfolding permitted_def set_append by blast

text \<open>The TCP sessions that can still exchange data.\<close>

definition open_tcp :: "world \<Rightarrow> session set" where
  "open_tcp w = {s \<in> set (w_sessions w). \<exists>t. s_body s = TCP t \<and> \<not> closing t}"

text \<open>
  From \<open>w\<close> to \<open>w'\<close> a permission was given, or nothing was sent and every TCP session still
  open was open before, unchanged: no data was queued and no connection is left.
\<close>

definition inert :: "world \<Rightarrow> world \<Rightarrow> event list \<Rightarrow> bool" where
  "inert w w' es \<longleftrightarrow> (\<forall>e \<in> set es. \<not> sends (fst e)) \<and> open_tcp w' \<subseteq> open_tcp w"

definition asked :: "buf \<Rightarrow> world \<Rightarrow> world \<Rightarrow> bool" where
  "asked pkt w w' \<longleftrightarrow> (\<exists>es. w_trace w' = es @ w_trace w \<and> (permitted pkt es \<or> inert w w' es))"

lemma asked_inert: "w_trace w' = es @ w_trace w \<Longrightarrow> inert w w' es \<Longrightarrow> asked pkt w w'"
  by (auto simp: asked_def)

lemma asked_trans:
  assumes "asked pkt w w'" "asked pkt w' w''"
  shows "asked pkt w w''"
proof -
  obtain es es' where "w_trace w' = es @ w_trace w" "w_trace w'' = es' @ w_trace w'"
      "permitted pkt es \<or> inert w w' es" "permitted pkt es' \<or> inert w' w'' es'"
    using assms unfolding asked_def by blast
  then show ?thesis unfolding asked_def by (intro exI [of _ "es' @ es"]) (auto simp: inert_def)
qed

lemma wp_asked_quiet:
  assumes "silent m" "frame w_sessions m" "\<And>a w'. asked pkt w w' \<Longrightarrow> Q a w'"
  shows "wp m Q w"
proof -
  obtain a w' where r: "run_state m w = (a, w')" by fastforce
  obtain es where "w_trace w' = es @ w_trace w" "\<forall>e \<in> set es. \<not> sends (fst e)"
    using emits_run [OF assms(1) r] .
  then have "asked pkt w w'"
    using frameD [OF assms(2) r] by (intro asked_inert) (auto simp: inert_def open_tcp_def)
  with assms(3) r show ?thesis by (simp add: wp_def)
qed

section \<open>The parts of \<open>handle_ip\<close>\<close>

lemma silent_get_uid: "silent (get_uid args version protocol saddr sport daddr dport)"
  unfolding get_uid_def get_uid_sub_def
  by (intro emits_rules emits_jni emits_if) (auto intro!: emits_rules split: sum.split)

lemma silent_ip_owner: "silent (ip_owner args pkt payload f)"
  unfolding ip_owner_def get_uid_from_session_def
  by (intro emits_rules emits_jni silent_get_uid) auto

lemma silent_ip_server_name: "silent (ip_server_name args pkt len payload f uid)"
  unfolding ip_server_name_def
  by (intro emits_rules emits_jni) auto

lemma silent_ip_locate: "silent (ip_locate pkt len)"
  unfolding ip_locate_def by (intro emits_rules)

lemma silent_ip_ports: "silent (ip_ports protocol pkt len payload)"
  unfolding ip_ports_def by (intro emits_rules)

lemma silent_ip_limited: "silent (ip_limited pkt payload protocol syn sessions maxsessions)"
  unfolding ip_limited_def has_udp_session_def by (intro emits_rules)

lemma silent_ip_policy: "silent (ip_policy args f uid name)"
  unfolding ip_policy_def by (intro emits_rules emits_jni) auto

text \<open>No packet of a TCP flow is sent from \<open>handle_tcp\<close>: the data waits for the socket.\<close>

lemma emits_open_tcp_socket:
  assumes "\<And>c. \<not> sends c \<Longrightarrow> P c"
  shows "emits P (open_tcp_socket args t)"
  unfolding open_tcp_socket_def using assms by (intro emits_rules emits_jni) auto

lemma silent_handle_tcp:
  assumes "\<And>c. \<not> sends c \<Longrightarrow> P c"
  shows "emits P (handle_tcp args pkt len payload uid allowed)"
  unfolding handle_tcp_def tcp_new_def tcp_register_def tcp_unknown_def tcp_found_def tcp_in_sequence_def
    tcp_other_ack_def get_receive_window_def get_receive_buffer_def
  using assms by (intro emits_rules emits_jni emits_tcp_writers emits_open_tcp_socket) auto

lemma silent_block_udp: "silent (block_udp args pkt payload uid)"
  unfolding block_udp_def by (intro emits_rules emits_jni) auto

lemma emits_handle_udp:
  assumes "\<And>c. P c"
  shows "emits P (handle_udp args pkt len payload uid)"
  unfolding handle_udp_def udp_new_session_def open_udp_socket_def udp_forward_def check_dhcp_def write_udp_def
  by (intro emits_rules emits_jni emits_tun_write; (rule assms)?)

lemma emits_handle_icmp:
  assumes "\<And>c. P c"
  shows "emits P (handle_icmp args pkt len payload uid)"
  unfolding handle_icmp_def icmp_new_session_def open_icmp_socket_def icmp_forward_def
  by (intro emits_rules emits_jni emits_tun_write; (rule assms)?)

lemma emits_ip_dispatch: "emits (\<lambda>_. True) (ip_dispatch args pkt len payload protocol uid allowed quic)"
  unfolding ip_dispatch_def block_udp_def
  by (intro emits_rules emits_jni emits_handle_udp emits_handle_icmp silent_handle_tcp) simp_all

text \<open>The policy: an answer of allowed comes with the permission.\<close>

lemma ip_policy_wp:
  "wp (ip_policy args f uid name) (\<lambda>(allowed, quic) w'. \<exists>es. w_trace w' = es @ w_trace w \<and>
     w_sessions w' = w_sessions w \<and> (\<forall>e \<in> set es. \<not> sends (fst e)) \<and>
     (allowed \<longrightarrow> (\<exists>a. (Java_is_address_allowed f uid, a) \<in> set es \<and> ret a \<noteq> 0))) w"
  by (auto simp: ip_policy_def is_quic_blocked_def is_address_allowed_def is_domain_blocked_def Let_def)

section \<open>A packet that is not allowed\<close>

lemma open_tcp_same: "w_sessions w' = w_sessions w \<Longrightarrow> open_tcp w' \<subseteq> open_tcp w"
  by (simp add: open_tcp_def)

text \<open>A session that is stored closing is not open, whatever was stored at its address.\<close>

lemma wp_put_closing:
  assumes "closing t" "\<And>r. r \<in> set (w_sessions w1) \<Longrightarrow> s_addr r \<noteq> s_addr s \<Longrightarrow> r \<in> set (w_sessions w)"
  shows "wp (put_session (with_body s (TCP t))) (\<lambda>_ w'. open_tcp w' \<subseteq> open_tcp w) w1"
  using assms by (auto simp: open_tcp_def put_list_def with_body_def split: if_splits)

lemma wp_write_rst_sessions:
  assumes "\<And>w'. w_sessions w' = w_sessions w \<Longrightarrow> Q (after_rst t) w'"
  shows "wp (write_rst args t) Q w"
  by (rule wp_write_rst) (rule assms, simp)

lemma blocked_register:
  assumes "w_sessions w = w_sessions w0"
  shows "wp (tcp_register args addr t False) (\<lambda>_ w'. open_tcp w' \<subseteq> open_tcp w0) w"
proof -
  let ?s = "\<lambda>sock. \<lparr>s_addr = addr, s_protocol = IPPROTO_TCP, s_body = t, s_socket = sock,
    s_events = EPOLLOUT OR EPOLLERR\<rparr>"
  have reset: "wp (write_rst args v) (\<lambda>t. wp (put_session (with_body (?s sock) (TCP t)))
      (\<lambda>_ w'. open_tcp w' \<subseteq> open_tcp w0)) w1"
    if "w_sessions w1 = with_body (?s sock) (TCP v) # w_sessions w0" for sock v w1
    using that by (intro wp_write_rst_sessions wp_put_closing) auto
  show ?thesis
    unfolding tcp_register_def wp_bind
  proof (rule wp_frame [OF frame_open_tcp_socket [where g = w_sessions]], simp)
    fix sock :: int and w1 :: world
    assume w1: "w_sessions w1 = w_sessions w"
    show "wp (if sock < 0 then State_Monad.return False
        else do {
          let s = ?s sock;
          window \<leftarrow> get_receive_window args s;
          let t = t\<lparr>t_recv_window := window\<rparr>;
          _ \<leftarrow> get_local_port args sock;
          _ \<leftarrow> syscall args (Call_epoll_ctl EPOLL_CTL_ADD sock (s_events s));
          push_session (with_body s (TCP t));
          guarded (\<not> False) (do { t \<leftarrow> write_rst args t; put_session (with_body s (TCP t)) });
          State_Monad.return True
        }) (\<lambda>_ w'. open_tcp w' \<subseteq> open_tcp w0) w1"
      using w1 assms
      by (simp add: Let_def open_tcp_same del: wp_put_session)
        (intro impI wp_frame [OF frame_get_receive_window [where g = w_sessions]]; simp del: wp_put_session add: reset)
  qed
qed

lemma blocked_handle_tcp:
  "wp (handle_tcp args pkt len payload uid False) (\<lambda>_ w'. open_tcp w' \<subseteq> open_tcp w) w"
proof -
  have new: "wp (tcp_new args pkt len payload h uid False) (\<lambda>_ w'. open_tcp w' \<subseteq> open_tcp w) w1"
    if "w_sessions w1 = w_sessions w" for h w1
    using that open_tcp_same
    by (cases "tcp_opts pkt (uint (tcp_optlen h)) (payload + 20) (get_default_mss (ip_version pkt)) 0")
      (auto simp: tcp_new_def Let_def intro!: blocked_register)
  have unknown: "wp (tcp_unknown args pkt len payload h) (\<lambda>_ w'. open_tcp w' \<subseteq> open_tcp w) w1"
    if "w_sessions w1 = w_sessions w" for h w1
    by (rule wp_frame [OF frame_tcp_unknown [where g = w_sessions]]) (use that in \<open>simp_all add: open_tcp_same\<close>)
  have found: "wp (tcp_found args pkt len payload h uid False cur)
      (\<lambda>p. wp (put_session (with_body s (TCP (fst p)))) (\<lambda>_ w'. open_tcp w' \<subseteq> open_tcp w)) w1"
    if "w_sessions w1 = w_sessions w" for h cur s w1
    using that
    by (simp add: tcp_found_def Let_def del: wp_put_session) (intro wp_write_rst_sessions wp_put_closing conjI impI; simp)
  show ?thesis
    unfolding handle_tcp_def
    by (simp add: Let_def touch_ip_def open_tcp_same case_prod_beta' new unknown found del: wp_put_session
        split: option.split session_body.split)
qed

lemma wp_inert:
  assumes "silent m" "wp m (\<lambda>_ w'. open_tcp w' \<subseteq> open_tcp w) w"
  shows "wp m (\<lambda>_ w'. asked pkt w w') w"
proof -
  obtain a w' where r: "run_state m w = (a, w')" by fastforce
  obtain es where "w_trace w' = es @ w_trace w" "\<forall>e \<in> set es. \<not> sends (fst e)" using emits_run [OF assms(1) r] .
  then have "asked pkt w w'" using assms(2) r by (intro asked_inert) (auto simp: inert_def wp_def)
  then show ?thesis using r by (simp add: wp_def)
qed

lemma blocked_dispatch:
  assumes "\<not> a_observeOnly args"
  shows "wp (ip_dispatch args pkt len payload protocol uid False quic) (\<lambda>_ w'. asked pkt w w') w"
proof -
  have "wp (block_udp args pkt payload uid) (\<lambda>_ w'. open_tcp w' \<subseteq> open_tcp w) w"
    by (simp add: block_udp_def touch_ip_def Let_def open_tcp_def) auto
  from wp_inert [OF silent_block_udp this] have u: "wp (block_udp args pkt payload uid) (\<lambda>_ w'. asked pkt w w') w" .
  have t: "wp (handle_tcp args pkt len payload uid False) (\<lambda>_ w'. asked pkt w w') w"
    by (rule wp_inert [OF silent_handle_tcp blocked_handle_tcp])
  have "asked pkt w w" by (rule asked_inert [of _ "[]"]) (simp_all add: inert_def)
  with assms u t show ?thesis by (simp add: ip_dispatch_def)
qed

lemma ip_decision_asked:
  assumes "\<not> a_observeOnly args" "f_version f = ip_version pkt" "f_saddr f = ip_saddr pkt" "f_daddr f = ip_daddr pkt"
  shows "wp (ip_policy args f uid name) (\<lambda>(allowed, quic).
    wp (ip_dispatch args pkt len payload protocol uid allowed quic) (\<lambda>_ w'. asked pkt w w')) w"
proof (rule wp_mono [OF ip_policy_wp], goal_cases)
  case (1 p w1)
  obtain allowed quic where p: "p = (allowed, quic)" by fastforce
  with 1 obtain es where es: "w_trace w1 = es @ w_trace w" "w_sessions w1 = w_sessions w"
      "\<forall>e \<in> set es. \<not> sends (fst e)" "allowed \<longrightarrow> (\<exists>a. (Java_is_address_allowed f uid, a) \<in> set es \<and> ret a \<noteq> 0)"
    by auto
  have quiet: "asked pkt w w1"
    by (rule asked_inert [OF es(1)]) (use es open_tcp_same in \<open>auto simp: inert_def\<close>)
  show ?case
  proof (cases allowed)
    case True
    with es(4) assms(2-4) have "permitted pkt es" by (auto simp: permitted_def)
    then have "asked pkt w w2" if "w_trace w2 = es' @ w_trace w1" for w2 es'
      using that es(1) by (auto simp: asked_def intro!: exI [of _ "es' @ es"])
    then show ?thesis
      unfolding p prod.case by (rule wp_emits [OF emits_ip_dispatch])
  next
    case False
    then show ?thesis
      unfolding p prod.case using asked_trans [OF quiet]
      by (simp add: wp_mono [OF blocked_dispatch [OF assms(1)]])
  qed
qed

lemma frame_sessions_ip:
  "frame w_sessions (ip_locate pkt len)" "frame w_sessions (ip_ports protocol pkt len payload)"
  "frame w_sessions (ip_limited pkt payload protocol syn sessions maxsessions)"
  "frame w_sessions (ip_owner args pkt payload f)" "frame w_sessions (ip_server_name args pkt len payload f uid)"
  "frame w_sessions (guarded b (log_traffic args f n uid allowed og))"
  by (intro frame_rules; simp)+

lemmas silent_ip = silent_ip_locate silent_ip_ports silent_ip_limited silent_ip_owner silent_ip_server_name

lemma handle_ip_asked:
  assumes "\<not> a_observeOnly args"
  shows "wp (handle_ip args pkt len sessions maxsessions) (\<lambda>_ w'. asked pkt w w') w"
proof -
  have base: "asked pkt w w" by (rule asked_inert [of _ "[]"]) (simp_all add: inert_def)
  have seq: "wp m Q w0"
    if "silent m" "frame w_sessions m" "asked pkt w w0" "\<And>a w1. asked pkt w w1 \<Longrightarrow> Q a w1"
    for m :: "'b prog" and Q w0
    by (rule wp_asked_quiet [OF that(1,2), of pkt]) (use that(3,4) asked_trans in blast)
  have log: "silent (guarded b (log_traffic args f n uid allowed og))" for b f n uid allowed og
    by (intro emits_rules emits_jni) simp
  have decide: "wp (ip_policy args f uid name) (\<lambda>p. wp (ip_dispatch args pkt len payload protocol uid (fst p) (snd p))
      (\<lambda>_. wp (guarded (a_logTraffic args) (log_traffic args f (int len) uid (fst p) True)) (\<lambda>_ w'. asked pkt w w'))) w1"
    if w1: "asked pkt w w1" and f: "f_version f = ip_version pkt" "f_saddr f = ip_saddr pkt" "f_daddr f = ip_daddr pkt"
    for f uid name payload protocol w1
  proof (rule wp_mono [OF ip_decision_asked [OF assms f, of uid name len payload protocol w1]])
    fix p w2
    assume "(case p of (allowed, quic) \<Rightarrow>
        wp (ip_dispatch args pkt len payload protocol uid allowed quic) (\<lambda>_. asked pkt w1)) w2"
    then show "wp (ip_dispatch args pkt len payload protocol uid (fst p) (snd p))
      (\<lambda>_. wp (guarded (a_logTraffic args) (log_traffic args f (int len) uid (fst p) True)) (\<lambda>_ w'. asked pkt w w')) w2"
      unfolding case_prod_beta'
      by (rule wp_mono) (rule seq [OF log frame_sessions_ip(6)], use w1 asked_trans in blast)
  qed
  show ?thesis
    unfolding handle_ip_def wp_bind
    apply (rule seq [OF silent_ip_locate frame_sessions_ip(1) base])
    apply (auto simp del: wp_guarded simp: Let_def case_prod_beta' split: option.split intro!: seq [OF silent_ip_ports frame_sessions_ip(2)]
       seq [OF silent_ip_limited frame_sessions_ip(3)] seq [OF silent_ip_owner frame_sessions_ip(4)]
       seq [OF silent_ip_server_name frame_sessions_ip(5)] decide)
    done
qed

section \<open>Extension headers of IPv6\<close>

text \<open>
  The loop takes over only protocols of the lower layer, so that it never arrives at a
  protocol of the upper layer.
\<close>

lemma lower_not_upper: "is_lower_layer p \<Longrightarrow> \<not> is_upper_layer p"
  by (auto simp: is_lower_layer_def is_upper_layer_def ipproto_defs)

lemma ip6_ext_ends:
  assumes "length pkt \<le> 65000" "\<not> is_upper_layer protocol"
  shows "\<exists>off' p ub. ip6_ext pkt off protocol = Some (off', p, ub) \<and> \<not> is_upper_layer p"
  using assms(2)
proof (induction "length pkt - off" arbitrary: off protocol rule: less_induct)
  case less
  show ?case
  proof (cases "off + 2 \<le> length pkt \<and> is_lower_layer (get8 pkt off)")
    case True
    let ?off = "(off + 8 + unat (get8 pkt (off + 1))) mod 65536"
    have "off + 8 + unat (get8 pkt (off + 1)) < 65536"
      using True assms(1) unat_lt_256 [of "get8 pkt (off + 1)"] by linarith
    then have "?off = off + 8 + unat (get8 pkt (off + 1))" by (rule mod_less)
    then have "length pkt - ?off < length pkt - off" using True by (intro diff_less_mono2) simp_all
    from less.hyps [OF this lower_not_upper] True show ?thesis
      using less.prems by (subst ip6_ext.simps) simp
  next
    case False
    then show ?thesis using less.prems by (subst ip6_ext.simps) auto
  qed
qed

text \<open>So a packet with an extension header is dispatched to no handler.\<close>

lemma ip_locate_extension:
  assumes "length pkt \<le> 65000" "ip_version pkt = 6" "\<not> is_upper_layer (get8 pkt 6)"
  shows "wp (ip_locate pkt len) (\<lambda>r w'. (r = None \<or> r = Some (get8 pkt 6, 40)) \<and> w_hang w' = w_hang w) w"
proof -
  obtain off p ub where "ip6_ext pkt 40 (get8 pkt 6) = Some (off, p, ub)" "\<not> is_upper_layer p"
    using ip6_ext_ends [OF assms(1,3)] by blast
  then show ?thesis using assms(2,3) by (auto simp: ip_locate_def Let_def)
qed

section \<open>Owners\<close>

lemma get_uid_from_session_icmp:
  assumes "w_sessions w = s # ss" "s_body s = ICMP u" "same_flow pkt payload s"
  shows "wp (get_uid_from_session pkt payload) (\<lambda>r w'. r = i_uid u \<and> w_trace w' = w_trace w) w"
  using assms by (auto simp: get_uid_from_session_def touch_ip_def body_uid_def)

section \<open>Claims\<close>



text \<open>
  C32: the loop over the IPv6 extension headers of a packet ends (its offset grows by at least
  eight within the buffer), and never at a protocol of the upper layer: a packet whose first
  header is an extension keeps that header's number as its protocol, which no handler serves.
\<close>

theorem ip6_extensions_end:
  assumes "length pkt \<le> 65000" "ip_version pkt = 6" "\<not> is_upper_layer (get8 pkt 6)"
    and "run_state (ip_locate pkt len) w = (r, w')"
  shows "w_hang w' = w_hang w \<and> (r = None \<or> r = Some (get8 pkt 6, 40)) \<and>
    run_state (ip_dispatch args pkt len 40 (get8 pkt 6) uid allowed quic) w' = ((), w')"
proof -
  have "run_state (ip_dispatch args pkt len 40 (get8 pkt 6) uid allowed quic) w' = ((), w')"
    using assms(3) by (simp add: ip_dispatch_def is_upper_layer_def)
  then show ?thesis using ip_locate_extension [OF assms(1-3), of len w] assms(4) by (simp add: wp_def)
qed

definition hop_by_hop :: buf where
  "hop_by_hop = [0x60, 0, 0, 0, 0, 16, 0, 64] @ replicate 32 1 @ [17, 0, 0, 0, 0, 0, 0, 0, 0x9C, 0x40, 0, 53, 0, 8, 0, 0]"

theorem ip6_extensions_end_witness:
  "\<exists>r w'. run_state (ip_locate hop_by_hop 56) empty_world = (r, w') \<and> \<not> w_hang w' \<and>
    (r = None \<or> r = Some (0, 40)) \<and> run_state (ip_dispatch idle_args hop_by_hop 56 40 0 10001 True False) w' = ((), w')"
proof -
  obtain r w' where run: "run_state (ip_locate hop_by_hop 56) empty_world = (r, w')" by fastforce
  have h: "length hop_by_hop \<le> 65000" "ip_version hop_by_hop = 6" "get8 hop_by_hop 6 = 0"
      "\<not> is_upper_layer (get8 hop_by_hop 6)" "\<not> w_hang empty_world"
    by (simp_all add: hop_by_hop_def ip_version_def get8_def is_upper_layer_def ipproto_defs empty_world_def)
  from ip6_extensions_end [OF h(1,2,4) run, of idle_args 10001 True False] run show ?thesis
    using h(3,5) by auto
qed

text \<open>
  The owner of a packet is taken from the first session between its addresses whatever
  the protocol: with an ICMP session at the head of the list a TCP or UDP packet of another
  application to the same address is given the owner of the ICMP session, without any
  question to the system or the service.
\<close>

theorem owner_of_another_protocol:
  assumes "w_sessions w = s # ss" "s_body s = ICMP u" "same_flow pkt payload s" "0 \<le> i_uid u"
    and "run_state (ip_owner args pkt payload f) w = (uid, w')"
  shows "uid = i_uid u \<and> w_trace w' = w_trace w"
proof -
  have "wp (ip_owner args pkt payload f) (\<lambda>r w'. r = i_uid u \<and> w_trace w' = w_trace w) w"
    unfolding ip_owner_def wp_bind
    by (rule wp_mono [OF get_uid_from_session_icmp [OF assms(1-3)]]) (use assms(4) in auto)
  with assms(5) show ?thesis by (simp add: wp_def)
qed

definition dns_flow :: flow where
  "dns_flow = udp_flow IPPROTO_UDP dns_session"

theorem owner_of_another_protocol_witness:
  "\<exists>uid w'. run_state (ip_owner idle_args echo_packet 20 dns_flow) ping_world = (uid, w') \<and> uid = 10001 \<and>
    w_trace w' = w_trace ping_world"
proof -
  obtain uid w' where run: "run_state (ip_owner idle_args echo_packet 20 dns_flow) ping_world = (uid, w')" by fastforce
  have "same_flow echo_packet 20 (with_body ping_socket (ICMP ping_session))"
    by (simp add: same_flow_def ping_session_def echo_packet_def ip_version_def ip_saddr_def ip_daddr_def get_bytes_def
        get8_def upt_rec)
  then show ?thesis
    using owner_of_another_protocol [OF _ _ _ _ run, of "with_body ping_socket (ICMP ping_session)" "[]" ping_session] run
    by (simp add: ping_world_def ping_session_def)
qed

end
