(* ===== verification/Delivery.thy ===== *)
theory Delivery
  imports Ip_Policy
begin

text \<open>
  The way of a datagram from the tun device to its server, through all the parts of
  \<open>handle_ip\<close>: the header, the ports, the limit, the owner, the policy and \<open>handle_udp\<close>.
\<close>

section \<open>The parts of \<open>handle_ip\<close>\<close>

lemma located:
  assumes "ip_version pkt = 4" "get8 pkt 0 AND 0x0F = 5" "\<not> ip4_dropped (w_loglevel w) pkt len" "28 \<le> len" "len \<le> length pkt"
  shows "wp (ip_locate pkt len) Q w = Q (Some (get8 pkt 9, 20)) w"
proof -
  have "w\<lparr>w_ub := w_ub w \<or> b\<rparr> = w" if "\<not> b" for b using that by simp
  moreover have "\<not> length pkt < 1" "\<not> length pkt < 20" "pkt \<noteq> []" using assms(4,5) by auto
  ultimately show ?thesis
    using assms by (simp add: ip_locate_def ip4_payload_def)
qed

lemma not_dropped_len: "\<not> ip4_dropped l pkt len \<Longrightarrow> len < 65536"
  using unat_lt_65536 [of "ntohs (get16 pkt 2)"] by (auto simp: ip4_dropped_def)

lemma payload_len_ge:
  assumes "28 \<le> len" "len < 65536"
  shows "\<not> payload_len len 20 < 8"
proof -
  have "unat (word_of_nat len - word_of_nat 20 :: u64) = len - 20"
    using assms by (simp add: unat_sub word_le_nat_alt unat_of_nat)
  then show ?thesis using assms(1) by (simp add: payload_len_def word_less_nat_alt)
qed

definition datagram_flow :: "buf \<Rightarrow> flow" where
  "datagram_flow pkt = \<lparr>f_version = 4, f_protocol = IPPROTO_UDP, f_saddr = ip_saddr pkt,
     f_sport = ntohs (get16 pkt 20), f_daddr = ip_daddr pkt, f_dport = ntohs (get16 pkt 22)\<rparr>"

section \<open>Claims\<close>


definition allow_args :: arguments where
  "allow_args = idle_args\<lparr>a_os := \<lambda>tr c. \<lparr>ret = 1, errno = 0, out = 0, bytes = []\<rparr>\<rparr>"


end
