(* ===== verification/Session.thy ===== *)
theory Session
  imports Ip
begin

text \<open>
  The event loop, \<open>session.c\<close>: the sweep over the sessions that chooses events, expires and
  deletes; the dispatch of ready descriptors; and the termination of sessions that are no
  longer allowed.
\<close>

definition EPOLL_TIMEOUT :: int where "EPOLL_TIMEOUT = 3600"
definition SESSION_MAX :: int where "SESSION_MAX = 409"
definition TUN_YIELD :: nat where "TUN_YIELD = 10"
definition UDP_YIELD :: nat where "UDP_YIELD = 10"

section \<open>\<open>clear\<close>\<close>

fun clear_list :: "arguments \<Rightarrow> session list \<Rightarrow> unit prog" where
  "clear_list args [] = State_Monad.return ()"
| "clear_list args (s # ss) = do {
     guarded (s_socket s \<ge> 0) (do { _ \<leftarrow> syscall args (Call_close (s_socket s)); State_Monad.return () });
     clear_list args ss
   }"

definition set_sessions :: "session list \<Rightarrow> unit prog" where
  "set_sessions ss = State_Monad.update (\<lambda>w. w\<lparr>w_sessions := ss\<rparr>)"

definition clear :: "arguments \<Rightarrow> unit prog" where
  "clear args = do {
     w \<leftarrow> State_Monad.get;
     clear_list args (w_sessions w);
     set_sessions []
   }"

section \<open>\<open>check_allowed\<close>\<close>

text \<open>One session: what becomes of it, \<^term>\<open>None\<close> when it is removed.\<close>

definition check_allowed_session :: "arguments \<Rightarrow> session \<Rightarrow> session option prog" where
  "check_allowed_session args s =
     (case s_body s of
        ICMP u \<Rightarrow>
          if \<not> i_stop u \<and> \<not> a_observeOnly args then do {
            allowed \<leftarrow> is_address_allowed args (icmp_flow IPPROTO_ICMP u) (i_uid u);
            State_Monad.return (Some (if allowed then s else with_body s (ICMP (u\<lparr>i_stop := True\<rparr>))))
          }
          else State_Monad.return (Some s)
      | UDP u \<Rightarrow>
          if u_state u = UDP_ACTIVE then
            if \<not> a_observeOnly args then do {
              allowed \<leftarrow> is_address_allowed args (udp_flow IPPROTO_UDP u) (u_uid u);
              State_Monad.return (Some (if allowed then s else with_body s (UDP (u\<lparr>u_state := UDP_FINISHING\<rparr>))))
            }
            else State_Monad.return (Some s)
          else State_Monad.return (if u_state u = UDP_BLOCKED then None else Some s)
      | TCP t \<Rightarrow>
          if \<not> closing t \<and> \<not> a_observeOnly args then do {
            allowed \<leftarrow> is_address_allowed args (tcp_flow IPPROTO_TCP t) (t_uid t);
            if allowed then State_Monad.return (Some s)
            else do { t \<leftarrow> write_rst args t; State_Monad.return (Some (with_body s (TCP t))) }
          }
          else State_Monad.return (Some s))"

fun check_allowed_list :: "arguments \<Rightarrow> session list \<Rightarrow> session list prog" where
  "check_allowed_list args [] = State_Monad.return []"
| "check_allowed_list args (s # ss) = do {
     r \<leftarrow> check_allowed_session args s;
     rs \<leftarrow> check_allowed_list args ss;
     State_Monad.return (case r of None \<Rightarrow> rs | Some s \<Rightarrow> s # rs)
   }"

definition check_allowed :: "arguments \<Rightarrow> unit prog" where
  "check_allowed args = do {
     w \<leftarrow> State_Monad.get;
     ss \<leftarrow> check_allowed_list args (w_sessions w);
     set_sessions ss
   }"

section \<open>The sweep over the sessions\<close>

text \<open>Whether a session counts against the limit.\<close>

definition counts :: "session \<Rightarrow> bool" where
  "counts s = (case s_body s of ICMP u \<Rightarrow> \<not> i_stop u | UDP u \<Rightarrow> u_state u = UDP_ACTIVE | TCP t \<Rightarrow> \<not> closing t)"

text \<open>The first loop: the number of sessions and \<open>recheck\<close>, the TCP sessions monitored.\<close>

fun count_sessions :: "arguments \<Rightarrow> session list \<Rightarrow> (session list \<times> int \<times> bool) prog" where
  "count_sessions args [] = State_Monad.return ([], 0, False)"
| "count_sessions args (s # ss) = do {
     (s', recheck) \<leftarrow> (case s_body s of
         TCP t \<Rightarrow> if s_socket s \<ge> 0 then do {
             (s', r) \<leftarrow> monitor_tcp_session args (with_body s t);
             State_Monad.return (with_body s' (TCP (s_body s')), r)
           }
           else State_Monad.return (s, False)
       | _ \<Rightarrow> State_Monad.return (s, False));
     (ss, n, r) \<leftarrow> count_sessions args ss;
     State_Monad.return (s' # ss, (if counts s then 1 else 0) + n, recheck \<or> r)
   }"

text \<open>The timeout of the wait, shortened to the end of a session's idle time.\<close>

definition shorten :: "int \<Rightarrow> int \<Rightarrow> int" where
  "shorten timeout stimeout = (if stimeout > 0 \<and> stimeout < timeout then stimeout else timeout)"

definition check_session ::
  "arguments \<Rightarrow> int \<Rightarrow> int \<Rightarrow> int \<Rightarrow> int \<Rightarrow> session \<Rightarrow> (session \<times> bool \<times> int) prog" where
  "check_session args sessions maxsessions now timeout s =
     (case s_body s of
        ICMP u \<Rightarrow> do {
          (s, del) \<leftarrow> check_icmp_session args (with_body s u) sessions maxsessions;
          let u = s_body s;
          State_Monad.return (with_body s (ICMP u), del,
            if \<not> i_stop u \<and> \<not> del
            then shorten timeout (to_int (i_time u + get_icmp_timeout u sessions maxsessions - now + 1)) else timeout)
        }
      | UDP u \<Rightarrow> do {
          (s, del) \<leftarrow> check_udp_session args (with_body s u) sessions maxsessions;
          let u = s_body s;
          State_Monad.return (with_body s (UDP u), del,
            if u_state u = UDP_ACTIVE \<and> \<not> del
            then shorten timeout (to_int (u_time u + get_udp_timeout u sessions maxsessions - now + 1)) else timeout)
        }
      | TCP t \<Rightarrow> do {
          (s, del) \<leftarrow> check_tcp_session args (with_body s t) sessions maxsessions;
          let t = s_body s;
          State_Monad.return (with_body s (TCP t), del,
            if \<not> closing t \<and> \<not> del
            then shorten timeout (to_int (t_time t + get_tcp_timeout t sessions maxsessions - now + 1)) else timeout)
        })"

text \<open>The second loop: a session that is to be deleted is unlinked and freed.\<close>

fun check_sessions ::
  "arguments \<Rightarrow> int \<Rightarrow> int \<Rightarrow> int \<Rightarrow> int \<Rightarrow> session list \<Rightarrow> (session list \<times> int) prog" where
  "check_sessions args sessions maxsessions now timeout [] = State_Monad.return ([], timeout)"
| "check_sessions args sessions maxsessions now timeout (s # ss) = do {
     (s, del, timeout) \<leftarrow> check_session args sessions maxsessions now timeout s;
     (ss, timeout) \<leftarrow> check_sessions args sessions maxsessions now timeout ss;
     State_Monad.return (if del then ss else s # ss, timeout)
   }"

section \<open>Ready descriptors\<close>

text \<open>
  What \<open>epoll_wait\<close> stores: for each event the mask and a pointer, packed. The pointer is
  \<open>NULL\<close> for the tun device and the address of \<open>ev_pipe\<close>, here 1, for the pipe; a session has
  the address \<open>s_addr + 2\<close>.
\<close>

datatype event_source = Source_tun | Source_pipe | Source_session nat

definition source_of :: "nat \<Rightarrow> event_source" where
  "source_of p = (if p = 0 then Source_tun else if p = 1 then Source_pipe else Source_session (p - 2))"

definition epoll_events :: "answer \<Rightarrow> (event_source \<times> u32) list" where
  "epoll_events a = map (\<lambda>i. (source_of (unat (get32 (bytes a) (12 * i + 4))), get32 (bytes a) (12 * i))) [0 ..< nat (ret a)]"

text \<open>The tun device: up to ten packets while it is readable. The result is \<open>error\<close>.\<close>

fun tun_loop :: "arguments \<Rightarrow> u32 \<Rightarrow> int \<Rightarrow> int \<Rightarrow> nat \<Rightarrow> bool prog" where
  "tun_loop args events sessions maxsessions 0 = State_Monad.return False"
| "tun_loop args events sessions maxsessions (Suc n) = do {
     w \<leftarrow> State_Monad.get;
     if w_stopping w then State_Monad.return False
     else do {
       readable \<leftarrow> is_readable args (a_tun args);
       if \<not> readable then State_Monad.return False
       else do {
         r \<leftarrow> check_tun args events sessions maxsessions;
         if r < 0 then State_Monad.return True else tun_loop args events sessions maxsessions n
       }
     }
   }"

text \<open>A UDP socket: up to ten datagrams while it is readable.\<close>

fun udp_loop :: "arguments \<Rightarrow> u32 \<Rightarrow> udp_session ng_session \<Rightarrow> nat \<Rightarrow> udp_session ng_session prog" where
  "udp_loop args events s 0 = State_Monad.return s"
| "udp_loop args events s (Suc n) = do {
     w \<leftarrow> State_Monad.get;
     if \<not> w_stopping w \<and> events AND EPOLLERR = 0 \<and> events AND EPOLLIN \<noteq> 0 then do {
       readable \<leftarrow> is_readable args (s_socket s);
       if \<not> readable then State_Monad.return s
       else do { s \<leftarrow> check_udp_socket args s events; udp_loop args events s n }
     }
     else State_Monad.return s
   }"

definition session_event :: "arguments \<Rightarrow> session \<Rightarrow> u32 \<Rightarrow> unit prog" where
  "session_event args s events =
     (case s_body s of
        ICMP u \<Rightarrow> do {
          s \<leftarrow> check_icmp_socket args (with_body s u) events;
          put_session (with_body s (ICMP (s_body s)))
        }
      | UDP u \<Rightarrow> do {
          s \<leftarrow> udp_loop args events (with_body s u) UDP_YIELD;
          put_session (with_body s (UDP (s_body s)))
        }
      | TCP t \<Rightarrow> do {
          s \<leftarrow> check_tcp_socket args (with_body s t) events;
          put_session (with_body s (TCP (s_body s)))
        })"

text \<open>The loop over the events; a pointer to no session is a use of freed memory.\<close>

fun handle_ready :: "arguments \<Rightarrow> int \<Rightarrow> int \<Rightarrow> (event_source \<times> u32) list \<Rightarrow> bool prog" where
  "handle_ready args sessions maxsessions [] = State_Monad.return False"
| "handle_ready args sessions maxsessions ((src, events) # es) = do {
     error \<leftarrow> (case src of
         Source_pipe \<Rightarrow> do { _ \<leftarrow> syscall args Call_pipe_read; State_Monad.return False }
       | Source_tun \<Rightarrow> tun_loop args events sessions maxsessions TUN_YIELD
       | Source_session addr \<Rightarrow> do {
           s \<leftarrow> find_session (\<lambda>s. s_addr s = addr);
           case s of
             None \<Rightarrow> do { undefined_behaviour; State_Monad.return False }
           | Some s \<Rightarrow> do { session_event args s events; State_Monad.return False }
         });
     if error then State_Monad.return True else handle_ready args sessions maxsessions es
   }"

section \<open>\<open>handle_events\<close>\<close>

definition get_maxsessions :: "arguments \<Rightarrow> int prog" where
  "get_maxsessions args = do {
     a \<leftarrow> syscall args Call_getrlimit;
     if ret a \<noteq> 0 then State_Monad.return SESSION_MAX
     else do {
       let n = to_int (uint ((word_of_int (out a) * 40) div 100 :: u64));
       State_Monad.return (if n > SESSION_MAX then SESSION_MAX else n)
     }
   }"

text \<open>The part of a round before the wait: the sweep, with the new time of the last check.\<close>

definition sweep :: "arguments \<Rightarrow> int \<Rightarrow> int \<Rightarrow> (int \<times> int \<times> int \<times> bool) prog" where
  "sweep args maxsessions last_check = do {
     w \<leftarrow> State_Monad.get;
     (ss, sessions, recheck) \<leftarrow> count_sessions args (w_sessions w);
     set_sessions ss;
     ms \<leftarrow> get_ms args;
     if ms - last_check > EPOLL_MIN_CHECK then do {
       now \<leftarrow> time args;
       (ss, timeout) \<leftarrow> check_sessions args sessions maxsessions now EPOLL_TIMEOUT ss;
       set_sessions ss;
       State_Monad.return (ms, sessions, timeout, recheck)
     }
     else State_Monad.return (last_check, sessions, EPOLL_TIMEOUT, True)
   }"

text \<open>One round of the loop: the time of the last check and whether to go on.\<close>

definition events_round :: "arguments \<Rightarrow> int \<Rightarrow> int \<Rightarrow> (int \<times> bool) prog" where
  "events_round args maxsessions last_check = do {
     (last_check, sessions, timeout, recheck) \<leftarrow> sweep args maxsessions last_check;
     a \<leftarrow> syscall args (Call_epoll_wait (if recheck then EPOLL_MIN_CHECK else timeout * 1000));
     if ret a < 0 then
       if errno a = EINTR then State_Monad.return (last_check, True)
       else do { report_exit args; State_Monad.return (last_check, False) }
     else do {
       error \<leftarrow> handle_ready args sessions maxsessions (epoll_events a);
       State_Monad.return (last_check, \<not> error)
     }
   }"

text \<open>The first \<open>n\<close> rounds of the loop.\<close>

fun events_loop :: "arguments \<Rightarrow> int \<Rightarrow> nat \<Rightarrow> int \<Rightarrow> unit prog" where
  "events_loop args maxsessions 0 last_check = State_Monad.return ()"
| "events_loop args maxsessions (Suc n) last_check = do {
     w \<leftarrow> State_Monad.get;
     if w_stopping w then State_Monad.return ()
     else do {
       (last_check, continue) \<leftarrow> events_round args maxsessions last_check;
       if continue then events_loop args maxsessions n last_check else State_Monad.return ()
     }
   }"

definition exit_unless :: "arguments \<Rightarrow> bool \<Rightarrow> unit prog" where
  "exit_unless args ok = guarded (\<not> ok) (do {
     report_exit args;
     State_Monad.update (\<lambda>w. w\<lparr>w_stopping := True\<rparr>)
   })"

definition handle_events :: "arguments \<Rightarrow> nat \<Rightarrow> unit prog" where
  "handle_events args n = do {
     maxsessions \<leftarrow> get_maxsessions args;
     check_allowed args;
     epoll \<leftarrow> syscall args Call_epoll_create;
     exit_unless args (ret epoll \<ge> 0);
     a \<leftarrow> syscall args Call_pipe_add;
     exit_unless args (ret a = 0);
     a \<leftarrow> syscall args (Call_epoll_ctl EPOLL_CTL_ADD (a_tun args) (EPOLLIN OR EPOLLERR));
     exit_unless args (ret a = 0);
     events_loop args maxsessions n 0;
     guarded (ret epoll \<ge> 0) (do { _ \<leftarrow> syscall args (Call_close (ret epoll)); State_Monad.return () })
   }"

end
