(* ===== verification/Tcp_Handshake.thy ===== *)
theory Tcp_Handshake
  imports Tcp_Policy Tcp_Download Session
begin

text \<open>
  The opening of a TCP connection, from the SYN of the application over the connection of the
  engine's own socket to the acknowledgement that establishes the session.
\<close>

section \<open>A kernel that serves\<close>

text \<open>Sockets can be opened and connected, the tun device takes whole packets, \<open>rand\<close> answers \<open>isn\<close>.\<close>

definition serving :: "arguments \<Rightarrow> u32 \<Rightarrow> bool" where
  "serving args isn \<longleftrightarrow> (\<forall>tr v p. 0 \<le> ret (a_os args tr (Call_socket v p))) \<and>
     (\<forall>tr fd. 0 \<le> ret (a_os args tr (Call_fcntl_getfl fd))) \<and>
     (\<forall>tr fd f. 0 \<le> ret (a_os args tr (Call_fcntl_setfl fd f))) \<and>
     (\<forall>tr fd addr port. 0 \<le> ret (a_os args tr (Call_connect fd addr port)) \<or>
        errno (a_os args tr (Call_connect fd addr port)) = EINPROGRESS) \<and>
     (\<forall>tr b. ret (a_os args tr (Call_tun_write b)) = int (length b)) \<and>
     (\<forall>tr. word_of_int (ret (a_os args tr Call_rand)) = isn)"

text \<open>The world of a device that can protect its sockets at once, without a proxy and a capture.\<close>

definition plain :: "world \<Rightarrow> bool" where
  "plain w \<longleftrightarrow> 21 \<le> w_sdk w \<and> \<not> use_socks5 w \<and> \<not> w_pcap_file w"

lemma plain_update [simp]:
  "plain (w\<lparr>w_trace := es\<rparr>) = plain w" "plain (w\<lparr>w_sessions := ss\<rparr>) = plain w" "plain (w\<lparr>w_ub := b\<rparr>) = plain w"
  "plain (w\<lparr>w_fresh := n\<rparr>) = plain w" "plain (w\<lparr>w_hang := b\<rparr>) = plain w"
  by (simp_all add: plain_def use_socks5_def)

lemma open_tcp_socket_serves:
  assumes "serving args isn" "plain w"
  shows "wp (open_tcp_socket args t) (\<lambda>r w'. 0 \<le> r \<and> (\<exists>a. (Call_connect r (t_daddr t) (t_dest t), a) \<in> set (w_trace w')) \<and>
    (\<exists>es. w' = w\<lparr>w_trace := es @ w_trace w\<rparr> \<and> tun_packets es = [])) w"
proof -
  have e: "\<exists>es'. w\<lparr>w_trace := a # b # c # d # e # w_trace w\<rparr> = w\<lparr>w_trace := es' @ w_trace w\<rparr> \<and> tun_packets es' = []"
    if "tun_packets [a, b, c, d, e] = []" for a b c d e
    by (rule exI [of _ "[a, b, c, d, e]"]) (use that in simp)
  show ?thesis
    unfolding open_tcp_socket_def protect_socket_def
    using assms by (auto simp: Let_def plain_def serving_def not_less intro!: e)
qed

lemma with_body_update: "with_body ((with_body s t)\<lparr>s_body := u\<rparr>) b = with_body s b"
  by (simp add: with_body_def)

text \<open>
  A session on its way: as many bytes as \<open>k\<close> (the SYN) are counted in both directions.
\<close>

definition under_way :: "buf \<Rightarrow> nat \<Rightarrow> u32 \<Rightarrow> u32 \<Rightarrow> tcp_state \<Rightarrow> session \<Rightarrow> bool" where
  "under_way pkt payload isn k st s \<longleftrightarrow> tcp_match pkt payload s \<and> 0 \<le> s_socket s \<and> (\<exists>t. s_body s = TCP t \<and>
     t_state t = st \<and> t_forward t = [] \<and> (st = TCP_LISTEN \<longrightarrow> t_socks5 t = SOCKS5_NONE) \<and>
     t_remote_seq t = h_seq (get_tcphdr pkt payload) + k \<and> t_local_seq t = isn + k)"

lemma tcp_register_serves:
  assumes "serving args isn" "plain w"
  shows "wp (tcp_register args addr t True) (\<lambda>r w'. r \<and> (\<exists>sock window es. w' = w\<lparr>w_sessions :=
      \<lparr>s_addr = addr, s_protocol = IPPROTO_TCP, s_body = TCP (t\<lparr>t_recv_window := window\<rparr>), s_socket = sock,
       s_events = EPOLLOUT OR EPOLLERR\<rparr> # w_sessions w, w_trace := es @ w_trace w\<rparr> \<and> tun_packets es = [] \<and>
      0 \<le> sock \<and> (\<exists>a. (Call_connect sock (t_daddr t) (t_dest t), a) \<in> set (w_trace w')))) w"
    (is "wp _ ?Q w")
  unfolding tcp_register_def wp_bind
proof (rule wp_mono [OF open_tcp_socket_serves [OF assms]], goal_cases)
  case (1 sock w1)
  then obtain a es where 1: "0 \<le> sock" "(Call_connect sock (t_daddr t) (t_dest t), a) \<in> set (w_trace w1)"
      "w1 = w\<lparr>w_trace := es @ w_trace w\<rparr>" "tun_packets es = []" by blast
  have window: "emits (\<lambda>c. \<forall>b. c \<noteq> Call_tun_write b) (get_receive_window args x)" for x
    unfolding get_receive_window_def get_receive_buffer_def by (intro emits_rules; simp)
  have done_with: "?Q True (w1\<lparr>w_trace := e1 # e2 # es2 @ w_trace w1, w_sessions :=
      \<lparr>s_addr = addr, s_protocol = IPPROTO_TCP, s_body = TCP (t\<lparr>t_recv_window := v\<rparr>), s_socket = sock,
       s_events = EPOLLOUT OR EPOLLERR\<rparr> # w_sessions w1\<rparr>)"
    if "tun_packets [e1, e2] = []" "\<forall>e \<in> set es2. \<forall>b. fst e \<noteq> Call_tun_write b" for e1 e2 es2 v
    apply (rule conjI [OF TrueI])
    apply (rule exI [of _ sock], rule exI [of _ v], rule exI [of _ "[e1, e2] @ es2 @ es"])
    using 1 tun_packets_none [OF that(2)] that(1) tun_packets_append [of "[e1, e2]" "es2 @ es"]
    by (auto simp: tun_packets_append simp del: tun_packets.simps)
  show ?case
    using 1(1)
  proof (simp add: Let_def get_local_port_def, rule_tac wp_summary [OF window frame_get_receive_window [where g = but_trace] returns_True], simp, goal_cases)
    case (1 v es2)
    have q: "\<forall>e \<in> set es2. \<forall>b. fst e \<noteq> Call_tun_write b" using 1 by blast
    have "tun_packets [(Call_epoll_ctl EPOLL_CTL_ADD sock (EPOLLOUT OR EPOLLERR), x), (Call_getsockname sock, y)] = []" for x y
      by simp
    from done_with [OF this q] show ?case by (simp add: with_body_def del: ex_simps)
  qed
qed


lemma under_way_new:
  assumes "h_syn (get_tcphdr pkt payload)" "data = []" "0 \<le> sock"
  shows "under_way pkt payload isn 0 TCP_LISTEN \<lparr>s_addr = addr, s_protocol = IPPROTO_TCP,
    s_body = TCP ((tcp_session_of pkt (get_tcphdr pkt payload) uid now mss ws isn data)\<lparr>t_recv_window := window\<rparr>),
    s_socket = sock, s_events = EPOLLOUT OR EPOLLERR\<rparr>"
  using assms by (simp add: under_way_def tcp_match_def tcp_session_of_def get_tcphdr_def Let_def)

lemma syn_opens:
  assumes "serving args isn" "plain w" "find (tcp_match pkt payload) (w_sessions w) = None"
    and "h_syn (get_tcphdr pkt payload)" "\<not> h_urg (get_tcphdr pkt payload)" "tcp_datalen (get_tcphdr pkt payload) len payload = 0"
    and "tcp_opts pkt (uint (tcp_optlen (get_tcphdr pkt payload))) (payload + 20) (get_default_mss (ip_version pkt)) 0 = Some (mss, ws)"
  shows "wp (handle_tcp args pkt len payload uid True) (\<lambda>r w'. r \<and> plain w' \<and> tun_packets (w_trace w') = tun_packets (w_trace w) \<and>
    (\<exists>s. w_sessions w' = s # w_sessions w \<and> s_addr s = w_fresh w \<and> under_way pkt payload isn 0 TCP_LISTEN s \<and>
      (\<exists>a. (Call_connect (s_socket s) (ip_daddr pkt) (get16 pkt (payload + 2)), a) \<in> set (w_trace w')))) w"
    (is "wp _ ?Q w")
proof -
  obtain h where h: "get_tcphdr pkt payload = h" by blast
  have new: "wp (tcp_register args (w_fresh w) (tcp_session_of pkt h uid now mss ws isn []) True) ?Q w1"
    if "plain w1" "w_sessions w1 = w_sessions w" "tun_packets (w_trace w1) = tun_packets (w_trace w)" for w1 now
  proof (rule wp_mono [OF tcp_register_serves [OF assms(1) that(1)]], goal_cases)
    case (1 r w')
    then obtain sock window es a where 1: "r" "w' = w1\<lparr>w_sessions :=
      \<lparr>s_addr = w_fresh w, s_protocol = IPPROTO_TCP, s_body = TCP ((tcp_session_of pkt h uid now mss ws isn [])\<lparr>t_recv_window := window\<rparr>), s_socket = sock,
       s_events = EPOLLOUT OR EPOLLERR\<rparr> # w_sessions w1, w_trace := es @ w_trace w1\<rparr>" "tun_packets es = []" "0 \<le> sock"
       "(Call_connect sock (ip_daddr pkt) (get16 pkt (payload + 2)), a) \<in> set (w_trace w')"
      by (auto simp: h [symmetric] simp del: add_2_eq_Suc')
    then show ?case using that under_way_new [OF assms(4) refl 1(4), of isn] by (auto simp: tun_packets_append h)
  qed
  have isn: "word_of_int (ret (a_os args tr Call_rand)) = isn" for tr using assms(1) by (simp add: serving_def)
  show ?thesis
    using assms(2-7) unfolding h
    by (auto simp: handle_tcp_def touch_ip_def tcp_new_def h Let_def isn simp del: add_2_eq_Suc' intro!: new)
qed


lemma put_list_head:
  assumes "s_addr s' = s_addr s" "\<forall>x \<in> set ss. s_addr x < s_addr s"
  shows "put_list s' (s # ss) = s' # ss"
  using assms by (auto simp: put_list_def intro!: map_idI)

lemma under_way_moves:
  assumes "under_way pkt payload isn k st s" "s_body s = TCP t" "tcp_match pkt payload (with_body s (TCP t'))"
    and "t_state t' = st'" "st' \<noteq> TCP_LISTEN" "t_forward t' = []"
    and "t_remote_seq t' = h_seq (get_tcphdr pkt payload) + k'" "t_local_seq t' = isn + k'"
  shows "under_way pkt payload isn k' st' (with_body s (TCP t'))"
  using assms by (simp add: under_way_def)

lemma connected_answers:
  assumes "serving args isn" "plain w" "under_way pkt payload isn 0 TCP_LISTEN s" "w_sessions w = s # ss"
    and "\<forall>x \<in> set ss. s_addr x < s_addr s"
  shows "wp (session_event args s EPOLLOUT) (\<lambda>_ w'. plain w' \<and> (\<exists>s'. w_sessions w' = s' # ss \<and> s_addr s' = s_addr s \<and>
     s_socket s' = s_socket s \<and> under_way pkt payload isn 1 TCP_SYN_RECV s' \<and> set (w_trace w) \<subseteq> set (w_trace w') \<and>
     (\<exists>u. tun_packets (w_trace w') = tun_packets (w_trace w) @ [tcp_packet u flags_syn_ack []] \<and> tcp_match pkt payload (with_body s (TCP u)) \<and>
        t_local_seq u = isn \<and> t_remote_seq u = h_seq (get_tcphdr pkt payload) + 1))) w"
proof -
  have ev: "EPOLLOUT AND EPOLLERR = 0" "EPOLLOUT AND EPOLLOUT \<noteq> 0" by (simp_all add: epoll_defs)
  have writes: "wp (write_syn_ack args u) Q w1 = Q (u, 0) (w1\<lparr>w_trace := (Call_tun_write (tcp_packet u flags_syn_ack []),
      a_os args (w_trace w1) (Call_tun_write (tcp_packet u flags_syn_ack []))) # w_trace w1\<rparr>)" if "plain w1" for u Q w1
    using assms(1) that by (simp add: write_syn_ack_def write_tcp_def tun_write_def serving_def plain_def Let_def)
  have nosocks: "\<not> use_socks5 w" using assms(2) by (simp add: plain_def)
  obtain t where t: "s_body s = TCP t" "t_state t = TCP_LISTEN" "t_socks5 t = SOCKS5_NONE" "t_forward t = []"
      "t_remote_seq t = h_seq (get_tcphdr pkt payload)" "t_local_seq t = isn" "tcp_match pkt payload s"
    using assms(3) by (auto simp: under_way_def)
  let ?u = "t\<lparr>t_socks5 := SOCKS5_CONNECTED, t_remote_seq := t_remote_seq t + 1\<rparr>"
  have moves: "under_way pkt payload isn 1 TCP_SYN_RECV (with_body s (TCP (?u\<lparr>t_time := now, t_local_seq := isn + 1, t_state := TCP_SYN_RECV\<rparr>)))" for now
    using t by (intro under_way_moves [OF assms(3) t(1)]) (auto simp: tcp_match_def)
  have u: "tcp_match pkt payload (with_body s (TCP ?u))" using t by (simp add: tcp_match_def)
  show ?thesis
    using moves u t nosocks assms(2,4,5) ev
    by (auto simp: session_event_def check_tcp_socket_def socks5_receive_def socks5_advance_def writes Let_def
        with_body_update put_list_head)
qed

lemma ack_establishes:
  assumes "plain w" "under_way pkt payload isn 1 TCP_SYN_RECV s" "w_sessions w = s # ss" "\<forall>x \<in> set ss. s_addr x < s_addr s"
    and "tcp_match pkt2 payload = tcp_match pkt payload" "get_tcphdr pkt2 payload = h" "tcp_datalen h len payload = 0"
    and "\<not> h_urg h" "\<not> h_syn h" "\<not> h_fin h" "\<not> h_rst h" "h_ack h" "h_ack_seq h = isn + 1"
    and "40 \<le> length pkt2" "payload + 20 \<le> length pkt2"
  shows "wp (handle_tcp args pkt2 len payload uid True) (\<lambda>r w'. r \<and> plain w' \<and> (\<exists>s'. w_sessions w' = s' # ss \<and>
     s_socket s' = s_socket s \<and> under_way pkt payload isn 1 TCP_ESTABLISHED s' \<and> set (w_trace w) \<subseteq> set (w_trace w') \<and>
     tun_packets (w_trace w') = tun_packets (w_trace w))) w"
proof -
  obtain t where t: "s_body s = TCP t" "t_state t = TCP_SYN_RECV" "t_forward t = []"
      "t_remote_seq t = h_seq (get_tcphdr pkt payload) + 1" "t_local_seq t = isn + 1" "tcp_match pkt payload s"
    using assms(2) by (auto simp: under_way_def)
  have found: "find (tcp_match pkt2 payload) (w_sessions w) = Some s" using assms(3,5) t(6) by simp
  have "\<not> h_urg (get_tcphdr pkt2 payload)" using assms(6,8) by simp
  note handle = handle_tcp_found [OF found t(1) this assms(14,15)]
  have moves: "under_way pkt payload isn 1 TCP_ESTABLISHED (with_body s (TCP (t\<lparr>t_uid := u, t_time := now,
     t_send_window := v, t_unconfirmed := 0, t_acked := a, t_state := TCP_ESTABLISHED\<rparr>)))"
    "under_way pkt payload isn 1 TCP_ESTABLISHED (with_body s (TCP (t\<lparr>t_time := now,
     t_send_window := v, t_unconfirmed := 0, t_acked := a, t_state := TCP_ESTABLISHED\<rparr>)))" for u now v a
    using t assms(2) by (auto simp: under_way_def tcp_match_def)
  show ?thesis
    unfolding handle assms(6) using assms(1,3,4,7-13) t moves
    by (auto simp: tcp_found_def tcp_in_sequence_def Let_def put_list_head)
qed


lemma under_way_match:
  "under_way pkt payload isn k st s' \<Longrightarrow> tcp_match pkt payload (with_body s (TCP u)) \<Longrightarrow>
    tcp_match pkt payload (with_body s' (TCP u))"
  by (auto simp: under_way_def tcp_match_def)

section \<open>Claims\<close>


definition web_ack :: buf where
  "web_ack = [0x45, 0, 0, 40, 0, 0, 0, 0, 64, 6, 0, 0, 10, 1, 10, 1, 93, 184, 216, 34,
     0x9C, 0x40, 1, 0xBB, 0, 0, 3, 0xE9, 0, 0, 0, 1, 0x50, 0x10, 0xFF, 0xFF, 0, 0, 0, 0]"


end
