(* ===== verification/Entry.thy ===== *)
theory Entry
  imports Session
begin

text \<open>
  The entry points of \<open>netguard.c\<close>, by which the service creates the engine, starts, stops
  and clears it, reads its statistics, configures the proxy and destroys it.
\<close>

section \<open>Creation\<close>

definition ANDROID_LOG_WARN :: int where "ANDROID_LOG_WARN = 5"

text \<open>One end of the signal pipe is made non-blocking; a failure is only logged.\<close>

definition set_nonblock :: "arguments \<Rightarrow> int \<Rightarrow> unit prog" where
  "set_nonblock args fd = do {
     fl \<leftarrow> syscall args (Call_fcntl_getfl fd);
     guarded (ret fl \<ge> 0) (do { _ \<leftarrow> syscall args (Call_fcntl_setfl fd (ret fl OR O_NONBLOCK)); State_Monad.return () })
   }"

text \<open>
  A context of zeros from \<open>calloc\<close>, the globals reset, and the pipe, whose two descriptors
  the kernel stores; when it cannot be created they keep the zeros.
\<close>

definition jni_init :: "arguments \<Rightarrow> int \<Rightarrow> unit prog" where
  "jni_init args sdk = do {
     State_Monad.update (\<lambda>w. w\<lparr>w_sessions := [], w_stopping := False, w_pipefds := (0, 0), w_sdk := sdk,
       w_loglevel := ANDROID_LOG_WARN, w_socks5_addr := [], w_socks5_port := 0, w_socks5_username := [],
       w_socks5_password := [], w_pcap_file := False\<rparr>);
     a \<leftarrow> syscall args Call_pipe;
     guarded (ret a = 0) (do {
       let fds = (sint (get32 (bytes a) 0), sint (get32 (bytes a) 4));
       State_Monad.update (\<lambda>w. w\<lparr>w_pipefds := fds\<rparr>);
       set_nonblock args (fst fds);
       set_nonblock args (snd fds)
     })
   }"

section \<open>Running\<close>

definition jni_start :: "int \<Rightarrow> unit prog" where
  "jni_start level = State_Monad.update (\<lambda>w. w\<lparr>w_loglevel := level, w_max_tun_msg := 0, w_stopping := False\<rparr>)"

text \<open>\<open>fcntl\<close> makes the tun device blocking.\<close>

definition jni_run :: "arguments \<Rightarrow> bool \<Rightarrow> bool \<Rightarrow> nat \<Rightarrow> unit prog" where
  "jni_run args logTraffic observeOnly n = do {
     fl \<leftarrow> syscall args (Call_fcntl_getfl (a_tun args));
     guarded (ret fl \<ge> 0) (do { _ \<leftarrow> syscall args (Call_fcntl_setfl (a_tun args) (ret fl AND NOT O_NONBLOCK)); State_Monad.return () });
     handle_events (args\<lparr>a_logTraffic := logTraffic \<or> observeOnly, a_observeOnly := observeOnly\<rparr>) n
   }"

definition jni_stop :: "arguments \<Rightarrow> unit prog" where
  "jni_stop args = do {
     State_Monad.update (\<lambda>w. w\<lparr>w_stopping := True\<rparr>);
     _ \<leftarrow> syscall args Call_pipe_write;
     State_Monad.return ()
   }"

definition jni_clear :: "arguments \<Rightarrow> unit prog" where
  "jni_clear args = clear args"

section \<open>Statistics\<close>

definition is_ICMP :: "session \<Rightarrow> bool" where
  "is_ICMP s = (case s_body s of ICMP _ \<Rightarrow> True | _ \<Rightarrow> False)"
definition is_UDP :: "session \<Rightarrow> bool" where
  "is_UDP s = (case s_body s of UDP _ \<Rightarrow> True | _ \<Rightarrow> False)"
definition is_TCP :: "session \<Rightarrow> bool" where
  "is_TCP s = (case s_body s of TCP _ \<Rightarrow> True | _ \<Rightarrow> False)"

text \<open>The loop over the sessions: the numbers of open ICMP, UDP and TCP sessions.\<close>

fun session_stats :: "session list \<Rightarrow> int \<times> int \<times> int" where
  "session_stats [] = (0, 0, 0)"
| "session_stats (s # ss) =
     (let (i, u, t) = session_stats ss
      in case s_body s of
           ICMP x \<Rightarrow> (if \<not> i_stop x then i + 1 else i, u, t)
         | UDP x \<Rightarrow> (i, if u_state x = UDP_ACTIVE then u + 1 else u, t)
         | TCP x \<Rightarrow> (i, u, if \<not> closing x then t + 1 else t))"

text \<open>
  The directory of open files; the answer to the \<open>i\<close>th \<open>readdir\<close> is 0 at its end, and has the
  type of the entry in \<open>out\<close>. The loop is followed for \<open>fuel\<close> entries.
\<close>

definition DT_DIR :: int where "DT_DIR = 4"

fun open_files :: "arguments \<Rightarrow> nat \<Rightarrow> nat \<Rightarrow> int prog" where
  "open_files args 0 i = State_Monad.return 0"
| "open_files args (Suc fuel) i = do {
     e \<leftarrow> syscall args (Call_readdir i);
     if ret e = 0 then State_Monad.return 0
     else do {
       n \<leftarrow> open_files args fuel (i + 1);
       State_Monad.return (if out e \<noteq> DT_DIR then n + 1 else n)
     }
   }"

definition jni_get_stats :: "arguments \<Rightarrow> nat \<Rightarrow> int list prog" where
  "jni_get_stats args fuel = do {
     w \<leftarrow> State_Monad.get;
     let (i, u, t) = session_stats (w_sessions w);
     d \<leftarrow> syscall args Call_opendir;
     files \<leftarrow> (if ret d \<noteq> 0 then do {
         n \<leftarrow> open_files args fuel 0;
         _ \<leftarrow> syscall args Call_closedir;
         State_Monad.return n
       } else State_Monad.return 0);
     rlim \<leftarrow> syscall args Call_getrlimit;
     State_Monad.return [i, u, t, files, if ret rlim = 0 then to_int (out rlim) else 0]
   }"

section \<open>Configuration and queries\<close>

text \<open>
  \<open>strcpy\<close> into arrays of 47, 128 and 128 bytes, the string's end included; a longer string
  is written beyond them.
\<close>

definition jni_socks5 :: "buf \<Rightarrow> int \<Rightarrow> buf \<Rightarrow> buf \<Rightarrow> unit prog" where
  "jni_socks5 addr port username password = do {
     guarded (length addr \<ge> 47 \<or> length username \<ge> 128 \<or> length password \<ge> 128) undefined_behaviour;
     State_Monad.update (\<lambda>w. w\<lparr>w_socks5_addr := addr, w_socks5_port := port,
       w_socks5_username := username, w_socks5_password := password\<rparr>)
   }"

text \<open>The value of a system property, from an array of \<open>PROP_VALUE_MAX + 1\<close> zero bytes.\<close>

definition jni_getprop :: "arguments \<Rightarrow> buf \<Rightarrow> buf prog" where
  "jni_getprop args name = do {
     a \<leftarrow> syscall args (Call_property_get name);
     State_Monad.return (cstring (bytes a))
   }"

text \<open>
  Whether a string is a numeric address. What \<open>getaddrinfo\<close> leaves in \<open>result\<close> after an error is
  not specified, and a pointer other than \<open>NULL\<close> is freed.
\<close>

definition is_numeric_address :: "arguments \<Rightarrow> buf \<Rightarrow> bool prog" where
  "is_numeric_address args ip = do {
     a \<leftarrow> syscall args (Call_getaddrinfo ip);
     guarded (ret a \<noteq> 0 \<and> out a \<noteq> 0) undefined_behaviour;
     State_Monad.return (ret a = 0 \<and> out a \<noteq> 0)
   }"

section \<open>Destruction\<close>

definition jni_done :: "arguments \<Rightarrow> unit prog" where
  "jni_done args = do {
     clear args;
     w \<leftarrow> State_Monad.get;
     _ \<leftarrow> syscall args (Call_close (fst (w_pipefds w)));
     _ \<leftarrow> syscall args (Call_close (snd (w_pipefds w)));
     State_Monad.update (\<lambda>w. w\<lparr>w_uid_cache := []\<rparr>)
   }"

end
