(* ===== verification/Engine.thy ===== *)
theory Engine
  imports Entry "HOL-Library.Multiset"
begin

text \<open>
  The engine as a whole: the invariant of the store of sessions, kept by every step of the
  event loop; the descriptors it owns; and what a restart does to the sessions.
\<close>

section \<open>The invariant\<close>

text \<open>Each session satisfies the invariant of its protocol.\<close>

definition session_ok :: "session \<Rightarrow> bool" where
  "session_ok s = (case s_body s of ICMP u \<Rightarrow> icmp_inv (with_body s u) | UDP u \<Rightarrow> udp_inv (with_body s u)
     | TCP t \<Rightarrow> tcp_inv (with_body s t))"

interpretation engine_udp: udp_store session_ok
  by unfold_locales (simp add: session_ok_def)

interpretation engine_icmp: icmp_store session_ok
  by unfold_locales (simp add: session_ok_def)

interpretation engine_tcp: tcp_store session_ok
  by unfold_locales (simp add: session_ok_def)

lemma session_ok_with [simp]:
  "session_ok (with_body s (ICMP u)) = icmp_inv (with_body s u)"
  "session_ok (with_body s (UDP v)) = udp_inv (with_body s v)"
  "session_ok (with_body s (TCP t)) = tcp_inv (with_body s t)"
  by (simp_all add: session_ok_def with_body_def)

section \<open>A packet\<close>

text \<open>A packet that is located has one of the two versions.\<close>

lemma ip_locate_version:
  "returns (\<lambda>r. r \<noteq> None \<longrightarrow> ip_version pkt \<in> {4, 6}) (ip_locate pkt len)"
  unfolding ip_locate_def by (intro returns_rules) auto

lemma keeps_ip_dispatch:
  assumes "ip_version pkt \<in> {4, 6}"
  shows "keeps (evolves session_ok z) (ip_dispatch args pkt len payload protocol uid allowed quic)"
  unfolding ip_dispatch_def
  by (intro keeps_rules keeps_wp engine_udp.handle_udp_keeps engine_udp.block_udp_keeps
      engine_icmp.handle_icmp_keeps engine_tcp.handle_tcp_keeps assms)

lemma keeps_handle_ip: "keeps (evolves session_ok z) (handle_ip args pkt len sessions maxsessions)"
  unfolding handle_ip_def
  apply (rule keeps_bind_returns [OF keeps_frame ip_locate_version])
   apply (intro frame_rules; simp)
  apply (intro keeps_rules keeps_ip_dispatch; (rule keeps_frame, intro frame_rules; simp)?)
  apply simp
  done

lemma keeps_check_tun: "keeps (evolves session_ok z) (check_tun args events sessions maxsessions)"
  unfolding check_tun_def
  by (intro keeps_rules keeps_handle_ip; rule keeps_frame; intro frame_rules; simp)

lemma keeps_syscall [keeps_rules]: "keeps (evolves ok z) (syscall args c)"
  by (rule keeps_frame) (intro frame_rules; simp)

lemma keeps_is_readable [keeps_rules]: "keeps (evolves ok z) (is_readable args fd)"
  by (rule keeps_frame) (intro frame_rules; simp)

lemma keeps_tun_loop: "keeps (evolves session_ok z) (tun_loop args events sessions maxsessions n)"
proof (induction n)
  case (Suc n)
  then show ?case unfolding tun_loop.simps by (intro keeps_rules keeps_check_tun)
qed (simp add: keeps_return)

section \<open>A socket event\<close>

lemma frame_tcp_forward [frame_rules]:
  assumes "\<And>w e. g (w\<lparr>w_trace := e\<rparr>) = g w" "\<And>w e. g (w\<lparr>w_ub := e\<rparr>) = g w"
  shows "frame g (tcp_forward args fd n fwd t q)"
proof (induction q arbitrary: n fwd t)
  case (Cons seg q)
  then show ?case unfolding tcp_forward.simps using assms by (intro frame_rules)
qed (simp add: frame_return)

lemma frame_check_tcp_socket [frame_rules]:
  assumes "\<And>w e. g (w\<lparr>w_trace := e\<rparr>) = g w" "\<And>w e. g (w\<lparr>w_ub := e\<rparr>) = g w"
  shows "frame g (check_tcp_socket args s events)"
  unfolding check_tcp_socket_def socks5_receive_def socks5_advance_def socks5_send_def tcp_acknowledge_def tcp_read_def
    tcp_eof_def tcp_received_def get_receive_window_def get_receive_buffer_def
  using assms by (intro frame_rules)

lemma udp_loop_wp:
  assumes "udp_inv s" "u_state (s_body s) \<le> UDP_FINISHING"
  shows "wp (udp_loop args events s n) (\<lambda>s' w'. udp_inv s' \<and> s_addr s' = s_addr s \<and> s_socket s' = s_socket s \<and>
    store w' = store w) w"
  using assms
proof (induction n arbitrary: s w)
  case (Suc n)
  have "wp (check_udp_socket args s events) (\<lambda>s'. wp (udp_loop args events s' n) (\<lambda>s' w'. udp_inv s' \<and>
      s_addr s' = s_addr s \<and> s_socket s' = s_socket s \<and> store w' = store w)) w'" if "store w' = store w" for w'
    by (rule wp_mono [OF check_udp_socket_wp [OF Suc.prems]])
      (rule wp_mono [OF Suc.IH]; use that in auto)
  then show ?case using Suc.prems by (simp add: Let_def is_readable_def is_event_def)
qed simp

lemma session_event_ok:
  assumes w: "world_ok session_ok w" and s: "s \<in> set (w_sessions w)" "0 \<le> s_socket s"
  shows "wp (session_event args s events) (\<lambda>_ w'. world_ok session_ok w' \<and>
    (\<forall>a sock. (a, sock) \<in> sockets w \<and> a \<noteq> s_addr s \<longrightarrow> (a, sock) \<in> sockets w')) w"
    (is "wp _ (\<lambda>_. ?Q) w")
proof -
  have ok: "session_ok s" using w s(1) by (simp add: world_ok_def)
  have put: "wp (put_session s') (\<lambda>_. ?Q) w'"
    if st: "store w' = store w" and s': "session_ok s'" "s_addr s' = s_addr s" for s' w'
  proof -
    have "world_ok session_ok w'" using world_ok_same [OF st w] .
    moreover have "sockets w' = sockets w" by (rule sockets_same) (use st in simp)
    ultimately show ?thesis
      using world_ok_put [of session_ok w' s'] s' s(1) st sockets_put_other [of _ _ w' s'] by auto
  qed
  show ?thesis
  proof (cases "s_body s")
    case (ICMP u)
    with ok have inv: "icmp_inv (with_body s u)" by (simp add: session_ok_def)
    show ?thesis
      unfolding session_event_def ICMP
      by (simp del: wp_put_session, rule wp_mono [OF check_icmp_socket_wp [OF inv]], rule put) auto
  next
    case (UDP u)
    with ok have inv: "udp_inv (with_body s u)" by (simp add: session_ok_def)
    have st: "u_state (s_body (with_body s u)) \<le> UDP_FINISHING"
      using inv s(2) by (cases "u_state u") (auto simp: udp_inv_def)
    show ?thesis
      unfolding session_event_def UDP
      by (simp del: wp_put_session, rule wp_mono [OF udp_loop_wp [OF inv st]], rule put) auto
  next
    case (TCP t)
    with ok have inv: "tcp_inv (with_body s t)" by (simp add: session_ok_def)
    have ret: "returns (session_advances (with_body s t)) (check_tcp_socket args (with_body s t) events)"
      by (rule returns_check_tcp_socket [OF inv]) (use s(2) in simp)
    show ?thesis
      unfolding session_event_def TCP
      by (simp del: wp_put_session, rule wp_frame_returns [OF frame_check_tcp_socket [where g = store] ret])
        (auto simp: session_advances_def simp del: wp_put_session intro!: put)
  qed
qed

section \<open>Ready descriptors\<close>

text \<open>
  What \<open>epoll_wait\<close> promises of its events: each descriptor is reported once, and a reported
  session is one that was registered and whose socket is still open.
\<close>

fun event_addrs :: "(event_source \<times> u32) list \<Rightarrow> nat list" where
  "event_addrs [] = []"
| "event_addrs ((Source_session a, _) # es) = a # event_addrs es"
| "event_addrs (_ # es) = event_addrs es"

definition ready_ok :: "world \<Rightarrow> (event_source \<times> u32) list \<Rightarrow> bool" where
  "ready_ok w es \<longleftrightarrow> distinct (event_addrs es) \<and>
     (\<forall>a \<in> set (event_addrs es). \<exists>sock. 0 \<le> sock \<and> (a, sock) \<in> sockets w)"

lemma find_addr:
  assumes "world_ok ok w" "(a, sock) \<in> sockets w"
  obtains s where "find (\<lambda>s. s_addr s = a) (w_sessions w) = Some s" "s \<in> set (w_sessions w)" "s_addr s = a"
    "s_socket s = sock"
  using assms session_at_member [of "w_sessions w" a]
  by (auto simp: world_ok_def store_ok_def sockets_def session_at_def)

lemma handle_ready_keeps:
  assumes "world_ok session_ok w" "ready_ok w es"
  shows "wp (handle_ready args n m es) (\<lambda>_. world_ok session_ok) w"
  using assms
proof (induction es arbitrary: w)
  case (Cons e es)
  obtain src ev where e: "e = (src, ev)" by fastforce
  show ?case
  proof (cases src)
    case (Source_session a)
    then obtain sock where sock: "0 \<le> sock" "(a, sock) \<in> sockets w" using Cons.prems(2) e by (auto simp: ready_ok_def)
    obtain s where s: "find (\<lambda>s. s_addr s = a) (w_sessions w) = Some s" "s \<in> set (w_sessions w)" "s_addr s = a"
        "s_socket s = sock"
      using find_addr [OF Cons.prems(1) sock(2)] .
    have "ready_ok w' es" if "\<forall>b so. (b, so) \<in> sockets w \<and> b \<noteq> s_addr s \<longrightarrow> (b, so) \<in> sockets w'" for w'
      using Cons.prems(2) e Source_session that s(3) by (auto simp: ready_ok_def) metis
    with Cons s sock show ?thesis
      by (simp add: e Source_session, intro wp_mono [OF session_event_ok]) auto
  next
    case Source_tun
    have "ready_ok w' es" if "evolves session_ok w w'" for w'
      using Cons.prems(2) that e Source_tun by (auto simp: ready_ok_def evolves_def)
    with Cons show ?thesis
      by (simp add: e Source_tun, intro wp_mono [OF wp_keeps [OF keeps_tun_loop evolves_refl]]) (auto dest: evolves_ok)
  next
    case Source_pipe
    have "world_ok session_ok w'" "ready_ok w' es" if "store w' = store w" for w'
      using world_ok_same [OF that Cons.prems(1)] Cons.prems(2) that sockets_same [of w' w] e Source_pipe
      by (simp_all add: ready_ok_def)
    then show ?thesis using Cons.IH by (simp add: e Source_pipe Let_def)
  qed
qed simp

section \<open>Descriptors\<close>

text \<open>
  The descriptors the sessions own, together with those that have been closed: a descriptor
  that leaves the sum was leaked, one that enters it was closed twice.
\<close>

definition open_fds :: "session list \<Rightarrow> int list" where
  "open_fds ss = filter (\<lambda>fd. 0 \<le> fd) (map s_socket ss)"

definition accounted :: "world \<Rightarrow> session list \<Rightarrow> int multiset" where
  "accounted w ss = mset (closed_fds (w_trace w)) + mset (open_fds ss)"

lemma open_fds_simps [simp]:
  "open_fds [] = []" "open_fds (s # ss) = (if 0 \<le> s_socket s then s_socket s # open_fds ss else open_fds ss)"
  by (simp_all add: open_fds_def)

fun closes :: "call \<Rightarrow> bool" where
  "closes (Call_close _) = True"
| "closes _ = False"

lemma not_closes [simp]: "is_service_call c \<Longrightarrow> \<not> closes c" "is_tun_call c \<Longrightarrow> \<not> closes c"
  by (cases c; auto simp: is_tun_call_def)+

lemma closed_fds_none: "\<forall>e \<in> set es. \<not> closes (fst e) \<Longrightarrow> closed_fds es = []"
  by (induction es rule: closed_fds.induct) auto

lemma wp_known:
  assumes "emits P m" "frame g m" "returns R m"
    and "\<And>a w' es. R a \<Longrightarrow> g w' = g w \<Longrightarrow> w_trace w' = es @ w_trace w \<Longrightarrow> \<forall>e \<in> set es. P (fst e) \<Longrightarrow> Q a w'"
  shows "wp m Q w"
proof -
  obtain a w' where r: "run_state m w = (a, w')" by fastforce
  obtain es where "w_trace w' = es @ w_trace w" "\<forall>e \<in> set es. P (fst e)" using emits_run [OF assms(1) r] .
  with assms(4) [OF returnsD [OF assms(3) r] frameD [OF assms(2) r]] r show ?thesis by (simp add: wp_def)
qed

section \<open>The sweep\<close>

lemma case_list_rules:
  "emits P m \<Longrightarrow> (\<And>x xs. emits P (f x xs)) \<Longrightarrow> emits P (case z of [] \<Rightarrow> m | x # xs \<Rightarrow> f x xs)"
  "frame g m \<Longrightarrow> (\<And>x xs. frame g (f x xs)) \<Longrightarrow> frame g (case z of [] \<Rightarrow> m | x # xs \<Rightarrow> f x xs)"
  by (cases z; simp)+

lemma emits_monitor: "emits (\<lambda>c. \<not> closes c) (monitor_tcp_session args s)"
  unfolding monitor_tcp_session_def tcp_events_def tcp_keep_alive_def get_receive_buffer_def
  by (intro emits_rules emits_jni emits_tcp_writers case_list_rules) simp_all

lemma frame_monitor: "frame store (monitor_tcp_session args s)"
  unfolding monitor_tcp_session_def tcp_events_def tcp_keep_alive_def get_receive_buffer_def
  by (intro frame_rules case_list_rules) simp_all

abbreviation owner :: "'a ng_session \<Rightarrow> nat \<times> int" where
  "owner s \<equiv> (s_addr s, s_socket s)"

lemma count_sessions_wp:
  assumes "list_all session_ok ss"
  shows "wp (count_sessions args ss) (\<lambda>(ss', n, r) w'. list_all session_ok ss' \<and> map owner ss' = map owner ss \<and>
    store w' = store w \<and> closed_fds (w_trace w') = closed_fds (w_trace w)) w"
  using assms
proof (induction ss arbitrary: w)
  case (Cons s ss)
  let ?Q = "\<lambda>(ss', n, r) w'. list_all session_ok ss' \<and> map owner ss' = map owner (s # ss) \<and>
    store w' = store w \<and> closed_fds (w_trace w') = closed_fds (w_trace w)"
  have rest: "wp (do { (ss, n, r) \<leftarrow> count_sessions args ss;
       State_Monad.return (s' # ss, (if counts s then 1 else 0) + n, recheck \<or> r) }) ?Q w'"
    if "session_ok s'" "owner s' = owner s" "store w' = store w" "closed_fds (w_trace w') = closed_fds (w_trace w)"
    for s' recheck w'
    using Cons.prems that
    by (simp add: case_prod_beta') (rule wp_mono [OF Cons.IH]; auto)
  show ?case
  proof (cases "s_body s")
    case (TCP t)
    show ?thesis
    proof (cases "0 \<le> s_socket s")
      case True
      have inv: "tcp_inv (with_body s t)" using Cons.prems TCP by (simp add: session_ok_def)
      have "wp (monitor_tcp_session args (with_body s t))
          (\<lambda>(s', r). wp (do { (ss, n, r) \<leftarrow> count_sessions args ss;
             State_Monad.return (with_body s' (TCP (s_body s')) # ss, (if counts s then 1 else 0) + n, recheck \<or> r) }) ?Q) w"
        for recheck
      proof (rule wp_known [OF emits_monitor frame_monitor returns_monitor_tcp_session [OF inv]], goal_cases)
        case (2 p w' es)
        then show ?case
          by (cases p, simp only: prod.case, intro rest)
            (auto simp: session_advances_def closed_fds_append closed_fds_none)
      qed (use True in simp)
      then show ?thesis using TCP True by (simp add: case_prod_beta')
    next
      case False
      then show ?thesis using TCP Cons.prems rest [of s] by (simp add: case_prod_beta')
    qed
  qed (use Cons.prems rest [of s] in \<open>simp_all add: case_prod_beta'\<close>)
qed simp

text \<open>A session after its check: in order unless it is deleted, and its descriptor accounted for.\<close>

definition checked :: "session \<Rightarrow> world \<Rightarrow> session \<Rightarrow> bool \<Rightarrow> world \<Rightarrow> bool" where
  "checked s w s' del w' \<longleftrightarrow> (\<not> del \<longrightarrow> session_ok s') \<and> (del \<longrightarrow> s_socket s' < 0) \<and> s_addr s' = s_addr s \<and>
     store w' = store w \<and> accounted w' [s'] = accounted w [s]"

lemma checkedI:
  assumes "\<not> del \<longrightarrow> session_ok s'" "del \<longrightarrow> s_socket s' = -1" "s_addr s' = s_addr s" "store w' = store w"
    and "closed_fds (w_trace w') = (if s_socket s' = s_socket s then [] else [s_socket s]) @ closed_fds (w_trace w)"
    and "s_socket s' = s_socket s \<or> s_socket s' = -1 \<and> 0 \<le> s_socket s"
  shows "checked s w s' del w'"
  using assms by (auto simp: checked_def accounted_def)

lemma check_udp_session_socket:
  "wp (check_udp_session args s n m)
     (\<lambda>(s', del) w'. store w' = store w \<and> (s_socket s' = s_socket s \<or> s_socket s' = -1)) w"
  by (simp add: check_udp_session_def Let_def)

lemma udp_inv_socket: "udp_inv s \<Longrightarrow> s_socket s \<noteq> -1 \<Longrightarrow> 0 \<le> s_socket s"
  by (cases "u_state (s_body s)") (simp_all add: udp_inv_def)

lemma tcp_inv_socket: "tcp_inv s \<Longrightarrow> s_socket s \<noteq> -1 \<Longrightarrow> 0 \<le> s_socket s"
  by (auto simp: tcp_inv_def tcp_ok_def)

lemma check_session_wp:
  assumes "session_ok s"
  shows "wp (check_session args n m now timeout s) (\<lambda>(s', del, t) w'. checked s w s' del w') w"
proof (cases "s_body s")
  case (ICMP u)
  with assms have inv: "icmp_inv (with_body s u)" by (simp add: session_ok_def)
  show ?thesis
    unfolding check_session_def ICMP
    by (simp add: Let_def case_prod_beta', rule wp_mono [OF check_icmp_session_wp])
      (use inv in \<open>auto intro!: checkedI simp: icmp_inv_def closed_fds_append split: if_splits\<close>)
next
  case (UDP u)
  with assms have inv: "udp_inv (with_body s u)" by (simp add: session_ok_def)
  note both = wp_conj [OF check_udp_session_wp [OF inv] check_udp_session_socket]
  show ?thesis
    unfolding check_session_def UDP
  proof (simp add: Let_def case_prod_beta', rule wp_mono [OF both], goal_cases)
    case (1 p w')
    then show ?case
      using udp_inv_socket [OF inv] by (intro checkedI) (auto simp: case_prod_beta')
  qed
next
  case (TCP t)
  with assms have inv: "tcp_inv (with_body s t)" by (simp add: session_ok_def)
  show ?thesis
    unfolding check_session_def TCP
  proof (simp add: Let_def case_prod_beta', rule wp_mono [OF check_tcp_session_wp [OF inv]], goal_cases)
    case (1 p w')
    then show ?case
      using tcp_inv_socket [OF inv]
      by (intro checkedI) (auto simp: case_prod_beta' session_advances_def closed_fds_append)
  qed
qed

lemma check_sessions_wp:
  assumes "list_all session_ok ss" "distinct (map s_addr ss)"
  shows "wp (check_sessions args n m now timeout ss) (\<lambda>(ss', t) w'. list_all session_ok ss' \<and>
    s_addr ` set ss' \<subseteq> s_addr ` set ss \<and> distinct (map s_addr ss') \<and> store w' = store w \<and>
    accounted w' ss' = accounted w ss) w"
  using assms
proof (induction ss arbitrary: timeout w)
  case (Cons s ss)
  let ?Q = "\<lambda>(ss', t) w'. list_all session_ok ss' \<and> s_addr ` set ss' \<subseteq> s_addr ` set (s # ss) \<and>
    distinct (map s_addr ss') \<and> store w' = store w \<and> accounted w' ss' = accounted w (s # ss)"
  have "wp (check_sessions args n m now t ss) (\<lambda>(ss', t). ?Q (if del then ss' else s' # ss', t)) w1"
    if c: "checked s w s' del w1" for s' del t w1
  proof (rule wp_mono [OF Cons.IH])
    fix p w2
    assume *: "(case p of (ss', t) \<Rightarrow> \<lambda>w'. list_all session_ok ss' \<and> s_addr ` set ss' \<subseteq> s_addr ` set ss \<and>
      distinct (map s_addr ss') \<and> store w' = store w1 \<and> accounted w' ss' = accounted w1 ss) w2"
    show "(case p of (ss', t) \<Rightarrow> ?Q (if del then ss' else s' # ss', t)) w2"
      using * c Cons.prems by (cases p) (auto simp: checked_def accounted_def)
  qed (use Cons.prems in auto)
  then show ?case
    by (simp add: case_prod_beta') (rule wp_mono [OF check_session_wp]; use Cons.prems in auto)
qed simp

lemma set_sessions_wp [simp]: "wp (set_sessions ss) Q = (\<lambda>w. Q () (w\<lparr>w_sessions := ss\<rparr>))"
  by (simp add: set_sessions_def)

lemma accounted_sessions [simp]: "accounted (w\<lparr>w_sessions := ss'\<rparr>) ss = accounted w ss"
  by (simp add: accounted_def)

lemma accounted_trace: "closed_fds tr = closed_fds (w_trace w) \<Longrightarrow> accounted (w\<lparr>w_sessions := ss', w_trace := tr\<rparr>) ss = accounted w ss"
  by (simp add: accounted_def)

text \<open>A store whose list is replaced by sessions in order, with addresses it had.\<close>

lemma world_ok_replace:
  assumes "world_ok ok w" "store w' = store w" "list_all session_ok ss" "distinct (map s_addr ss)"
    and "s_addr ` set ss \<subseteq> s_addr ` set (w_sessions w)"
  shows "world_ok session_ok (w'\<lparr>w_sessions := ss\<rparr>)"
proof -
  have "\<forall>a \<in> s_addr ` set ss. a < w_fresh w"
    using assms(1,5) by (fastforce simp: world_ok_def store_ok_def)
  then show ?thesis using assms(2-4) by (simp add: world_ok_def store_ok_def list_all_iff)
qed

lemma owner_eq:
  assumes "map owner ss' = map owner ss"
  shows "map s_addr ss' = map s_addr ss" "open_fds ss' = open_fds ss" "s_addr ` set ss' = s_addr ` set ss"
proof -
  have "map fst (map owner ss') = map fst (map owner ss)" "map snd (map owner ss') = map snd (map owner ss)"
    using assms by simp_all
  then show a: "map s_addr ss' = map s_addr ss" and "open_fds ss' = open_fds ss"
    by (simp_all add: comp_def open_fds_def)
  from a show "s_addr ` set ss' = s_addr ` set ss" by (metis list.set_map)
qed

lemma sweep_wp:
  assumes w: "world_ok session_ok w"
  shows "wp (sweep args maxsessions last_check) (\<lambda>_ w'. world_ok session_ok w' \<and>
    accounted w' (w_sessions w') = accounted w (w_sessions w)) w"
  unfolding sweep_def wp_bind wp_get
proof (rule wp_mono [OF count_sessions_wp], goal_cases)
  case (2 p w1)
  then obtain ss n r where p: "p = (ss, n, r)" and ss: "list_all session_ok ss" "map owner ss = map owner (w_sessions w)"
      "store w1 = store w" "closed_fds (w_trace w1) = closed_fds (w_trace w)"
    by (cases p) auto
  note o = owner_eq [OF ss(2)]
  have d: "distinct (map s_addr ss)" using w o(1) by (simp add: world_ok_def store_ok_def)
  have acc: "accounted w1 ss = accounted w (w_sessions w)" using ss(4) o(2) by (simp add: accounted_def)
  have same: "world_ok session_ok (w2\<lparr>w_sessions := ss\<rparr>)" if "store w2 = store w" for w2
    using world_ok_replace [OF w that ss(1) d] o(3) by simp
  have chk: "wp (check_sessions args n maxsessions now T ss) (\<lambda>p w'. world_ok session_ok (w'\<lparr>w_sessions := fst p\<rparr>) \<and>
      accounted w' (fst p) = accounted w (w_sessions w)) w2"
    if "store w2 = (ss, w_fresh w)" "closed_fds (w_trace w2) = closed_fds (w_trace w1)" for now T w2
  proof (rule wp_mono [OF check_sessions_wp [OF ss(1) d]])
    have "world_ok session_ok w2"
      by (rule world_ok_same [OF _ same [of "w2\<lparr>w_sessions := w_sessions w\<rparr>"]]) (use that in simp_all)
    note rep = world_ok_replace [OF this]
    show "world_ok session_ok (w'\<lparr>w_sessions := fst q\<rparr>) \<and> accounted w' (fst q) = accounted w (w_sessions w)"
      if "(case q of (ss', t) \<Rightarrow> \<lambda>w'. list_all session_ok ss' \<and> s_addr ` set ss' \<subseteq> s_addr ` set ss \<and>
         distinct (map s_addr ss') \<and> store w' = store w2 \<and> accounted w' ss' = accounted w2 ss) w'" for q w'
      using that rep [of w' "fst q"] \<open>store w2 = (ss, w_fresh w)\<close> acc
        \<open>closed_fds (w_trace w2) = closed_fds (w_trace w1)\<close>
      by (auto simp: case_prod_beta' accounted_def)
  qed
  have ok1: "world_ok session_ok (w1\<lparr>w_sessions := ss, w_trace := tr\<rparr>)" for tr
    by (rule world_ok_same [OF _ same [of w1]]) (use ss(3) in simp_all)
  show ?case
    unfolding p using ss(3) acc
    by (auto simp: get_ms_def Let_def case_prod_beta' ok1 accounted_trace intro!: chk)
qed (use w in \<open>simp add: world_ok_def list_all_iff\<close>)

section \<open>Sessions that are no longer allowed\<close>

definition session_flow :: "session \<Rightarrow> flow" where
  "session_flow s = (case s_body s of ICMP u \<Rightarrow> icmp_flow IPPROTO_ICMP u | UDP u \<Rightarrow> udp_flow IPPROTO_UDP u
     | TCP t \<Rightarrow> tcp_flow IPPROTO_TCP t)"

text \<open>The service allowed the session's flow for its owner, in a trace.\<close>

definition granted :: "session \<Rightarrow> event list \<Rightarrow> bool" where
  "granted s es \<longleftrightarrow> (\<exists>a. (Java_is_address_allowed (session_flow s) (body_uid (s_body s)), a) \<in> set es \<and> ret a \<noteq> 0)"

lemma granted_append [simp]: "granted s (es @ es') \<longleftrightarrow> granted s es \<or> granted s es'"
  by (auto simp: granted_def)

definition reviewed :: "arguments \<Rightarrow> session \<Rightarrow> session option \<Rightarrow> event list \<Rightarrow> bool" where
  "reviewed args s r es = (case r of None \<Rightarrow> s_socket s = -1
     | Some s' \<Rightarrow> session_ok s' \<and> owner s' = owner s \<and> (counts s' \<longrightarrow> a_observeOnly args \<or> granted s' es))"

lemma trace_none: "Q [] \<Longrightarrow> \<exists>es. w = w\<lparr>w_trace := es @ w_trace w\<rparr> \<and> Q es"
  by (rule exI [of _ "[]"]) simp

lemma trace_more: "Q (es @ [e]) \<Longrightarrow> \<exists>es'. w\<lparr>w_trace := es @ e # w_trace w\<rparr> = w\<lparr>w_trace := es' @ w_trace w\<rparr> \<and> Q es'"
  by (rule exI [of _ "es @ [e]"]) simp

lemmas trace_one = trace_more [of _ "[]", simplified]

lemmas reviewed_defs = reviewed_def counts_def granted_def session_flow_def body_uid_def session_ok_def

lemma wp_is_address_allowed [simp]:
  "wp (is_address_allowed args f uid) Q = (\<lambda>w. let c = Java_is_address_allowed f uid; a = a_os args (w_trace w) c
     in Q (ret a \<noteq> 0) (w\<lparr>w_trace := (c, a) # w_trace w\<rparr>))"
  by (simp add: is_address_allowed_def Let_def)

lemma check_allowed_session_wp:
  assumes "session_ok s"
  shows "wp (check_allowed_session args s) (\<lambda>r w'. \<exists>es. w' = w\<lparr>w_trace := es @ w_trace w\<rparr> \<and>
    closed_fds es = [] \<and> reviewed args s r es) w"
proof (cases "s_body s")
  case (ICMP u)
  then show ?thesis
    using assms
    by (simp add: check_allowed_session_def Let_def)
      (auto simp: reviewed_defs icmp_inv_def intro!: trace_none trace_one)
next
  case (UDP u)
  then show ?thesis
    using assms
    by (simp add: check_allowed_session_def Let_def)
      (auto simp: reviewed_defs udp_inv_def intro!: trace_none trace_one)
next
  case (TCP t)
  with assms have ok: "tcp_ok (s_socket s) t" by (simp add: session_ok_def tcp_inv_def)
  have "tcp_ok (s_socket s) (after_rst t)"
    using after_rst_advances [OF advances_refl [OF ok]] by (simp add: advances_def)
  then show ?thesis
    using assms TCP
    by (simp add: check_allowed_session_def Let_def)
      (auto simp: reviewed_defs tcp_inv_def closed_fds_append closed_fds_tun intro!: trace_none trace_one trace_more wp_write_rst)
qed

lemma check_allowed_list_wp:
  assumes "list_all session_ok ss" "distinct (map s_addr ss)"
  shows "wp (check_allowed_list args ss) (\<lambda>ss' w'. \<exists>es. w' = w\<lparr>w_trace := es @ w_trace w\<rparr> \<and> closed_fds es = [] \<and>
    list_all session_ok ss' \<and> s_addr ` set ss' \<subseteq> s_addr ` set ss \<and> distinct (map s_addr ss') \<and>
    open_fds ss' = open_fds ss \<and> (\<forall>s \<in> set ss'. counts s \<longrightarrow> a_observeOnly args \<or> granted s es)) w"
  using assms
proof (induction ss arbitrary: w)
  case Nil
  show ?case by (simp add: exI [of _ "[]"])
next
  case (Cons s ss)
  let ?Q = "\<lambda>ss' w'. \<exists>es. w' = w\<lparr>w_trace := es @ w_trace w\<rparr> \<and> closed_fds es = [] \<and>
    list_all session_ok ss' \<and> s_addr ` set ss' \<subseteq> s_addr ` set (s # ss) \<and> distinct (map s_addr ss') \<and>
    open_fds ss' = open_fds (s # ss) \<and> (\<forall>s \<in> set ss'. counts s \<longrightarrow> a_observeOnly args \<or> granted s es)"
  have rest: "wp (check_allowed_list args ss) (\<lambda>ss'. ?Q (case r of None \<Rightarrow> ss' | Some s' \<Rightarrow> s' # ss'))
      (w\<lparr>w_trace := es @ w_trace w\<rparr>)"
    if "closed_fds es = []" "reviewed args s r es" for r es
  proof (rule wp_mono [OF Cons.IH], goal_cases)
    case (3 ss' w')
    then obtain es' where w': "w' = w\<lparr>w_trace := es' @ es @ w_trace w\<rparr>" "closed_fds es' = []"
        "list_all session_ok ss'" "s_addr ` set ss' \<subseteq> s_addr ` set ss" "distinct (map s_addr ss')"
        "open_fds ss' = open_fds ss" "\<forall>s \<in> set ss'. counts s \<longrightarrow> a_observeOnly args \<or> granted s es'"
      by auto
    with that Cons.prems show ?case
      by (intro exI [of _ "es' @ es"], cases r) (auto simp: reviewed_def closed_fds_append)
  qed (use Cons.prems in simp_all)
  show ?case
    unfolding check_allowed_list.simps wp_bind wp_return
  proof (rule wp_mono [OF check_allowed_session_wp], goal_cases)
    case (2 r w1)
    then obtain es where "w1 = w\<lparr>w_trace := es @ w_trace w\<rparr>" "closed_fds es = []" "reviewed args s r es" by blast
    with rest [of es r] show ?case by simp
  qed (use Cons.prems in simp)
qed

lemma check_allowed_wp:
  assumes "world_ok session_ok w"
  shows "wp (check_allowed args) (\<lambda>_ w'. \<exists>es. w_trace w' = es @ w_trace w \<and> world_ok session_ok w' \<and>
    accounted w' (w_sessions w') = accounted w (w_sessions w) \<and>
    (\<forall>s \<in> set (w_sessions w'). counts s \<longrightarrow> a_observeOnly args \<or> granted s es)) w"
proof -
  have d: "list_all session_ok (w_sessions w)" "distinct (map s_addr (w_sessions w))"
    using assms by (simp_all add: world_ok_def store_ok_def list_all_iff)
  show ?thesis
    unfolding check_allowed_def
    by (simp, rule wp_mono [OF check_allowed_list_wp [OF d]])
      (auto simp: accounted_def closed_fds_append intro!: world_ok_replace [OF assms])
qed

section \<open>\<open>clear\<close>\<close>

lemma clear_list_wp:
  "wp (clear_list args ss) (\<lambda>_ w'. store w' = store w \<and> w_pipefds w' = w_pipefds w \<and>
     closed_fds (w_trace w') = rev (open_fds ss) @ closed_fds (w_trace w)) w"
proof (induction ss arbitrary: w)
  case (Cons s ss)
  show ?case by (simp add: Let_def) (auto intro!: wp_mono [OF Cons.IH])
qed simp

lemma clear_wp:
  "wp (clear args) (\<lambda>_ w'. w_sessions w' = [] \<and> w_fresh w' = w_fresh w \<and> w_pipefds w' = w_pipefds w \<and>
     closed_fds (w_trace w') = rev (open_fds (w_sessions w)) @ closed_fds (w_trace w)) w"
  unfolding clear_def by (simp, rule wp_mono [OF clear_list_wp]) auto

lemma jni_done_wp:
  "wp (jni_done args) (\<lambda>_ w'. w_sessions w' = [] \<and> w_uid_cache w' = [] \<and> closed_fds (w_trace w') =
     [snd (w_pipefds w), fst (w_pipefds w)] @ rev (open_fds (w_sessions w)) @ closed_fds (w_trace w)) w"
  unfolding jni_done_def wp_bind by (rule wp_mono [OF clear_wp]) (simp add: Let_def)

section \<open>The reachable states\<close>

text \<open>The events of a round's wait are as \<open>epoll_wait\<close> promises, after the sweep of the round.\<close>

definition kernel_ok :: "arguments \<Rightarrow> int \<Rightarrow> int \<Rightarrow> world \<Rightarrow> bool" where
  "kernel_ok args maxsessions last_check w =
     wp (sweep args maxsessions last_check) (\<lambda>(last_check, sessions, timeout, recheck) w.
       ready_ok w (epoll_events (a_os args (w_trace w)
         (Call_epoll_wait (if recheck then EPOLL_MIN_CHECK else timeout * 1000))))) w"

lemma events_round_keeps:
  assumes "world_ok session_ok w" "kernel_ok args maxsessions last_check w"
  shows "wp (events_round args maxsessions last_check) (\<lambda>_. world_ok session_ok) w"
proof -
  have "wp (handle_ready args n m es) (\<lambda>_. world_ok session_ok) (w'\<lparr>w_trace := tr\<rparr>)"
    if "world_ok session_ok w'" "ready_ok w' es" for w' tr n m es
    using that world_ok_same [of "w'\<lparr>w_trace := tr\<rparr>" w'] sockets_same [of "w'\<lparr>w_trace := tr\<rparr>" w']
    by (intro handle_ready_keeps) (simp_all add: ready_ok_def)
  moreover have "world_ok session_ok (w'\<lparr>w_trace := tr\<rparr>)" if "world_ok session_ok w'" for w' tr
    using that by (rule world_ok_same [rotated]) simp
  ultimately show ?thesis
    unfolding events_round_def wp_bind
    using wp_conj [OF sweep_wp [OF assms(1)] assms(2) [unfolded kernel_ok_def]]
    by (auto elim!: wp_mono simp: Let_def report_exit_def)
qed

text \<open>
  The states of the engine: the entry points of \<open>netguard.c\<close>, the steps before the loop and
  the rounds of the loop, in any order, from an engine without sessions.
\<close>

inductive engine :: "world \<Rightarrow> bool" where
  created: "run_state (jni_init args sdk) w = (x, w') \<Longrightarrow> engine w'"
| started: "engine w \<Longrightarrow> run_state (jni_start level) w = (x, w') \<Longrightarrow> engine w'"
| configured: "engine w \<Longrightarrow> run_state (jni_socks5 addr port username password) w = (x, w') \<Longrightarrow> engine w'"
| called: "engine w \<Longrightarrow> run_state (syscall args c) w = (a, w') \<Longrightarrow> engine w'"
| failed: "engine w \<Longrightarrow> run_state (exit_unless args b) w = (x, w') \<Longrightarrow> engine w'"
| reviewed: "engine w \<Longrightarrow> run_state (check_allowed args) w = (x, w') \<Longrightarrow> engine w'"
| round: "engine w \<Longrightarrow> kernel_ok args maxsessions last_check w \<Longrightarrow>
    run_state (events_round args maxsessions last_check) w = (r, w') \<Longrightarrow> engine w'"
| stopped: "engine w \<Longrightarrow> run_state (jni_stop args) w = (x, w') \<Longrightarrow> engine w'"
| cleared: "engine w \<Longrightarrow> run_state (jni_clear args) w = (x, w') \<Longrightarrow> engine w'"

lemma run_wp: "wp m Q w \<Longrightarrow> run_state m w = (a, w') \<Longrightarrow> Q a w'"
  by (simp add: wp_def)

lemma run_frame:
  assumes "frame store m" "run_state m w = (a, w')" "world_ok session_ok w"
  shows "world_ok session_ok w'"
  using world_ok_same [OF _ assms(3)] frameD [OF assms(1,2)] by simp

lemma frame_controls:
  "frame store (jni_start level)" "frame store (jni_socks5 addr port username password)"
  "frame store (exit_unless args b)" "frame store (jni_stop args)" "frame store (syscall args c)"
  unfolding jni_start_def jni_socks5_def exit_unless_def jni_stop_def
  by (intro frame_rules; simp)+

lemmas run_controls = frame_controls [THEN run_frame]

text \<open>A new engine has no sessions, and its pipe is the one the kernel made or the zeros.\<close>

lemma jni_init_wp: "wp (jni_init args sdk) (\<lambda>_ w'. w_sessions w' = [] \<and> w_pipefds w' =
    (let a = a_os args (w_trace w) Call_pipe in
     if ret a = 0 then (sint (get32 (bytes a) 0), sint (get32 (bytes a) 4)) else (0, 0))) w"
  by (simp add: jni_init_def set_nonblock_def Let_def)

lemma engine_invariant: "engine w \<Longrightarrow> world_ok session_ok w"
proof (induction rule: engine.induct)
  case (created args sdk w x w')
  then show ?case using run_wp [OF jni_init_wp] by (auto simp: world_ok_def store_ok_def)
next
  case (reviewed w args x w')
  then show ?case using run_wp [OF check_allowed_wp] by blast
next
  case (round w args maxsessions last_check r w')
  then show ?case using run_wp [OF events_round_keeps] by blast
next
  case (cleared w args x w')
  then show ?case using run_wp [OF clear_wp] by (auto simp: jni_clear_def world_ok_def store_ok_def)
qed (blast intro: run_controls)+

section \<open>Statistics and destruction\<close>

text \<open>The service is shown the number of sessions that the engine counts against its limit.\<close>

theorem stats_agree_with_limit:
  "wp (count_sessions args ss) (\<lambda>(ss', n, r) w'. (case session_stats ss of (i, u, t) \<Rightarrow> n = i + u + t)) w"
proof (induction ss arbitrary: w)
  case (Cons s ss)
  have rest: "wp (count_sessions args ss) (\<lambda>x w'. Q x) w'"
    if "\<And>ss' n r. (case session_stats ss of (i, u, t) \<Rightarrow> n = i + u + t) \<Longrightarrow> Q (ss', n, r)" for Q w'
    by (rule wp_mono [OF Cons.IH]) (use that in auto)
  show ?case
    by (auto simp: case_prod_beta' counts_def wp_run [of "monitor_tcp_session args _"]
        split: session_body.splits intro!: rest)
qed simp

text \<open>
  When the pipe of a new engine cannot be created, its destruction closes descriptor 0, which
  it does not own, and closes it twice.
\<close>

theorem done_without_pipe:
  assumes "run_state (jni_init args sdk) w = (x, w1)" "ret (a_os args (w_trace w) Call_pipe) \<noteq> 0"
    and "run_state (jni_done args) w1 = (y, w2)"
  shows "closed_fds (w_trace w2) = [0, 0] @ closed_fds (w_trace w1)"
  using run_wp [OF jni_init_wp assms(1)] run_wp [OF jni_done_wp assms(3)] assms(2) by simp

text \<open>
  On the old systems where a socket is protected one by one, a refusal loses the socket that
  was just opened: it is neither closed nor stored.
\<close>

theorem refused_socket_is_lost:
  assumes "run_state (open_udp_socket args u) w = (r, w')" "w_sdk w < 21"
    and "\<And>tr b p. 0 \<le> ret (a_os args tr (Call_socket b p))" "\<And>tr fd. ret (a_os args tr (Java_protect fd)) = 0"
  shows "r = -1 \<and> closed_fds (w_trace w') = closed_fds (w_trace w) \<and> w_sessions w' = w_sessions w"
proof -
  have "wp (open_udp_socket args u) (\<lambda>r w'. r = -1 \<and> closed_fds (w_trace w') = closed_fds (w_trace w) \<and>
      w_sessions w' = w_sessions w) w"
    using assms(2-4) by (simp add: open_udp_socket_def protect_socket_def Let_def not_less)
  from run_wp [OF this assms(1)] show ?thesis .
qed

section \<open>Claims\<close>

text \<open>
  C1: in every state the engine can reach, whatever packets, answers of the kernel and
  decisions of the service led to it, the addresses of the stored sessions are unique and each
  session satisfies the invariant of its protocol: one that can exchange data owns an open
  socket, one that is closed or blocked owns none.
\<close>

theorem engine_reachable_ok:
  assumes "engine w"
  shows "distinct (map s_addr (w_sessions w)) \<and> (\<forall>s \<in> set (w_sessions w). session_ok s)"
  using engine_invariant [OF assms] by (simp add: world_ok_def store_ok_def)

definition tun_os :: os where
  "tun_os tr c = (case c of
      Call_get_ms \<Rightarrow> \<lparr>ret = 5000, errno = 0, out = 0, bytes = []\<rparr>
    | Call_epoll_wait _ \<Rightarrow> \<lparr>ret = 1, errno = 0, out = 0, bytes = [1, 0, 0, 0, 0, 0, 0, 0, 0, 0, 0, 0]\<rparr>
    | Call_poll _ _ \<Rightarrow> \<lparr>ret = 1, errno = 0, out = 1, bytes = []\<rparr>
    | Call_tun_read _ \<Rightarrow> \<lparr>ret = 40, errno = 0, out = 0, bytes = echo_packet\<rparr>
    | Call_socket _ _ \<Rightarrow> \<lparr>ret = 7, errno = 0, out = 0, bytes = []\<rparr>
    | Java_is_address_allowed _ _ \<Rightarrow> \<lparr>ret = 1, errno = 0, out = 0, bytes = []\<rparr>
    | _ \<Rightarrow> \<lparr>ret = 0, errno = 0, out = 0, bytes = []\<rparr>)"

definition tun_args :: arguments where
  "tun_args = \<lparr>a_os = tun_os, a_tun = 3, a_logTraffic = False, a_observeOnly = False\<rparr>"

text \<open>The first round of an engine just created.\<close>

definition new_world :: world where
  "new_world = snd (run_state (jni_init tun_args 33) empty_world)"

lemma tun_kernel_ok: "w_sessions w = [] \<Longrightarrow> kernel_ok tun_args 409 0 w"
  by (simp add: kernel_ok_def sweep_def get_ms_def Let_def tun_args_def tun_os_def ready_ok_def
      epoll_events_def source_of_def get32_def get8_def le32_def)

theorem engine_reachable_ok_witness:
  "\<exists>w. w = snd (run_state (events_round tun_args 409 0) new_world) \<and>
     distinct (map s_addr (w_sessions w)) \<and> list_all session_ok (w_sessions w)"
proof -
  have "engine new_world" by (rule engine.created [of tun_args 33 empty_world "()"]) (simp add: new_world_def prod_eq_iff)
  moreover have "w_sessions new_world = []"
    using jni_init_wp [of tun_args 33 empty_world] by (simp add: new_world_def wp_run)
  ultimately have "engine (snd (run_state (events_round tun_args 409 0) new_world))"
    using tun_kernel_ok engine.round by (metis prod.collapse)
  from engine_reachable_ok [OF this] show ?thesis by (simp add: list_all_iff)
qed

text \<open>
  Descriptors are neither leaked nor closed twice by what goes over all sessions: the
  sweep of a round and the review of a restart leave the sum of the descriptors closed so far
  and those the sessions own as it was, and \<open>clear\<close> closes each of them once and frees all
  sessions. The destruction of the engine closes them and the two descriptors of its pipe.
\<close>

theorem descriptors_accounted:
  assumes "world_ok session_ok w"
    and "run_state (sweep args maxsessions last_check) w = (r, w1)"
    and "run_state (check_allowed args) w = (x, w2)" "run_state (clear args) w = (y, w3)"
    and "run_state (jni_done args) w = (z, w4)"
  shows "accounted w1 (w_sessions w1) = accounted w (w_sessions w) \<and>
    accounted w2 (w_sessions w2) = accounted w (w_sessions w) \<and> w_sessions w3 = [] \<and>
    closed_fds (w_trace w3) = rev (open_fds (w_sessions w)) @ closed_fds (w_trace w) \<and> w_sessions w4 = [] \<and>
    closed_fds (w_trace w4) = [snd (w_pipefds w), fst (w_pipefds w)] @ closed_fds (w_trace w3)"
  using run_wp [OF sweep_wp [OF assms(1)] assms(2)] run_wp [OF check_allowed_wp [OF assms(1)] assms(3)]
    run_wp [OF clear_wp assms(4)] run_wp [OF jni_done_wp assms(5)] by auto

definition busy_world :: world where
  "busy_world = empty_world\<lparr>w_sessions := [with_body web_socket (TCP web_session), with_body dns_socket (UDP dns_session)],
     w_fresh := 2\<rparr>"

lemma busy_world_ok: "world_ok session_ok busy_world"
  using web_socket_inv dns_socket_inv
  by (simp add: busy_world_def world_ok_def store_ok_def empty_world_def)
    (simp add: web_socket_def dns_socket_def with_body_def)

theorem descriptors_accounted_witness:
  "\<exists>w1 w3. w1 = snd (run_state (sweep idle_args 409 0) busy_world) \<and>
     accounted w1 (w_sessions w1) = {#8, 7#} \<and>
     w3 = snd (run_state (clear idle_args) busy_world) \<and> closed_fds (w_trace w3) = [7, 8] \<and>
     closed_fds (w_trace (snd (run_state (jni_done idle_args) busy_world))) = [6, 5, 7, 8]"
proof -
  obtain r w1 x w2 y w3 z w4 where runs: "run_state (sweep idle_args 409 0) busy_world = (r, w1)"
      "run_state (check_allowed idle_args) busy_world = (x, w2)" "run_state (clear idle_args) busy_world = (y, w3)"
      "run_state (jni_done idle_args) busy_world = (z, w4)"
    by (metis prod.exhaust)
  have "accounted busy_world (w_sessions busy_world) = {#8, 7#}" "open_fds (w_sessions busy_world) = [8, 7]"
      "closed_fds (w_trace busy_world) = []" "w_pipefds busy_world = (5, 6)"
    by (simp_all add: busy_world_def accounted_def empty_world_def web_socket_def dns_socket_def)
  with descriptors_accounted [OF busy_world_ok runs] runs show ?thesis by auto
qed

text \<open>
  C12: after the review of a restart every session that still counts as open was allowed by
  the service during the review, for its flow and its owner (unless the engine only
  observes); the others are stopped, finishing, closing or removed.
\<close>

theorem check_allowed_enforces:
  assumes "world_ok session_ok w" "run_state (check_allowed args) w = (x, w')" "\<not> a_observeOnly args"
  shows "\<exists>es. w_trace w' = es @ w_trace w \<and> (\<forall>s \<in> set (w_sessions w'). counts s \<longrightarrow> granted s es)"
  using run_wp [OF check_allowed_wp [OF assms(1)] assms(2)] assms(3) by auto

theorem check_allowed_enforces_witness:
  "\<exists>w' es. w' = snd (run_state (check_allowed idle_args) busy_world) \<and> w_trace w' = es @ w_trace busy_world \<and>
     list_all (\<lambda>s. \<not> counts s \<or> granted s es) (w_sessions w')"
proof -
  obtain x w' where run: "run_state (check_allowed idle_args) busy_world = (x, w')" by (metis prod.exhaust)
  have "\<not> a_observeOnly idle_args" by (simp add: idle_args_def)
  from check_allowed_enforces [OF busy_world_ok run this] run show ?thesis
    by (auto simp: list_all_iff)
qed

end
