(* ===== verification/Account.thy ===== *)
theory Account
  imports Engine Ip_Policy
begin

text \<open>
  The books of the descriptors over whole runs of the engine: what its sessions own and what
  it has closed, against what it has opened.
\<close>

section \<open>Opened, owned and closed\<close>

fun opened_fds :: "event list \<Rightarrow> int list" where
  "opened_fds [] = []"
| "opened_fds ((Call_socket v p, a) # es) = (if 0 \<le> ret a then ret a # opened_fds es else opened_fds es)"
| "opened_fds (e # es) = opened_fds es"

lemma opened_fds_append: "opened_fds (es @ es') = opened_fds es @ opened_fds es'"
  by (induction es rule: opened_fds.induct) auto

definition opened :: "world \<Rightarrow> int multiset" where
  "opened w = mset (opened_fds (w_trace w))"

definition ledger :: "world \<Rightarrow> int multiset" where
  "ledger w = accounted w (w_sessions w)"

text \<open>
  From \<open>z\<close> to \<open>w\<close> the books are kept: what was owned is owned or closed, and what is owned or
  closed in addition was opened in between, each opening used at most once.
\<close>

definition books :: "world \<Rightarrow> world \<Rightarrow> bool" where
  "books z w \<longleftrightarrow> ledger z \<subseteq># ledger w \<and> ledger w + opened z \<subseteq># ledger z + opened w \<and> opened z \<subseteq># opened w"

lemma books_refl [simp]: "books w w"
  by (simp add: books_def)

lemma books_trans:
  assumes "books z w" "books w v"
  shows "books z v"
proof -
  have "ledger v + opened w \<subseteq># ledger w + opened v" "ledger w + opened z \<subseteq># ledger z + opened w"
    using assms by (simp_all add: books_def)
  from subset_mset.add_mono [OF this] have "ledger v + opened z \<subseteq># ledger z + opened v"
    by (simp add: ac_simps)
  then show ?thesis using assms by (auto simp: books_def)
qed

lemma books_quiet:
  assumes "w_sessions w' = w_sessions w" "w_trace w' = es @ w_trace w" "\<forall>e \<in> set es. \<not> closes (fst e)"
  shows "books w w'"
  using assms by (simp add: books_def ledger_def accounted_def opened_def closed_fds_append closed_fds_none opened_fds_append)

lemma books_equal:
  assumes "ledger w' = ledger w" "w_trace w' = es @ w_trace w"
  shows "books w w'"
  using assms by (simp add: books_def opened_def opened_fds_append)

lemma store_ok_same: "store w' = store w \<Longrightarrow> store_ok w \<Longrightarrow> store_ok w'"
  by (simp add: store_ok_def)

text \<open>A session that is stored again with the socket it had.\<close>

lemma open_fds_put:
  assumes "distinct (map s_addr ss)" "owner s \<in> owner ` set ss"
  shows "open_fds (put_list s ss) = open_fds ss"
  by (rule owner_eq(2) [OF sockets_put_list [OF assms]])

lemma books_put:
  assumes "store_ok w" "owner s \<in> sockets w"
  shows "books w (w\<lparr>w_sessions := put_list s (w_sessions w)\<rparr>)"
  using assms open_fds_put [of "w_sessions w" s]
  by (intro books_equal [where es = "[]"]) (simp_all add: ledger_def accounted_def store_ok_def sockets_def)

text \<open>A session that is stored with a socket just opened, or with none.\<close>

definition gains :: "int list \<Rightarrow> world \<Rightarrow> world \<Rightarrow> bool" where
  "gains fds w w' \<longleftrightarrow> closed_fds (w_trace w') = closed_fds (w_trace w) \<and> opened w + mset fds \<subseteq># opened w'"

lemma books_gain:
  assumes "gains fds w w'" "open_fds (w_sessions w') = open_fds (w_sessions w) \<or> open_fds (w_sessions w') = fds @ open_fds (w_sessions w)"
  shows "books w w'"
proof -
  have "opened w \<subseteq># opened w'" "mset fds + opened w \<subseteq># opened w'"
    using assms(1) by (auto simp: gains_def ac_simps intro: subset_mset.order_trans [rotated])
  then show ?thesis
    using assms by (auto simp: books_def ledger_def accounted_def gains_def ac_simps)
qed

section \<open>A packet\<close>

text \<open>The calls of the other parts close nothing.\<close>

abbreviation harmless :: "'a prog \<Rightarrow> bool" where
  "harmless \<equiv> emits (\<lambda>c. \<not> closes c)"

lemma opens_then:
  assumes "\<And>a. harmless (f a)" "\<And>a. frame store (f a)" "\<And>a. returns (\<lambda>r. r = -1 \<or> r = ret a) (f a)"
  shows "wp (do { a \<leftarrow> syscall args (Call_socket v p); f a })
    (\<lambda>r w'. store w' = store w \<and> gains (if 0 \<le> r then [r] else []) w w') w"
proof -
  let ?a = "a_os args (w_trace w) (Call_socket v p)"
  have "wp (f ?a) (\<lambda>r w'. store w' = store w \<and> gains (if 0 \<le> r then [r] else []) w w')
      (w\<lparr>w_trace := (Call_socket v p, ?a) # w_trace w\<rparr>)"
    by (rule wp_known [OF assms(1,2,3)])
      (auto simp: gains_def opened_def closed_fds_append closed_fds_none opened_fds_append)
  then show ?thesis by simp
qed

lemma wp_get_then: "wp (do { x \<leftarrow> State_Monad.get; f x }) Q w = wp (f w) Q w"
  by simp

lemma opens:
  "wp (open_icmp_socket args i) (\<lambda>r w'. store w' = store w \<and> gains (if 0 \<le> r then [r] else []) w w') w"
  "wp (open_udp_socket args u) (\<lambda>r w'. store w' = store w \<and> gains (if 0 \<le> r then [r] else []) w w') w"
  "wp (open_tcp_socket args t) (\<lambda>r w'. store w' = store w \<and> gains (if 0 \<le> r then [r] else []) w w') w"
  unfolding open_icmp_socket_def open_udp_socket_def open_tcp_socket_def Let_def wp_get_then
  by (rule opens_then; intro emits_rules emits_jni frame_rules returns_rules; simp)+

lemma wp_books_quiet:
  assumes "harmless m" "frame store m" "returns R m" "\<And>a w'. R a \<Longrightarrow> store w' = store w \<Longrightarrow> books w w' \<Longrightarrow> Q a w'"
  shows "wp m Q w"
  by (rule wp_known [OF assms(1,2,3)]) (auto intro!: assms(4) intro: books_quiet)

lemma harmless_parts:
  "harmless (udp_forward args c1 pkt len payload)" "harmless (icmp_forward args c2 pkt len payload)"
  "harmless (tcp_found args pkt len payload h uid allowed c3)" "harmless (tcp_unknown args pkt len payload h)"
  "harmless (get_receive_window args c4)"
  unfolding udp_forward_def check_dhcp_def write_udp_def icmp_forward_def tcp_found_def tcp_in_sequence_def tcp_other_ack_def
    tcp_unknown_def get_receive_window_def get_receive_buffer_def
  by (intro emits_rules emits_jni emits_tun_write emits_tcp_writers; simp)+

lemma returns_forward_owner:
  "returns (\<lambda>(c, r). owner c = owner c1) (udp_forward args c1 pkt len payload)"
  "returns (\<lambda>(c, r). owner c = owner c2) (icmp_forward args c2 pkt len payload)"
  unfolding udp_forward_def icmp_forward_def by (intro returns_rules; simp)+

text \<open>A packet for a session of the store.\<close>

lemma stored_books:
  assumes "store_ok w" "owner c \<in> sockets w" "harmless m" "frame store m" "returns (\<lambda>(c', r). owner c' = owner c) m"
    and "books z w"
  shows "wp m (\<lambda>p. wp (put_session (with_body (fst p) (f (fst p)))) (\<lambda>_. books z)) w"
proof (rule wp_books_quiet [OF assms(3,4,5)], goal_cases)
  case (1 p w')
  then obtain c' r where c': "p = (c', r)" "owner c' = owner c" by (cases p) auto
  have ok: "store_ok w'" using store_ok_same [OF 1(2) assms(1)] .
  have "owner (with_body c' (f c')) \<in> sockets w'"
    using assms(2) c'(2) 1(2) sockets_same [of w' w] by simp
  from books_trans [OF books_trans [OF assms(6) 1(3)] books_put [OF ok this]] show ?case by (simp add: c'(1))
qed

lemma books_same: "w_sessions w' = w_sessions w \<Longrightarrow> w_trace w' = w_trace w \<Longrightarrow> books w w'"
  by (simp add: books_def ledger_def accounted_def opened_def)

text \<open>A session that is entered in the store, with the socket opened for it.\<close>

lemma push_books:
  assumes "store_ok w" "store w' = (s # w_sessions w, w_fresh w + 1)" "s_addr s = w_fresh w"
    and "gains (if 0 \<le> s_socket s then [s_socket s] else []) w w'"
  shows "books w w' \<and> store_ok w' \<and> owner s \<in> sockets w'"
proof -
  have "books w w'" by (rule books_gain [OF assms(4)]) (use assms(2) in simp)
  then show ?thesis using assms(1-3) by (auto simp: store_ok_def sockets_def less_Suc_eq)
qed

lemma fresh_books:
  assumes "store_ok w" "store w' = (w_sessions w, w_fresh w + 1)" "gains fds w w'"
  shows "books w w' \<and> store_ok w'"
  using books_gain [OF assms(3)] assms(1,2) by (auto simp: store_ok_def less_Suc_eq)

definition entered :: "world \<Rightarrow> 'a ng_session option \<Rightarrow> world \<Rightarrow> bool" where
  "entered w r w' \<longleftrightarrow> books w w' \<and> store_ok w' \<and> (\<forall>s. r = Some s \<longrightarrow> owner s \<in> sockets w')"

lemma enteredI:
  assumes "store_ok w" "store w1 = (w_sessions w, w_fresh w + 1)" "gains (if 0 \<le> r then [r] else []) w w1"
  shows "entered w None w1"
    and "0 \<le> r \<Longrightarrow> owner s = (w_fresh w, r) \<Longrightarrow> owner c = owner s \<Longrightarrow> entered w (Some c)
      (w1\<lparr>w_trace := (Call_epoll_ctl op fd ev, a) # w_trace w1, w_sessions := s # w_sessions w\<rparr>)"
proof -
  show "entered w None w1" using fresh_books [OF assms] by (simp add: entered_def)
  let ?w = "w1\<lparr>w_trace := (Call_epoll_ctl op fd ev, a) # w_trace w1, w_sessions := s # w_sessions w\<rparr>"
  assume "0 \<le> r" "owner s = (w_fresh w, r)" "owner c = owner s"
  moreover have "gains [r] w ?w" if "0 \<le> r" using assms(3) that by (simp add: gains_def opened_def)
  ultimately show "entered w (Some c) ?w"
    using push_books [OF assms(1), of ?w s] assms(2) by (simp add: entered_def)
qed

lemma new_session_books:
  assumes "store_ok w"
  shows "wp (udp_new_session args pkt payload uid) (\<lambda>r w'. entered w r w') w"
    and "wp (icmp_new_session args pkt payload uid) (\<lambda>r w'. entered w r w') w"
proof -
  let ?w = "\<lambda>a. w\<lparr>w_fresh := w_fresh w + 1, w_trace := (Call_time, a) # w_trace w\<rparr>"
  have g: "gains fds w w'" if "gains fds (?w a) w'" for fds a w' using that by (simp add: gains_def opened_def)
  show "wp (udp_new_session args pkt payload uid) (\<lambda>r w'. entered w r w') w"
    unfolding udp_new_session_def Let_def wp_bind wp_fresh_addr wp_time
  proof (rule wp_mono [OF opens(2)], goal_cases)
    case (1 r w1)
    then have "store w1 = (w_sessions w, w_fresh w + 1)" "gains (if 0 \<le> r then [r] else []) w w1" using g by auto
    then show ?case by (auto simp: Let_def intro!: enteredI [OF assms])
  qed
  show "wp (icmp_new_session args pkt payload uid) (\<lambda>r w'. entered w r w') w"
    unfolding icmp_new_session_def Let_def wp_bind wp_fresh_addr wp_time
  proof (rule wp_mono [OF opens(1)], goal_cases)
    case (1 r w1)
    then have "store w1 = (w_sessions w, w_fresh w + 1)" "gains (if 0 \<le> r then [r] else []) w w1" using g by auto
    then show ?case by (auto simp: Let_def intro!: enteredI [OF assms])
  qed
qed

lemma found_slot: "find P (w_sessions w) = Some s \<Longrightarrow> owner s \<in> sockets w"
  using find_SomeD [of P "w_sessions w" s] by (auto simp: sockets_def)

lemma handle_udp_books:
  assumes "store_ok w"
  shows "wp (handle_udp args pkt len payload uid) (\<lambda>_. books w) w"
proof -
  have fwd: "wp (udp_forward args cur pkt len payload)
      (\<lambda>p. wp (put_session (with_body (fst p) (UDP (s_body (fst p))))) (\<lambda>_. books w)) w1"
    if "store_ok w1" "owner cur \<in> sockets w1" "books w w1" for cur w1
    by (rule stored_books [OF that(1,2) harmless_parts(1) frame_udp_forward returns_forward_owner(1) that(3)])
  define w0 where "w0 = w\<lparr>w_ub := (w_ub w \<or> length pkt < (if ip_version pkt = 4 then 20 else 40)) \<or>
    length pkt < payload + 8\<rparr>"
  have w0: "w_sessions w0 = w_sessions w" "store_ok w0" "books w w0" "sockets w0 = sockets w"
    using assms by (simp_all add: w0_def store_ok_def books_same sockets_def)
  show ?thesis
  proof (cases "find (udp_match pkt payload) (w_sessions w)")
    case None
    have "wp (udp_new_session args pkt payload uid)
      (\<lambda>cur. wp (case cur of None \<Rightarrow> State_Monad.return False
         | Some cur \<Rightarrow> do { (cur, r) \<leftarrow> udp_forward args cur pkt len payload;
             put_session (with_body cur (UDP (s_body cur))); State_Monad.return r }) (\<lambda>_. books w)) w0"
      by (rule wp_mono [OF new_session_books(1) [OF w0(2)]])
        (auto simp: entered_def case_prod_beta' split: option.split intro: books_trans [OF w0(3)]
          intro!: fwd [simplified])
    then show ?thesis using None w0 by (simp add: handle_udp_def touch_ip_def w0_def)
  next
    case (Some s)
    then obtain u where u: "s_body s = UDP u" by (rule udp_matchE)
    show ?thesis
      using Some u w0 found_slot [OF Some] fwd [of w0 "with_body s (if u_uid u = -1 \<and> uid > 0 then u\<lparr>u_uid := uid\<rparr> else u)"]
      by (auto simp: handle_udp_def touch_ip_def w0_def case_prod_beta')
  qed
qed

lemma handle_icmp_books:
  assumes "store_ok w"
  shows "wp (handle_icmp args pkt len payload uid) (\<lambda>_. books w) w"
proof -
  have fwd: "wp (icmp_forward args cur pkt len payload)
      (\<lambda>p. wp (put_session (with_body (fst p) (ICMP (s_body (fst p))))) (\<lambda>_. books w)) w1"
    if "store_ok w1" "owner cur \<in> sockets w1" "books w w1" for cur w1
    by (rule stored_books [OF that(1,2) harmless_parts(2) frame_icmp_forward returns_forward_owner(2) that(3)])
  define w0 where "w0 = w\<lparr>w_ub := (w_ub w \<or> length pkt < (if ip_version pkt = 4 then 20 else 40)) \<or>
    length pkt < payload + 8\<rparr>"
  have w0: "w_sessions w0 = w_sessions w" "store_ok w0" "books w w0" "sockets w0 = sockets w"
    using assms by (simp_all add: w0_def store_ok_def books_same sockets_def)
  show ?thesis
  proof (cases "find (icmp_match pkt) (w_sessions w)")
    case None
    have "wp (icmp_new_session args pkt payload uid)
      (\<lambda>cur. wp (case cur of None \<Rightarrow> State_Monad.return False
         | Some cur \<Rightarrow> do { (cur, r) \<leftarrow> icmp_forward args cur pkt len payload;
             put_session (with_body cur (ICMP (s_body cur))); State_Monad.return r }) (\<lambda>_. books w)) w0"
      by (rule wp_mono [OF new_session_books(2) [OF w0(2)]])
        (auto simp: entered_def case_prod_beta' split: option.split intro: books_trans [OF w0(3)]
          intro!: fwd [simplified])
    then show ?thesis using None w0 by (simp add: handle_icmp_def touch_ip_def w0_def)
  next
    case (Some s)
    then obtain u where u: "s_body s = ICMP u"
      using find_SomeD [OF Some] by (cases "s_body s") (auto simp: icmp_match_def)
    show ?thesis
      using Some u w0 found_slot [OF Some] fwd [of w0 "with_body s (if i_uid u = -1 \<and> uid > 0 then u\<lparr>i_uid := uid\<rparr> else u)"]
      by (auto simp: handle_icmp_def touch_ip_def w0_def case_prod_beta')
  qed
qed

lemma block_udp_books:
  assumes "store_ok w"
  shows "wp (block_udp args pkt payload uid) (\<lambda>_. books w) w"
  unfolding block_udp_def touch_ip_def
  by (auto simp: Let_def books_def ledger_def accounted_def opened_def)

text \<open>A TCP session that is entered, and reset at once when its flow is not allowed.\<close>

lemma gains_more:
  "gains fds w w2 \<Longrightarrow> w_trace w3 = es @ w_trace w2 \<Longrightarrow> \<forall>e \<in> set es. \<not> closes (fst e) \<Longrightarrow> gains fds w w3"
  by (simp add: gains_def opened_def closed_fds_append closed_fds_none opened_fds_append subset_mset.add_increasing)

lemma wp_gains:
  assumes "gains fds w w3" "harmless m" "frame store m" "\<And>a w'. gains fds w w' \<Longrightarrow> store w' = store w3 \<Longrightarrow> Q a w'"
  shows "wp m Q w3"
  by (rule wp_known [OF assms(2,3) returns_True]) (use assms(1,4) gains_more in blast)

lemma tcp_register_books:
  assumes "store_ok w" "store w1 = (w_sessions w, w_fresh w + 1)" "gains [] w w1"
  shows "wp (tcp_register args (w_fresh w) t allowed) (\<lambda>_. books w) w1"
  unfolding tcp_register_def Let_def wp_bind
proof (rule wp_mono [OF opens(3)], goal_cases)
  case (1 r w2)
  let ?s = "\<lparr>s_addr = w_fresh w, s_protocol = IPPROTO_TCP, s_body = t, s_socket = r, s_events = EPOLLOUT OR EPOLLERR\<rparr>"
  have w2: "store w2 = (w_sessions w, w_fresh w + 1)" "gains (if 0 \<le> r then [r] else []) w w2"
    using 1 assms(2,3) by (auto simp: gains_def intro: subset_mset.order_trans [rotated])
  have pushed: "books w w' \<and> store_ok w' \<and> (w_fresh w, r) \<in> sockets w'"
    if "0 \<le> r" "store w' = (with_body ?s (TCP t') # w_sessions w, w_fresh w + 1)" "gains [r] w w'" for t' w'
    using push_books [OF assms(1) that(2)] that(1,3) by simp
  have reset: "wp (write_rst args t') (\<lambda>t''. wp (put_session (with_body ?s (TCP t''))) (\<lambda>_. books w)) w'"
    if "books w w' \<and> store_ok w' \<and> (w_fresh w, r) \<in> sockets w'" for t' w'
  proof (rule wp_books_quiet [OF emits_tcp_writers(5) frame_tcp_writers(5) returns_True], goal_cases)
    case (3 t'' w'')
    then have "store_ok w''" "owner (with_body ?s (TCP t'')) \<in> sockets w''"
      using that sockets_same [of w'' w'] by (auto intro: store_ok_same)
    from books_put [OF this] show ?case using that 3 by (auto intro: books_trans)
  qed simp_all
  have entered: "wp (guarded (\<not> allowed) (do { t \<leftarrow> write_rst args t';
      put_session (with_body ?s (TCP t)) })) (\<lambda>_. books w) (w3\<lparr>w_sessions := with_body ?s (TCP t') # w_sessions w3\<rparr>)"
    if "0 \<le> r" "store w3 = store w2" "gains [r] w w3" for t' w3
  proof -
    let ?w = "w3\<lparr>w_sessions := with_body ?s (TCP t') # w_sessions w3\<rparr>"
    have "gains [r] w ?w" using that(3) by (simp add: gains_def opened_def)
    with that w2(1) have "books w ?w \<and> store_ok ?w \<and> (w_fresh w, r) \<in> sockets ?w" by (intro pushed) simp_all
    with reset [OF this] show ?thesis by (simp del: wp_put_session)
  qed
  have "wp (get_receive_window args ?s) (\<lambda>window. wp (do {
       _ \<leftarrow> get_local_port args r;
       _ \<leftarrow> syscall args (Call_epoll_ctl EPOLL_CTL_ADD r (s_events ?s));
       push_session (with_body ?s (TCP (t\<lparr>t_recv_window := window\<rparr>)));
       guarded (\<not> allowed) (do { t \<leftarrow> write_rst args (t\<lparr>t_recv_window := window\<rparr>);
          put_session (with_body ?s (TCP t)) });
       State_Monad.return True }) (\<lambda>_. books w)) w2" if r: "0 \<le> r"
    unfolding wp_bind
  proof (rule wp_known [OF harmless_parts(5) frame_get_receive_window [where g = store] returns_True], goal_cases)
    case (2 window w3 es3)
    have g: "gains [r] w w3" by (rule gains_more [OF _ 2(3,4)]) (use w2(2) r in simp)
    show ?case
    proof (rule wp_gains [OF g], goal_cases)
      case (3 a wa)
      show ?case
      proof (rule wp_gains [OF 3(1)], goal_cases)
        case (3 b wb)
        with \<open>store wa = store w3\<close> 2(2) show ?case
          unfolding wp_push_session wp_return by (intro entered r) auto
      qed ((intro emits_rules frame_rules)?; simp)+
    qed ((intro emits_jni frame_rules)?; simp)+
  qed simp
  with w2 fresh_books [OF assms(1) w2] show ?case by (auto simp: Let_def)
qed

lemma harmless_trace: "w_trace w' = es @ w_trace w \<Longrightarrow> \<forall>e \<in> set es. \<not> closes (fst e) \<Longrightarrow> gains [] w w'"
  by (simp add: gains_def opened_def closed_fds_append closed_fds_none opened_fds_append)

lemma handle_tcp_books:
  assumes "store_ok w"
  shows "wp (handle_tcp args pkt len payload uid allowed) (\<lambda>_. books w) w"
proof -
  have same: "books w w'" if "w_sessions w' = w_sessions w" "w_trace w' = w_trace w" for w' using books_same [OF that] .
  have new: "wp (tcp_new args pkt len payload h uid allowed) (\<lambda>_. books w) w'"
    if "store w' = store w" "w_trace w' = w_trace w" for h w'
  proof (cases "tcp_opts pkt (uint (tcp_optlen h)) (payload + 20) (get_default_mss (ip_version pkt)) 0")
    case None
    then show ?thesis using that by (auto simp: tcp_new_def intro: same)
  next
    case (Some p)
    have "wp (tcp_register args (w_fresh w) t allowed) (\<lambda>_. books w) w''"
      if "store w'' = (w_sessions w, w_fresh w + 1)" "w_trace w'' = (Call_rand, a) # (Call_time, b) # w_trace w" for t w'' a b
      by (rule tcp_register_books [OF assms that(1)])
        (rule harmless_trace [of _ "[(Call_rand, a), (Call_time, b)]"]; use that in simp)
    then show ?thesis unfolding tcp_new_def Some using that by (cases p) (auto simp: Let_def)
  qed
  have unknown: "wp (tcp_unknown args pkt len payload h) (\<lambda>_. books w) w'"
    if "store w' = store w" "w_trace w' = w_trace w" for h w'
    by (rule wp_books_quiet [OF harmless_parts(4) frame_tcp_unknown [where g = store] returns_True])
      (use that same [of w'] in \<open>auto intro: books_trans\<close>)
  have found: "wp (tcp_found args pkt len payload h uid allowed (with_body s t))
      (\<lambda>p. wp (put_session (with_body s (TCP (fst p)))) (\<lambda>_. books w)) w'"
    if "owner s \<in> sockets w" "store w' = store w" "w_trace w' = w_trace w" for s t h w'
  proof (rule wp_books_quiet [OF harmless_parts(3) frame_tcp_found [where g = store] returns_True], goal_cases)
    case (3 p w'')
    then have "store_ok w''" "owner (with_body s (TCP (fst p))) \<in> sockets w''"
      using that assms sockets_same [of w'' w] by (auto intro: store_ok_same)
    from books_put [OF this] same [of w'] that 3(3) show ?case by (auto intro: books_trans)
  qed simp_all
  show ?thesis
  proof (cases "find (tcp_match pkt payload) (w_sessions w)")
    case None
    then show ?thesis
      by (auto simp: handle_tcp_def touch_ip_def Let_def intro!: same new unknown)
  next
    case (Some s)
    then obtain t where t: "s_body s = TCP t"
      using find_SomeD [OF Some] by (cases "s_body s") (auto simp: tcp_match_def)
    show ?thesis
      using Some t found [OF found_slot [OF Some]]
      by (auto simp: handle_tcp_def touch_ip_def Let_def case_prod_beta' intro!: same)
  qed
qed

section \<open>A packet from the tun device\<close>

definition steady :: "world \<Rightarrow> world \<Rightarrow> bool" where
  "steady z w \<longleftrightarrow> evolves session_ok z w \<and> books z w"

lemma steady_store: "steady z w \<Longrightarrow> store_ok w"
  by (simp add: steady_def evolves_def world_ok_def)

lemma keeps_quiet:
  assumes "harmless m" "frame store m"
  shows "keeps (steady z) m"
proof (rule keeps_wp)
  fix w
  assume "steady z w"
  then show "wp m (\<lambda>_. steady z) w"
    by (intro wp_books_quiet [OF assms returns_True]) (auto simp: steady_def intro: books_trans evolves_same)
qed

lemma keeps_steady:
  assumes "keeps (evolves session_ok z) m" "\<And>w. store_ok w \<Longrightarrow> wp m (\<lambda>_. books w) w"
  shows "keeps (steady z) m"
proof (rule keeps_wp)
  fix w
  assume w: "steady z w"
  from w have "wp m (\<lambda>_. evolves session_ok z) w" using assms(1) by (simp add: steady_def wp_keeps)
  moreover have "wp m (\<lambda>_. books z) w"
    using assms(2) [OF steady_store [OF w]] w by (auto simp: steady_def elim!: wp_mono intro: books_trans)
  ultimately show "wp m (\<lambda>_. steady z) w" unfolding steady_def by (rule wp_conj)
qed

lemma steady_ip_dispatch:
  assumes "ip_version pkt \<in> {4, 6}"
  shows "keeps (steady z) (ip_dispatch args pkt len payload protocol uid allowed quic)"
proof -
  have k: "keeps (evolves session_ok z) (handle_icmp args pkt len payload uid)"
      "keeps (evolves session_ok z) (handle_udp args pkt len payload uid)"
      "keeps (evolves session_ok z) (block_udp args pkt payload uid)"
      "keeps (evolves session_ok z) (handle_tcp args pkt len payload uid b)" for b
    by (intro keeps_wp engine_udp.handle_udp_keeps engine_udp.block_udp_keeps engine_icmp.handle_icmp_keeps
        engine_tcp.handle_tcp_keeps assms; assumption)+
  show ?thesis
    unfolding ip_dispatch_def
    by (intro keeps_rules keeps_steady [OF k(1) handle_icmp_books] keeps_steady [OF k(2) handle_udp_books]
        keeps_steady [OF k(3) block_udp_books] keeps_steady [OF k(4) handle_tcp_books])
qed

lemma harmless_get_uid: "harmless (get_uid args version protocol saddr sport daddr dport)"
  unfolding get_uid_def get_uid_sub_def
  by (intro emits_rules emits_jni emits_if) (auto intro!: emits_rules split: sum.split)

lemma harmless_ip_parts:
  "harmless (ip_locate pkt len)" "harmless (ip_ports protocol pkt len payload)"
  "harmless (ip_limited pkt payload protocol syn sessions maxsessions)" "harmless (ip_owner args pkt payload f)"
  "harmless (ip_server_name args pkt len payload f uid)" "harmless (ip_policy args f uid name)"
  "harmless (log_traffic args f n uid al og)" "harmless (report_exit args)" "harmless (is_readable args fd)"
  "harmless (write_pcap_rec args b)"
  unfolding ip_locate_def ip_ports_def ip_limited_def has_udp_session_def ip_owner_def get_uid_from_session_def
    ip_server_name_def ip_policy_def
  by (intro emits_rules emits_jni harmless_get_uid emits_write_pcap_rec; simp)+

lemma steady_ip_parts:
  "keeps (steady z) (ip_locate pkt len)" "keeps (steady z) (ip_ports protocol pkt len payload)"
  "keeps (steady z) (ip_limited pkt payload protocol syn sessions maxsessions)" "keeps (steady z) (ip_owner args pkt payload f)"
  "keeps (steady z) (ip_server_name args pkt len payload f uid)" "keeps (steady z) (ip_policy args f uid name)"
  "keeps (steady z) (log_traffic args f n uid al og)" "keeps (steady z) (report_exit args)"
  "keeps (steady z) (is_readable args fd)" "keeps (steady z) (write_pcap_rec args b)"
  by (rule keeps_quiet; intro harmless_ip_parts frame_rules; simp)+

lemma steady_syscall: "\<not> closes c \<Longrightarrow> keeps (steady z) (syscall args c)"
  by (rule keeps_quiet; intro emits_rules frame_rules; simp)

lemma steady_update: "(\<And>w. store (f w) = store w) \<Longrightarrow> (\<And>w. w_trace (f w) = w_trace w) \<Longrightarrow> keeps (steady z) (State_Monad.update f)"
  by (rule keeps_quiet; intro emits_rules frame_rules; simp)

lemma steady_handle_ip: "keeps (steady z) (handle_ip args pkt len sessions maxsessions)"
  unfolding handle_ip_def
  by (rule keeps_bind_returns [OF steady_ip_parts(1) ip_locate_version])
    (intro keeps_rules steady_ip_dispatch steady_ip_parts; simp)

lemma steady_check_tun: "keeps (steady z) (check_tun args events sessions maxsessions)"
  unfolding check_tun_def
  by (intro keeps_return keeps_get keeps_bind keeps_if keeps_let keeps_guarded steady_handle_ip steady_ip_parts
      steady_syscall steady_update; simp)

lemma steady_tun_loop: "keeps (steady z) (tun_loop args events sessions maxsessions n)"
proof (induction n)
  case (Suc n)
  then show ?case
    unfolding tun_loop.simps
    by (intro keeps_return keeps_get keeps_bind keeps_if steady_check_tun steady_ip_parts)
qed (simp add: keeps_return)

section \<open>A socket event\<close>

text \<open>
  What a handler of socket events does with the descriptor of its session: it keeps it, or
  closes it and forgets it.
\<close>

definition settled :: "'a ng_session \<Rightarrow> world \<Rightarrow> 'b ng_session \<Rightarrow> world \<Rightarrow> bool" where
  "settled s w s' w' \<longleftrightarrow> s_addr s' = s_addr s \<and> (\<exists>es. w_trace w' = es @ w_trace w) \<and>
     (s_socket s' = s_socket s \<and> closed_fds (w_trace w') = closed_fds (w_trace w) \<or>
      s_socket s' = -1 \<and> closed_fds (w_trace w') = s_socket s # closed_fds (w_trace w))"

definition settles :: "'a ng_session \<Rightarrow> 'b ng_session prog \<Rightarrow> bool" where
  "settles s m \<longleftrightarrow> (\<forall>w. wp m (settled s w) w)"

lemma settles_after:
  assumes "harmless m" "\<And>a. settles s (f a)"
  shows "settles s (State_Monad.bind m f)"
  unfolding settles_def wp_bind
proof (rule allI, rule wp_known [where g = "\<lambda>_. ()", OF assms(1) _ returns_True])
  fix w w' :: world and a es
  assume tr: "w_trace w' = es @ w_trace w" "\<forall>e \<in> set es. \<not> closes (fst e)"
  show "wp (f a) (settled s w) w'"
    using assms(2) [of a, unfolded settles_def, rule_format, of w']
    by (rule wp_mono) (use tr in \<open>auto simp: settled_def closed_fds_append closed_fds_none\<close>)
qed (simp add: frame_def)

lemma settles_return: "owner s' = owner s \<Longrightarrow> settles s (State_Monad.return s')"
  by (simp add: settles_def settled_def)

lemma settles_same:
  assumes "owner s' = owner s" "settles s' m"
  shows "settles s m"
  unfolding settles_def
proof
  fix w
  show "wp m (settled s w) w"
    using assms(2) [unfolded settles_def, rule_format, of w]
    by (rule wp_mono) (use assms(1) in \<open>simp add: settled_def\<close>)
qed

lemma settles_close: "s_addr s' = s_addr s \<Longrightarrow> s_socket s' = -1 \<Longrightarrow>
    settles s (do { _ \<leftarrow> syscall args (Call_close (s_socket s)); State_Monad.return s' })"
  by (simp add: settles_def settled_def Let_def)

lemma settles_if: "settles s m \<Longrightarrow> settles s n \<Longrightarrow> settles s (if b then m else n)"
  by simp

lemma settles_harmless:
  assumes "harmless m" "returns (\<lambda>s'. owner s' = owner s) m"
  shows "settles s m"
  unfolding settles_def
  by (rule allI, rule wp_known [where g = "\<lambda>_. ()", OF assms(1) _ assms(2)])
    (auto simp: frame_def settled_def closed_fds_append closed_fds_none)

lemma harmless_sockets:
  "harmless (check_icmp_socket args s1 events)" "harmless (udp_loop args events s2 n)"
  "harmless (tcp_forward args fd k fwd t q)" "harmless (tcp_acknowledge args s3 fwd)"
  "harmless (tcp_received args s3 len data)" "harmless (socks5_receive args s3 events)"
  "harmless (socks5_advance args fd t)" "harmless (get_receive_buffer args fd)"
proof -
  have udp: "harmless (check_udp_socket args s events)" for s
    unfolding check_udp_socket_def udp_received_def write_udp_def
    by (intro emits_rules emits_jni emits_tun_write emits_process_dns emits_log_incoming; simp)
  show "harmless (udp_loop args events s2 n)"
  proof (induction n arbitrary: s2)
    case (Suc n)
    then show ?case unfolding udp_loop.simps by (intro emits_rules emits_jni udp; simp)
  qed (simp add: emits_return)
  show "harmless (tcp_forward args fd k fwd t q)"
  proof (induction q arbitrary: k fwd t)
    case (Cons seg q)
    then show ?case unfolding tcp_forward.simps by (intro emits_rules emits_tcp_writers; simp)
  qed (simp add: emits_return)
qed (unfold check_icmp_socket_def icmp_received_def write_icmp_def tcp_acknowledge_def tcp_received_def socks5_receive_def
    socks5_advance_def socks5_send_def get_receive_window_def get_receive_buffer_def,
    (intro emits_rules emits_jni emits_tun_write emits_tcp_writers emits_process_dns emits_log_incoming; simp)+)

lemma returns_same_slot:
  "returns (\<lambda>s'. owner s' = owner s1) (check_icmp_socket args s1 events)"
  "returns (\<lambda>s'. owner s' = owner s3) (tcp_received args s3 len data)"
  unfolding check_icmp_socket_def icmp_received_def tcp_received_def Let_def
  by (intro returns_rules; simp)+

lemma returns_udp_slot: "returns (\<lambda>s'. owner s' = owner s) (udp_loop args events s n)"
proof (induction n arbitrary: s)
  case (Suc n)
  have udp: "returns (\<lambda>s'. owner s' = owner s) (check_udp_socket args s events)"
    unfolding check_udp_socket_def udp_received_def Let_def by (intro returns_rules; simp)
  show ?case
    unfolding udp_loop.simps
    by (intro returns_bind [where m = State_Monad.get] returns_if returns_bind [where m = "is_readable _ _"]
        returns_bind_strong [OF udp] returns_mono [OF Suc] returns_return; simp)
qed (simp add: returns_return)

lemma settles_tcp_eof: "settles s (tcp_eof args s)"
  unfolding tcp_eof_def Let_def
  by (rule settles_after [OF _ settles_close]) ((intro emits_rules emits_tcp_writers)?; simp)+

lemma settles_tcp_read: "settles s (tcp_read args s events)"
  unfolding tcp_read_def Let_def
  by (intro settles_if settles_after settles_return settles_same [OF _ settles_tcp_eof]
      settles_same [OF _ settles_harmless [OF harmless_sockets(5) returns_same_slot(2)]]
      emits_rules emits_jni emits_tcp_writers; simp)

lemma settles_tcp: "settles s (check_tcp_socket args s events)"
  unfolding check_tcp_socket_def Let_def case_prod_beta'
  by (intro settles_if settles_after settles_return settles_same [OF _ settles_tcp_read] harmless_sockets
      emits_rules emits_jni emits_tcp_writers; simp)

text \<open>The session is stored again as the handler left it.\<close>

lemma open_fds_settled:
  assumes "distinct (map s_addr ss)" "s \<in> set ss" "s_addr s' = s_addr s"
  shows "mset (open_fds (put_list s' ss)) + mset (open_fds [s]) = mset (open_fds ss) + mset (open_fds [s'])"
proof -
  have cons: "put_list s' (t # ss) = (if s_addr t = s_addr s' then s' else t) # put_list s' ss" for t ss
    by (simp add: put_list_def)
  have other: "put_list s' ss = ss" if "s_addr s \<notin> s_addr ` set ss" for ss
    using that assms(3) by (auto simp: put_list_def image_iff intro!: map_idI)
  show ?thesis
    using assms by (induction ss) (auto simp: cons other)
qed

lemma books_settled:
  assumes "store_ok w" "s \<in> set (w_sessions w)" "0 \<le> s_socket s" "settled s w s' w'" "store w' = store w"
  shows "books w (w'\<lparr>w_sessions := put_list s' (w_sessions w')\<rparr>)"
proof -
  have fds: "mset (open_fds (put_list s' (w_sessions w))) + mset (open_fds [s]) = mset (open_fds (w_sessions w)) + mset (open_fds [s'])"
    using assms by (intro open_fds_settled) (simp_all add: store_ok_def settled_def)
  obtain es where es: "w_trace w' = es @ w_trace w" using assms(4) by (auto simp: settled_def)
  let ?w = "w'\<lparr>w_sessions := put_list s' (w_sessions w')\<rparr>"
  from assms(4) have "s_socket s' = s_socket s \<and> closed_fds (w_trace w') = closed_fds (w_trace w) \<or>
      s_socket s' = -1 \<and> closed_fds (w_trace w') = s_socket s # closed_fds (w_trace w)"
    by (simp add: settled_def)
  then have "ledger ?w = ledger w"
    using fds assms(3,5) by (auto simp: ledger_def accounted_def)
  then show ?thesis by (rule books_equal) (simp add: es)
qed

lemma frame_sockets:
  "frame store (check_icmp_socket args s1 events)" "frame store (udp_loop args events s2 n)"
  "frame store (check_tcp_socket args s3 events)"
proof -
  have udp: "frame store (check_udp_socket args s events)" for s
    unfolding check_udp_socket_def udp_received_def write_udp_def by (intro frame_rules; simp)
  show "frame store (udp_loop args events s2 n)"
  proof (induction n arbitrary: s2)
    case (Suc n)
    then show ?case unfolding udp_loop.simps by (intro frame_rules udp; simp)
  qed (simp add: frame_return)
qed (unfold check_icmp_socket_def icmp_received_def write_icmp_def, (intro frame_rules; simp)+)

lemma session_event_books:
  assumes "store_ok w" "s \<in> set (w_sessions w)" "0 \<le> s_socket s"
  shows "wp (session_event args s events) (\<lambda>_. books w) w"
proof -
  have put: "wp m (\<lambda>s'. wp (put_session (with_body s' (f s'))) (\<lambda>_. books w)) w"
    if m: "settles s m" "frame store m" for m :: "'b ng_session prog" and f
  proof -
    have "wp m (\<lambda>s' w'. settled s w s' w' \<and> store w' = store w) w"
      by (rule wp_conj [OF m(1) [unfolded settles_def, rule_format] wp_frame_returns [OF m(2) returns_True]])
    then show ?thesis
      by (rule wp_mono) (use books_settled [OF assms] in \<open>auto simp: settled_def\<close>)
  qed
  show ?thesis
  proof (cases "s_body s")
    case (ICMP u)
    show ?thesis
      unfolding session_event_def ICMP session_body.case wp_bind
      by (intro put settles_same [OF _ settles_harmless [OF harmless_sockets(1) returns_same_slot(1)]] frame_sockets; simp)
  next
    case (UDP u)
    show ?thesis
      unfolding session_event_def UDP session_body.case wp_bind
      by (intro put settles_same [OF _ settles_harmless [OF harmless_sockets(2) returns_udp_slot]] frame_sockets; simp)
  next
    case (TCP t)
    show ?thesis
      unfolding session_event_def TCP session_body.case wp_bind
      by (intro put settles_same [OF _ settles_tcp] frame_sockets; simp)
  qed
qed

section \<open>A round\<close>

lemma handle_ready_books:
  assumes "world_ok session_ok w" "ready_ok w es"
  shows "wp (handle_ready args n m es) (\<lambda>_. books w) w"
proof -
  have "wp (handle_ready args n m es) (\<lambda>_. books z) w" if "books z w" for z
    using assms that
  proof (induction es arbitrary: w)
    case (Cons e es)
    obtain src ev where e: "e = (src, ev)" by fastforce
    show ?case
    proof (cases src)
      case (Source_session a)
      then obtain sock where sock: "0 \<le> sock" "(a, sock) \<in> sockets w" using Cons.prems(2) e by (auto simp: ready_ok_def)
      obtain s where s: "find (\<lambda>s. s_addr s = a) (w_sessions w) = Some s" "s \<in> set (w_sessions w)" "s_addr s = a"
          "s_socket s = sock"
        using find_addr [OF Cons.prems(1) sock(2)] .
      have "ready_ok w' es" if "\<forall>b so. (b, so) \<in> sockets w \<and> b \<noteq> s_addr s \<longrightarrow> (b, so) \<in> sockets w'" for w'
        using Cons.prems(2) e Source_session that s(3) by (auto simp: ready_ok_def) metis
      moreover have "store_ok w" using Cons.prems(1) by (simp add: world_ok_def)
      ultimately show ?thesis
        using Cons s sock
        by (simp add: e Source_session, intro wp_mono [OF wp_conj [OF session_event_ok session_event_books]])
          (auto intro: books_trans)
    next
      case Source_tun
      have "ready_ok w' es" if "steady w w'" for w'
        using Cons.prems(2) that e Source_tun by (auto simp: ready_ok_def evolves_def steady_def)
      moreover have "steady w w" using Cons.prems(1) by (simp add: steady_def evolves_refl)
      ultimately show ?thesis
        using Cons
        by (simp add: e Source_tun, intro wp_mono [OF wp_keeps [OF steady_tun_loop]])
          (auto simp: steady_def dest: evolves_ok intro: books_trans)
    next
      case Source_pipe
      have "world_ok session_ok w'" "ready_ok w' es" if "store w' = store w" for w'
        using world_ok_same [OF that Cons.prems(1)] Cons.prems(2) that sockets_same [of w' w] e Source_pipe
        by (simp_all add: ready_ok_def)
      moreover have "books z (w\<lparr>w_trace := (Call_pipe_read, a) # w_trace w\<rparr>)" for a
        by (rule books_trans [OF Cons.prems(3) books_quiet [where es = "[(Call_pipe_read, a)]"]]) simp_all
      ultimately show ?thesis using Cons.IH by (simp add: e Source_pipe Let_def)
    qed
  qed simp
  then show ?thesis by simp
qed

lemma emits_checks:
  "emits (\<lambda>_. True) (check_session args n m now timeout s)" "emits (\<lambda>_. True) (check_allowed_session args s)"
  unfolding check_session_def check_icmp_session_def check_udp_session_def check_tcp_session_def
    check_allowed_session_def Let_def
  by (intro emits_rules emits_jni emits_tcp_writers; simp)+

lemma emits_sweep_parts:
  "emits (\<lambda>_. True) (count_sessions args ss)" "emits (\<lambda>_. True) (check_sessions args n m now timeout ss)"
  "emits (\<lambda>_. True) (check_allowed_list args ss)" "emits (\<lambda>_. True) (clear_list args ss)"
proof -
  show "emits (\<lambda>_. True) (count_sessions args ss)"
  proof (induction ss)
    case (Cons s ss)
    then show ?case unfolding count_sessions.simps by (intro emits_rules emits_mono [OF emits_monitor]) simp_all
  qed (simp add: emits_return)
  show "emits (\<lambda>_. True) (check_sessions args n m now timeout ss)"
  proof (induction ss arbitrary: timeout)
    case (Cons s ss)
    then show ?case unfolding check_sessions.simps by (intro emits_rules emits_checks)
  qed (simp add: emits_return)
  show "emits (\<lambda>_. True) (check_allowed_list args ss)" "emits (\<lambda>_. True) (clear_list args ss)"
  proof (induction ss)
    case (Cons s ss)
    case 1 with Cons show ?case unfolding check_allowed_list.simps by (intro emits_rules emits_checks)
    case 2 with Cons show ?case unfolding clear_list.simps by (intro emits_rules) simp_all
  qed (simp_all add: emits_return)
qed

lemma sweep_books:
  assumes "world_ok session_ok w"
  shows "wp (sweep args maxsessions last_check) (\<lambda>_ w'. world_ok session_ok w' \<and> books w w') w"
proof -
  have "emits (\<lambda>_. True) (sweep args maxsessions last_check)"
    unfolding sweep_def set_sessions_def by (intro emits_rules emits_jni emits_sweep_parts; simp)
  then have "wp (sweep args maxsessions last_check) (\<lambda>_ w'. \<exists>es. w_trace w' = es @ w_trace w) w"
    by (rule wp_emits) auto
  from wp_conj [OF sweep_wp [OF assms] this] show ?thesis
    by (rule wp_mono) (auto intro: books_equal simp: ledger_def)
qed

lemma events_round_books:
  assumes "world_ok session_ok w" "kernel_ok args maxsessions last_check w"
  shows "wp (events_round args maxsessions last_check) (\<lambda>_. books w) w"
proof -
  have quiet: "books w (w'\<lparr>w_trace := (Call_epoll_wait t, a) # w_trace w'\<rparr>)" if "books w w'" for w' t a
    by (rule books_trans [OF that books_quiet [where es = "[(Call_epoll_wait t, a)]"]]) simp_all
  have exits: "books w (w'\<lparr>w_trace := (Java_report_exit, b) # (Call_epoll_wait t, a) # w_trace w'\<rparr>)"
    if "books w w'" for w' t a b
    by (rule books_trans [OF that books_quiet [where es = "[(Java_report_exit, b), (Call_epoll_wait t, a)]"]]) simp_all
  have "wp (handle_ready args n m es) (\<lambda>_. books w) (w'\<lparr>w_trace := (Call_epoll_wait t, a) # w_trace w'\<rparr>)"
    if "world_ok session_ok w'" "ready_ok w' es" "books w w'" for w' t a n m es
  proof (rule wp_mono [OF handle_ready_books])
    let ?w = "w'\<lparr>w_trace := (Call_epoll_wait t, a) # w_trace w'\<rparr>"
    show "world_ok session_ok ?w" by (rule world_ok_same [OF _ that(1)]) simp
    show "ready_ok ?w es" using that(2) sockets_same [of ?w w'] by (simp add: ready_ok_def)
    show "books ?w v \<Longrightarrow> books w v" for v using quiet [OF that(3)] by (rule books_trans)
  qed
  then show ?thesis
    unfolding events_round_def wp_bind
    using wp_conj [OF sweep_books [OF assms(1)] assms(2) [unfolded kernel_ok_def]] quiet exits
    by (auto elim!: wp_mono simp: Let_def report_exit_def)
qed

section \<open>Runs\<close>

text \<open>
  \<open>serves z w\<close>: the engine comes from \<open>z\<close> to \<open>w\<close> by its entry points, the steps before the
  loop and the rounds of the loop, in any order, until it is destroyed.
\<close>

inductive serves :: "world \<Rightarrow> world \<Rightarrow> bool" for z where
  begun: "serves z z"
| started: "serves z w \<Longrightarrow> run_state (jni_start level) w = (x, w') \<Longrightarrow> serves z w'"
| configured: "serves z w \<Longrightarrow> run_state (jni_socks5 addr port username password) w = (x, w') \<Longrightarrow> serves z w'"
| called: "serves z w \<Longrightarrow> \<not> closes c \<Longrightarrow> run_state (syscall args c) w = (a, w') \<Longrightarrow> serves z w'"
| failed: "serves z w \<Longrightarrow> run_state (exit_unless args b) w = (x, w') \<Longrightarrow> serves z w'"
| reviewed: "serves z w \<Longrightarrow> run_state (check_allowed args) w = (x, w') \<Longrightarrow> serves z w'"
| round: "serves z w \<Longrightarrow> kernel_ok args maxsessions last_check w \<Longrightarrow>
    run_state (events_round args maxsessions last_check) w = (r, w') \<Longrightarrow> serves z w'"
| stopped: "serves z w \<Longrightarrow> run_state (jni_stop args) w = (x, w') \<Longrightarrow> serves z w'"
| cleared: "serves z w \<Longrightarrow> run_state (jni_clear args) w = (x, w') \<Longrightarrow> serves z w'"

lemma harmless_controls:
  "harmless (jni_start level)" "harmless (jni_socks5 addr port username password)"
  "harmless (exit_unless args b)" "harmless (jni_stop args)" "\<not> closes c \<Longrightarrow> harmless (syscall args c)"
  unfolding jni_start_def jni_socks5_def exit_unless_def jni_stop_def
  by (intro emits_rules emits_jni; simp)+

lemma run_quiet: "harmless m \<Longrightarrow> frame store m \<Longrightarrow> run_state m w = (a, w') \<Longrightarrow> books w w'"
  by (erule run_wp [rotated], rule wp_books_quiet [OF _ _ returns_True])

lemmas quiet_controls = run_quiet [OF harmless_controls(1) frame_controls(1)]
  run_quiet [OF harmless_controls(2) frame_controls(2)] run_quiet [OF harmless_controls(3) frame_controls(3)]
  run_quiet [OF harmless_controls(4) frame_controls(4)] run_quiet [OF harmless_controls(5) frame_controls(5)]

lemma review_books:
  assumes "world_ok session_ok w"
  shows "wp (check_allowed args) (\<lambda>_. books w) w"
  by (rule wp_mono [OF check_allowed_wp [OF assms]]) (auto intro: books_equal simp: ledger_def)

lemma clear_books: "wp (clear args) (\<lambda>_. books w) w"
proof -
  have "emits (\<lambda>_. True) (clear args)"
    unfolding clear_def set_sessions_def by (intro emits_rules emits_sweep_parts; simp)
  then have "wp (clear args) (\<lambda>_ w'. \<exists>es. w_trace w' = es @ w_trace w) w" by (rule wp_emits) auto
  from wp_conj [OF clear_wp this] show ?thesis
    by (rule wp_mono) (auto intro: books_equal simp: ledger_def accounted_def)
qed

lemma serves_books:
  assumes "serves z w" "world_ok session_ok z"
  shows "world_ok session_ok w \<and> books z w"
  using assms
proof (induction rule: serves.induct)
  case (reviewed w args x w')
  then show ?case using run_wp [OF wp_conj [OF check_allowed_wp review_books]] by (blast intro: books_trans)
next
  case (round w args maxsessions last_check r w')
  then show ?case using run_wp [OF wp_conj [OF events_round_keeps events_round_books]] by (blast intro: books_trans)
next
  case (cleared w args x w')
  have "wp (clear args) (\<lambda>_ w'. world_ok session_ok w' \<and> books w w') w"
    by (rule wp_mono [OF wp_conj [OF clear_wp clear_books]]) (simp add: world_ok_def store_ok_def)
  with cleared show ?case using run_wp by (fastforce simp: jni_clear_def intro: books_trans)
qed (auto intro: books_trans run_controls quiet_controls)

lemma jni_init_closed: "wp (jni_init args sdk) (\<lambda>_ w'. closed_fds (w_trace w') = closed_fds (w_trace w)) w"
  by (simp add: jni_init_def set_nonblock_def Let_def)

text \<open>
  The kernel gives out no descriptor that is open: one that was given out for a socket is
  given out again only after it was closed.
\<close>

fun kernel_fds :: "event list \<Rightarrow> bool" where
  "kernel_fds [] = True"
| "kernel_fds ((Call_socket v p, a) # es) = (kernel_fds es \<and> (0 \<le> ret a \<longrightarrow>
     count (mset (opened_fds es)) (ret a) \<le> count (mset (closed_fds es)) (ret a)))"
| "kernel_fds (e # es) = kernel_fds es"

lemma kernel_fds_open: "kernel_fds es \<Longrightarrow> count (mset (opened_fds es)) fd \<le> count (mset (closed_fds es)) fd + 1"
proof (induction es rule: kernel_fds.induct)
  case (2 v p a es)
  then show ?case by (auto split: if_splits)
qed auto

section \<open>Claims\<close>

text \<open>
  C4: over a whole run of the engine no descriptor of a session is lost or closed twice: from
  any state in order, whatever packets, answers of the kernel and decisions of the service
  follow, each descriptor that was owned or closed is still owned or closed, and the
  descriptors owned or closed in addition were opened in the meantime, each opening
  accounting for one of them.
\<close>

theorem descriptors_kept_over_runs:
  assumes "world_ok session_ok z" "serves z w"
  shows "mset (closed_fds (w_trace z)) + mset (open_fds (w_sessions z)) \<subseteq>#
      mset (closed_fds (w_trace w)) + mset (open_fds (w_sessions w)) \<and>
    mset (closed_fds (w_trace w)) + mset (open_fds (w_sessions w)) + mset (opened_fds (w_trace z)) \<subseteq>#
      mset (closed_fds (w_trace z)) + mset (open_fds (w_sessions z)) + mset (opened_fds (w_trace w))"
  using serves_books [OF assms(2,1)] by (simp add: books_def ledger_def accounted_def opened_def)

theorem descriptors_kept_over_runs_witness:
  "\<exists>w. w = snd (run_state (jni_clear idle_args) busy_world) \<and>
     {#7, 8#} \<subseteq># mset (closed_fds (w_trace w)) + mset (open_fds (w_sessions w)) \<and>
     mset (closed_fds (w_trace w)) + mset (open_fds (w_sessions w)) \<subseteq># {#7, 8#} + mset (opened_fds (w_trace w))"
proof -
  obtain x w where run: "run_state (jni_clear idle_args) busy_world = (x, w)" by (metis prod.exhaust)
  have "serves busy_world w" using serves.cleared [OF serves.begun run] .
  moreover have "open_fds (w_sessions busy_world) = [8, 7]" "w_trace busy_world = []"
    by (simp_all add: busy_world_def empty_world_def web_socket_def dns_socket_def)
  ultimately show ?thesis
    using descriptors_kept_over_runs [OF busy_world_ok] run by (force simp: add_mset_commute)
qed


text \<open>
  C3: two sessions never share a socket, and no session holds one that is closed: in a run
  from the creation of the engine in which the kernel gives out no descriptor that is open,
  the descriptors of the sessions are pairwise different, and each was opened more often than
  it was closed. So closing a session never closes the connection of another.
\<close>

theorem sockets_never_shared:
  assumes "w_trace w0 = []" "run_state (jni_init args sdk) w0 = (x, z)" "serves z w" "kernel_fds (w_trace w)"
  shows "distinct (open_fds (w_sessions w)) \<and> (\<forall>fd \<in> set (open_fds (w_sessions w)).
    count (mset (opened_fds (w_trace w))) fd = count (mset (closed_fds (w_trace w))) fd + 1)"
proof -
  have z: "w_sessions z = []" "closed_fds (w_trace z) = []" "world_ok session_ok z"
    using run_wp [OF jni_init_wp assms(2)] run_wp [OF jni_init_closed assms(2)] assms(1)
    by (simp_all add: world_ok_def store_ok_def)
  have "ledger w + opened z \<subseteq># ledger z + opened w" using serves_books [OF assms(3) z(3)] by (simp add: books_def)
  then have "ledger w \<subseteq># opened w"
    using z by (auto simp: ledger_def accounted_def intro: subset_mset.order_trans [rotated])
  then have le: "count (mset (closed_fds (w_trace w))) fd + count (mset (open_fds (w_sessions w))) fd
      \<le> count (mset (opened_fds (w_trace w))) fd" for fd
    using mset_subset_eq_count [of "ledger w" "opened w" fd] by (simp add: ledger_def accounted_def opened_def)
  have one: "count (mset (open_fds (w_sessions w))) fd \<le> 1" for fd
    using le [of fd] kernel_fds_open [OF assms(4), of fd] by simp
  have "distinct (open_fds (w_sessions w))"
    using one by (auto simp: distinct_count_atmost_1 le_Suc_eq count_eq_zero_iff)
  moreover have "count (mset (opened_fds (w_trace w))) fd = count (mset (closed_fds (w_trace w))) fd + 1"
    if "fd \<in> set (open_fds (w_sessions w))" for fd
  proof -
    have "0 < count (mset (open_fds (w_sessions w))) fd" using that by simp
    with le [of fd] kernel_fds_open [OF assms(4), of fd] show ?thesis by linarith
  qed
  ultimately show ?thesis by blast
qed

text \<open>
  The first round of an engine, in which a datagram is read from the tun device and opens a
  session with the socket 7.
\<close>

fun one_os :: os where
  "one_os tr (Call_poll fd ev) = \<lparr>ret = (case tr of (Call_epoll_wait _, _) # _ \<Rightarrow> 1 | _ \<Rightarrow> 0), errno = 0, out = 1, bytes = []\<rparr>"
| "one_os tr c = tun_os tr c"

definition one_args :: arguments where
  "one_args = \<lparr>a_os = one_os, a_tun = 3, a_logTraffic = False, a_observeOnly = False\<rparr>"

lemma one_args_simps: "a_os one_args = one_os" "a_tun one_args = 3" "a_logTraffic one_args = False"
    "a_observeOnly one_args = False"
  by (simp_all add: one_args_def)

lemma echo_fields:
  "ip_version (echo_packet @ rest) = 4" "ip_saddr (echo_packet @ rest) = [10, 1, 10, 1]"
  "ip_daddr (echo_packet @ rest) = [8, 8, 8, 8]" "get8 (echo_packet @ rest) 9 = IPPROTO_UDP"
  "ip4_payload (echo_packet @ rest) = 20" "ip4_dropped 5 (echo_packet @ rest) 40 = False"
  "get16 (echo_packet @ rest) 20 = 0x409C" "get16 (echo_packet @ rest) 22 = 0x3500"
  "ntohs 0x409C = 40000" "ntohs 0x3500 = 53" "htons 0x409C = 40000" "htons 0x3500 = 53"
  by (simp_all add: echo_packet_def ip_version_def ip_saddr_def ip_daddr_def get_bytes_def get16_def get8_def upt_rec
      ntohs_def le16_def ipproto_defs ip4_payload_def ip4_dropped_def IP_MF_def be16_def Ip.ANDROID_LOG_WARN_def)

definition one_start :: "world \<Rightarrow> bool" where
  "one_start w \<longleftrightarrow> w_sessions w = [] \<and> kernel_fds (w_trace w) \<and> opened_fds (w_trace w) = [] \<and> w_sdk w = 33 \<and>
     w_loglevel w = 5 \<and> \<not> w_pcap_file w \<and> \<not> w_stopping w"

definition one_done :: "world \<Rightarrow> bool" where
  "one_done w \<longleftrightarrow> kernel_fds (w_trace w) \<and> open_fds (w_sessions w) = [7] \<and> ret (one_os (w_trace w) (Call_poll 3 POLLIN)) = 0"

lemma one_handle_ip: "one_start w \<Longrightarrow> wp (handle_ip one_args (echo_packet @ rest) 40 0 409) (\<lambda>_. one_done) w"
  by (simp add: one_start_def one_done_def handle_ip_def ip_locate_def echo_fields ip_ports_def payload_len_def
      ip_limited_def ip_owner_def get_uid_from_session_def touch_ip_def Let_def get_uid_q_def one_args_simps tun_os_def
      cache_uid_def ip_server_name_def ip_policy_def ip_dispatch_def handle_udp_def udp_new_session_def
      open_udp_socket_def protect_socket_def udp_forward_def ipproto_defs put_list_def)

definition tun_buffer :: "buf \<Rightarrow> nat \<Rightarrow> buf \<Rightarrow> buf" where
  "tun_buffer b n junk = take (unat get_mtu) (get_bytes b 0 n @ get_bytes junk 0 (unat get_mtu))"

lemma one_check_tun:
  assumes "one_start w"
  shows "wp (check_tun one_args 1 0 409) (\<lambda>r w'. r = 0 \<and> one_done w') w"
proof -
  have "\<exists>rest. tun_buffer echo_packet 40 junk = echo_packet @ rest" for junk
    by (simp add: tun_buffer_def get_bytes_in echo_packet_def get_mtu_def)
  then have "wp (handle_ip one_args (tun_buffer echo_packet 40 junk) 40 0 409) (\<lambda>_. one_done) w1" if "one_start w1" for junk w1
    using one_handle_ip [OF that] by metis
  with assms show ?thesis
    unfolding check_tun_def one_args_simps tun_buffer_def [symmetric]
    by (simp add: one_start_def epoll_defs one_args_simps tun_os_def Let_def)
qed

lemma one_tun_loop:
  assumes "one_start w" "w_trace w = (Call_epoll_wait t, a) # tr"
  shows "wp (tun_loop one_args 1 0 409 TUN_YIELD) (\<lambda>r w'. \<not> r \<and> one_done w') w"
proof -
  have rest: "wp (tun_loop one_args 1 0 409 (Suc n)) (\<lambda>r w'. \<not> r \<and> one_done w') v" if "one_done v" for n v
    using that by (simp add: is_readable_def is_event_def one_args_simps Let_def one_done_def)
  have "one_start (w\<lparr>w_trace := (Call_poll 3 1, b) # w_trace w\<rparr>)" for b
    using assms(1) by (simp add: one_start_def)
  note check = wp_mono [OF one_check_tun [OF this]]
  have "wp (check_tun one_args 1 0 409) (\<lambda>a. wp (if a < 0 then State_Monad.return True
      else tun_loop one_args 1 0 409 (Suc n)) (\<lambda>r w'. \<not> r \<and> one_done w')) (w\<lparr>w_trace := (Call_poll 3 1, b) # w_trace w\<rparr>)"
    for b n by (rule check) (use rest in auto)
  then have "wp (tun_loop one_args 1 0 409 (Suc (Suc n))) (\<lambda>r w'. \<not> r \<and> one_done w') w" for n
    unfolding tun_loop.simps(2) [of _ _ _ _ "Suc n"]
    using assms
    by (simp add: is_readable_def is_event_def one_args_simps Let_def one_start_def POLLIN_def del: tun_loop.simps)
  then show ?thesis by (simp add: TUN_YIELD_def numeral_eq_Suc del: tun_loop.simps)
qed

lemma one_round:
  assumes "one_start w"
  shows "wp (events_round one_args 409 0) (\<lambda>_ w'. kernel_fds (w_trace w') \<and> open_fds (w_sessions w') = [7]) w"
proof -
  have "wp (tun_loop one_args 1 0 409 TUN_YIELD) (\<lambda>r. wp (if r then State_Monad.return True else handle_ready one_args 0 409 [])
      (\<lambda>_ w'. kernel_fds (w_trace w') \<and> open_fds (w_sessions w') = [7]))
      (w\<lparr>w_sessions := [], w_trace := (Call_epoll_wait t, a) # tr\<rparr>)"
    if "kernel_fds tr" "opened_fds tr = []" for t a tr
    by (rule wp_mono [OF one_tun_loop]) (use assms that in \<open>auto simp: one_start_def one_done_def\<close>)
  with assms show ?thesis
    by (simp add: one_start_def events_round_def sweep_def get_ms_def Let_def one_args_simps tun_os_def epoll_events_def
        source_of_def get32_def get8_def le32_def)
qed

lemma one_kernel_ok: "w_sessions w = [] \<Longrightarrow> kernel_ok one_args 409 0 w"
  by (simp add: kernel_ok_def sweep_def get_ms_def Let_def one_args_def tun_os_def ready_ok_def
      epoll_events_def source_of_def get32_def get8_def le32_def)

definition one_world :: world where
  "one_world = snd (run_state (jni_init one_args 33) empty_world)"

lemma one_init: "run_state (jni_init one_args 33) empty_world = ((), one_world)"
  by (simp add: one_world_def prod_eq_iff)

lemma one_started: "one_start one_world"
proof -
  have "wp (jni_init one_args 33) (\<lambda>_. one_start) empty_world"
    by (simp add: jni_init_def set_nonblock_def one_args_simps tun_os_def Let_def one_start_def empty_world_def
        Entry.ANDROID_LOG_WARN_def)
  then show ?thesis by (rule run_wp [OF _ one_init])
qed

lemma one_kernel: "kernel_ok one_args 409 0 one_world"
  using one_started unfolding one_start_def by (intro one_kernel_ok) (rule conjunct1)

text \<open>The world after the round.\<close>

definition one_next :: world where
  "one_next = snd (run_state (events_round one_args 409 0) one_world)"

lemma one_run:
  obtains r where "run_state (events_round one_args 409 0) one_world = (r, one_next)"
  unfolding one_next_def by (metis prod.collapse)

lemma one_result: "kernel_fds (w_trace one_next) \<and> open_fds (w_sessions one_next) = [7]"
  using run_wp [OF one_round [OF one_started]] one_run by metis

theorem sockets_never_shared_witness:
  "open_fds (w_sessions one_next) = [7] \<and>
     count (mset (opened_fds (w_trace one_next))) 7 = count (mset (closed_fds (w_trace one_next))) 7 + 1"
proof -
  obtain r where run: "run_state (events_round one_args 409 0) one_world = (r, one_next)" using one_run .
  have "serves one_world one_next" by (rule serves.round [OF serves.begun one_kernel run])
  moreover have "w_trace empty_world = []" by (simp add: empty_world_def)
  ultimately have "\<forall>fd \<in> set (open_fds (w_sessions one_next)).
      count (mset (opened_fds (w_trace one_next))) fd = count (mset (closed_fds (w_trace one_next))) fd + 1"
    using sockets_never_shared [OF _ one_init] one_result by blast
  with one_result show ?thesis by simp
qed


end
