(* ===== verification/Expiry.thy ===== *)
theory Expiry
  imports Engine
begin

text \<open>
  The clock of the event loop: the sweep ends every session whose idle time has passed, and the
  wait that follows ends no later than the idle time of the next one.
\<close>

section \<open>One session\<close>

text \<open>When the idle time of a session ends, with \<open>n\<close> of \<open>m\<close> sessions open.\<close>

definition idle_end :: "int \<Rightarrow> int \<Rightarrow> session \<Rightarrow> int" where
  "idle_end n m s = (case s_body s of ICMP u \<Rightarrow> i_time u + get_icmp_timeout u n m
     | UDP u \<Rightarrow> u_time u + get_udp_timeout u n m | TCP t \<Rightarrow> t_time t + get_tcp_timeout t n m)"

definition clock_at :: "arguments \<Rightarrow> int \<Rightarrow> bool" where
  "clock_at args now \<longleftrightarrow> (\<forall>tr. ret (a_os args tr Call_time) = now)"

lemma clock_at [simp]: "clock_at args now \<Longrightarrow> ret (a_os args tr Call_time) = now"
  by (simp add: clock_at_def)

text \<open>
  A session after its check, with the timeout then: an open socket or a counted session means
  that the idle time has not passed, and a counted session shortens the wait.
\<close>

definition timed :: "int \<Rightarrow> int \<Rightarrow> int \<Rightarrow> int \<Rightarrow> session \<Rightarrow> bool" where
  "timed n m now timeout s \<longleftrightarrow> (0 \<le> s_socket s \<or> counts s \<longrightarrow> now \<le> idle_end n m s) \<and>
     (counts s \<and> idle_end n m s - now + 1 < 2 ^ 31 \<longrightarrow> timeout \<le> idle_end n m s - now + 1)"

lemma shorten_le: "shorten timeout v \<le> timeout" "1 \<le> timeout \<Longrightarrow> 1 \<le> shorten timeout v"
  "0 < v \<Longrightarrow> shorten timeout v \<le> v"
  by (auto simp: shorten_def)

lemma timed_shorten:
  assumes "now \<le> idle_end n m s"
  shows "timed n m now (shorten timeout (to_int (idle_end n m s - now + 1))) s"
  using assms shorten_le(3) [of "idle_end n m s - now + 1" timeout]
  by (auto simp: timed_def to_int_small)

lemma timed_mono: "timed n m now timeout s \<Longrightarrow> t \<le> timeout \<Longrightarrow> timed n m now t s"
  by (auto simp: timed_def)

lemma timed_ended: "s_socket s < 0 \<Longrightarrow> \<not> counts s \<Longrightarrow> timed n m now t s"
  by (simp add: timed_def)

lemma check_udp_active:
  assumes "clock_at args now"
  shows "wp (check_udp_session args s n m) (\<lambda>(s', del) w'. u_state (s_body s') = UDP_ACTIVE \<longrightarrow>
    s' = s \<and> now \<le> u_time (s_body s) + get_udp_timeout (s_body s) n m) w"
  using assms by (simp add: check_udp_session_def Let_def) auto

lemma check_tcp_idle:
  assumes "clock_at args now" "\<not> closing (s_body s)" "now \<le> t_time (s_body s) + get_tcp_timeout (s_body s) n m"
  shows "wp (check_tcp_session args s n m) (\<lambda>(s', del) w'. s' = s) w"
  using assms by (simp add: check_tcp_session_def Let_def)

text \<open>The result of a check: its session is timed unless it is deleted, and the wait not longer.\<close>

definition expired :: "int \<Rightarrow> int \<Rightarrow> int \<Rightarrow> int \<Rightarrow> session \<Rightarrow> bool \<Rightarrow> int \<Rightarrow> bool" where
  "expired n m now timeout s del t \<longleftrightarrow> t \<le> timeout \<and> (1 \<le> timeout \<longrightarrow> 1 \<le> t) \<and> (\<not> del \<longrightarrow> timed n m now t s)"

lemma check_session_timed:
  assumes "session_ok s" "clock_at args now"
  shows "wp (check_session args n m now timeout s) (\<lambda>(s', del, t) w'. expired n m now timeout s' del t) w"
proof (cases "s_body s")
  case (ICMP u)
  have e: "idle_end n m (with_body s (ICMP u)) = i_time u + get_icmp_timeout u n m" by (simp add: idle_end_def)
  show ?thesis
    unfolding check_session_def ICMP
  proof (simp add: Let_def case_prod_beta', rule wp_mono [OF check_icmp_session_wp], goal_cases)
    case (1 p w')
    show ?case
    proof (cases "snd p")
      case False
      with 1 have "fst p = with_body s u" "\<not> i_stop u" "now \<le> idle_end n m (with_body s (ICMP u))"
        using assms(2) by (auto simp: case_prod_beta' e)
      then show ?thesis
        using False timed_shorten [of now n m "with_body s (ICMP u)" timeout] shorten_le
        by (simp add: expired_def e)
    qed (simp add: expired_def)
  qed
next
  case (UDP u)
  with assms have inv: "udp_inv (with_body s u)" by (simp add: session_ok_def)
  have e: "idle_end n m (with_body s (UDP u)) = u_time u + get_udp_timeout u n m" by (simp add: idle_end_def)
  note both = wp_conj [OF check_udp_session_wp [OF inv] check_udp_active [OF assms(2)]]
  show ?thesis
    unfolding check_session_def UDP
  proof (simp add: Let_def case_prod_beta', rule wp_mono [OF both], goal_cases)
    case (1 p w')
    show ?case
    proof (cases "u_state (s_body (fst p)) = UDP_ACTIVE")
      case True
      with 1 have "fst p = with_body s u" "now \<le> idle_end n m (with_body s (UDP u))"
        by (auto simp: case_prod_beta' e)
      then show ?thesis
        using True timed_shorten [of now n m "with_body s (UDP u)" timeout] shorten_le
        by (auto simp: expired_def e)
    next
      case False
      from 1 have i: "udp_inv (fst p)" "u_state (s_body (fst p)) \<noteq> UDP_FINISHING" by (auto simp: case_prod_beta')
      have "s_socket (fst p) < 0"
        using False i by (cases "u_state (s_body (fst p))") (auto simp: udp_inv_def)
      then show ?thesis using False by (simp add: expired_def timed_ended counts_def)
    qed
  qed
next
  case (TCP t)
  with assms have inv: "tcp_inv (with_body s t)" by (simp add: session_ok_def)
  have e: "idle_end n m (with_body s (TCP t)) = t_time t + get_tcp_timeout t n m" by (simp add: idle_end_def)
  show ?thesis
  proof (cases "\<not> closing t \<and> now \<le> t_time t + get_tcp_timeout t n m")
    case True
    then have b: "\<not> closing (s_body (with_body s t))"
        "now \<le> t_time (s_body (with_body s t)) + get_tcp_timeout (s_body (with_body s t)) n m" by simp_all
    show ?thesis
      unfolding check_session_def TCP
      by (simp add: Let_def case_prod_beta', rule wp_mono [OF check_tcp_idle [OF assms(2) b]])
        (use True timed_shorten [of now n m "with_body s (TCP t)" timeout] shorten_le in
          \<open>auto simp: expired_def e case_prod_beta'\<close>)
  next
    case False
    show ?thesis
      unfolding check_session_def TCP
    proof (simp add: Let_def case_prod_beta', rule wp_mono [OF check_tcp_session_wp [OF inv]], goal_cases)
      case (1 p w')
      then have adv: "session_advances (with_body s t) (fst p)" "t_state (s_body (fst p)) \<noteq> TCP_CLOSING"
          "\<not> now \<le> t_time t + get_tcp_timeout t n m \<longrightarrow> t_state (s_body (fst p)) = TCP_CLOSE"
        using assms(2) by (auto simp: case_prod_beta')
      have "t_state (s_body (fst p)) = TCP_CLOSE"
        using False adv closing_path [of "t_state t" "t_state (s_body (fst p))"] by (auto simp: session_advances_def)
      then show ?case
        using session_advances_closed [OF adv(1)] by (simp add: expired_def timed_ended counts_def)
    qed
  qed
qed

section \<open>All sessions\<close>

lemma check_sessions_timed:
  assumes "list_all session_ok ss" "clock_at args now"
  shows "wp (check_sessions args n m now timeout ss) (\<lambda>(ss', t) w'. t \<le> timeout \<and> (1 \<le> timeout \<longrightarrow> 1 \<le> t) \<and>
    (\<forall>s \<in> set ss'. timed n m now t s)) w"
  using assms(1)
proof (induction ss arbitrary: timeout w)
  case (Cons s ss)
  let ?Q = "\<lambda>(ss', t) w'. t \<le> timeout \<and> (1 \<le> timeout \<longrightarrow> 1 \<le> t) \<and> (\<forall>s \<in> set ss'. timed n m now t s)"
  have "wp (check_sessions args n m now t ss) (\<lambda>(ss', t). ?Q (if del then ss' else s' # ss', t)) w1"
    if "expired n m now timeout s' del t" for s' del t w1
  proof (rule wp_mono [OF Cons.IH])
    fix p w2
    assume "(case p of (ss', t') \<Rightarrow> \<lambda>w'. t' \<le> t \<and> (1 \<le> t \<longrightarrow> 1 \<le> t') \<and> (\<forall>s \<in> set ss'. timed n m now t' s)) w2"
    with that show "(case p of (ss', t) \<Rightarrow> ?Q (if del then ss' else s' # ss', t)) w2"
      by (cases p) (auto simp: expired_def intro: timed_mono)
  qed (use Cons.prems in simp)
  then show ?case
    by (simp add: case_prod_beta') (rule wp_mono [OF check_session_timed [OF _ assms(2)]]; use Cons.prems in auto)
qed simp

lemma sweep_timed:
  assumes w: "world_ok session_ok w" and now: "clock_at args now"
  shows "wp (sweep args maxsessions last_check) (\<lambda>(lc, n, timeout, recheck) w'. lc \<noteq> last_check \<longrightarrow>
    1 \<le> timeout \<and> timeout \<le> EPOLL_TIMEOUT \<and> (\<forall>s \<in> set (w_sessions w'). timed n maxsessions now timeout s)) w"
  unfolding sweep_def wp_bind wp_get
proof (rule wp_mono [OF count_sessions_wp], goal_cases)
  case (2 p w1)
  then obtain ss n r where p: "p = (ss, n, r)" "list_all session_ok ss" by (cases p) auto
  have "wp (check_sessions args n maxsessions now EPOLL_TIMEOUT ss) (\<lambda>q w'.
      ms \<noteq> last_check \<longrightarrow> 1 \<le> snd q \<and> snd q \<le> EPOLL_TIMEOUT \<and> (\<forall>s \<in> set (fst q). timed n maxsessions now (snd q) s)) w2"
    for w2 ms
    by (rule wp_mono [OF check_sessions_timed [OF p(2) now]]) (auto simp: EPOLL_TIMEOUT_def)
  then show ?case using now by (simp add: p(1) get_ms_def Let_def case_prod_beta')
qed (use w in \<open>simp add: world_ok_def list_all_iff\<close>)

section \<open>Claims\<close>

text \<open>
  C37: the sweep of a round, when it is due, leaves no session open beyond its idle time, and
  the wait after it is at least one second, at most an hour, and ends no later than the
  second after the idle time of any session that still counts: no session outlives its idle
  time by more than that second because the engine sleeps.
\<close>

theorem sweep_expires_idle:
  assumes "world_ok session_ok w" "clock_at args now"
    and "run_state (sweep args maxsessions last_check) w = ((lc, n, timeout, recheck), w')" "lc \<noteq> last_check"
  shows "1 \<le> timeout \<and> timeout \<le> EPOLL_TIMEOUT \<and> (\<forall>s \<in> set (w_sessions w').
    (0 \<le> s_socket s \<or> counts s \<longrightarrow> now \<le> idle_end n maxsessions s) \<and>
    (counts s \<and> idle_end n maxsessions s - now + 1 < 2 ^ 31 \<longrightarrow> timeout \<le> idle_end n maxsessions s - now + 1))"
  using run_wp [OF sweep_timed [OF assms(1,2)] assms(3)] assms(4) by (simp add: timed_def)

definition clock_args :: arguments where
  "clock_args = \<lparr>a_os = (\<lambda>tr c. \<lparr>ret = (if c = Call_time then 1000 else if c = Call_get_ms then 5000 else 0),
     errno = 0, out = 0, bytes = []\<rparr>), a_tun = 3, a_logTraffic = False, a_observeOnly = False\<rparr>"

theorem sweep_expires_idle_witness:
  "\<exists>lc n timeout recheck w'. run_state (sweep clock_args 409 0) busy_world = ((lc, n, timeout, recheck), w') \<and>
    lc = 5000 \<and> 1 \<le> timeout \<and> list_all (\<lambda>s. s_socket s < 0 \<or> 1000 \<le> idle_end n 409 s) (w_sessions w')"
proof -
  obtain lc n timeout recheck w' where run: "run_state (sweep clock_args 409 0) busy_world = ((lc, n, timeout, recheck), w')"
    by (metis prod.exhaust)
  have "wp (sweep clock_args 409 0) (\<lambda>(lc, n, timeout, recheck) w'. lc = 5000) busy_world"
    by (simp add: sweep_def Let_def get_ms_def case_prod_beta' clock_args_def EPOLL_MIN_CHECK_def wp_run)
  from run_wp [OF this run] have l5: "lc = 5000" by simp
  have clock: "clock_at clock_args 1000" by (simp add: clock_at_def clock_args_def)
  have "lc \<noteq> 0" using l5 by simp
  from sweep_expires_idle [OF busy_world_ok clock run this] run l5 show ?thesis
    by (auto simp: list_all_iff)
qed

end
