(* ===== verification/Safety.thy ===== *)
theory Safety
  imports Entry Tcp_Options Ip_Policy
begin

text \<open>
  Memory safety of the whole path of a packet from the tun device: what the parts of \<open>ip.c\<close>,
  \<open>icmp.c\<close>, \<open>udp.c\<close> and \<open>tcp.c\<close> read of it lies in the buffer, and no loop over it is endless,
  when the packet keeps a few conditions that the code does not check itself.
\<close>

section \<open>Accesses inside an object\<close>

text \<open>The flags of undefined behaviour and of an endless loop.\<close>

abbreviation flags :: "world \<Rightarrow> bool \<times> bool" where
  "flags w \<equiv> (w_ub w, w_hang w)"

lemma touch_in: "off + n \<le> length b \<Longrightarrow> touch b off n = State_Monad.return ()"
  by (rule State_Monad.state.expand) (simp add: touch_def State_Monad.update_def fun_eq_iff)

lemma load_in: "off + n \<le> length b \<Longrightarrow> load b off n = State_Monad.return (take n (drop off b))"
  by (simp add: load_def)

lemma frame_push_session: "(\<And>w e. g (w\<lparr>w_sessions := e\<rparr>) = g w) \<Longrightarrow> frame g (push_session s)"
  by (simp add: push_session_def frame_update)

lemma frame_put_session: "(\<And>w e. g (w\<lparr>w_sessions := e\<rparr>) = g w) \<Longrightarrow> frame g (put_session s)"
  by (simp add: put_session_def frame_update)

lemma frame_fresh_addr: "(\<And>w e. g (w\<lparr>w_fresh := e\<rparr>) = g w) \<Longrightarrow> frame g fresh_addr"
  by (simp add: fresh_addr_def frame_def)

lemma frame_case_body:
  "(\<And>x. frame g (f x)) \<Longrightarrow> (\<And>x. frame g (h x)) \<Longrightarrow> (\<And>x. frame g (k x)) \<Longrightarrow>
     frame g (case z of ICMP x \<Rightarrow> f x | UDP x \<Rightarrow> h x | TCP x \<Rightarrow> k x)"
  by (cases z) auto

lemmas frame_store_rules = frame_push_session frame_put_session frame_fresh_addr frame_case_body

text \<open>Lengths of the rest of a packet, computed in 16, 32 and 64 bits.\<close>

lemma diff_le:
  assumes "a \<le> b" "b < 2 ^ 32"
  shows "unat (word_of_nat b - word_of_nat a :: u64) = b - a"
    and "unat (ucast (word_of_nat b - word_of_nat a :: u64) :: u32) \<le> b - a"
    and "unat (word_of_nat b - word_of_nat a :: u16) \<le> b - a"
proof -
  have d64: "word_of_nat b - word_of_nat a = (word_of_nat (b - a) :: u64)"
    and d16: "word_of_nat b - word_of_nat a = (word_of_nat (b - a) :: u16)"
    using assms(1) by (simp_all add: of_nat_diff)
  show u: "unat (word_of_nat b - word_of_nat a :: u64) = b - a"
    by (simp only: d64 unat_of_nat) (use assms in simp)
  have "unat (ucast x :: u32) \<le> unat x" for x :: u64
    by (simp add: unsigned_ucast_eq take_bit_nat_less_eq_self)
  then show "unat (ucast (word_of_nat b - word_of_nat a :: u64) :: u32) \<le> b - a"
    using u by metis
  show "unat (word_of_nat b - word_of_nat a :: u16) \<le> b - a"
    by (simp only: d16 unat_of_nat) simp
qed

section \<open>The handlers\<close>

text \<open>Where a packet's payload starts, and the conditions of the three protocols.\<close>

definition payload_of :: "buf \<Rightarrow> nat" where
  "payload_of pkt = (if ip_version pkt = 4 then ip4_payload pkt else 40)"

definition protocol_of :: "buf \<Rightarrow> u8" where
  "protocol_of pkt = (if ip_version pkt = 4 then get8 pkt 9 else get8 pkt 6)"

definition udp_ok :: "buf \<Rightarrow> bool" where
  "udp_ok pkt \<longleftrightarrow> ntohs (get16 pkt (payload_of pkt)) \<noteq> 68 \<and> ntohs (get16 pkt (payload_of pkt + 2)) \<noteq> 67"

definition syn_options_ok :: "buf \<Rightarrow> bool" where
  "syn_options_ok pkt \<longleftrightarrow> (let p = payload_of pkt; n = uint (tcp_optlen (get_tcphdr pkt p)) in
     \<not> stuck_option pkt n (p + 20) \<and>
     (\<forall>mss ws. tcp_opts pkt n (p + 20) (get_default_mss (ip_version pkt)) 0 = Some (mss, ws) \<longrightarrow> unat ws < 32))"

definition tcp_packet_ok :: "buf \<Rightarrow> nat \<Rightarrow> bool" where
  "tcp_packet_ok pkt len \<longleftrightarrow> (let h = get_tcphdr pkt (payload_of pkt) in
     tcp_dataoff h (payload_of pkt) \<le> len \<and> (h_syn h \<longrightarrow> syn_options_ok pkt))"

text \<open>
  The packet of \<open>len\<close> bytes in its buffer: the headers end in the packet, four bytes more fit
  in the buffer, version 6 has no extension headers.
\<close>

definition packet_ok :: "buf \<Rightarrow> nat \<Rightarrow> bool" where
  "packet_ok pkt len \<longleftrightarrow> len + 4 \<le> length pkt \<and> length pkt < 2 ^ 32 \<and>
     (ip_version pkt = 4 \<longrightarrow> payload_of pkt \<le> len) \<and> (ip_version pkt \<noteq> 4 \<longrightarrow> is_upper_layer (get8 pkt 6)) \<and>
     (protocol_of pkt = IPPROTO_UDP \<longrightarrow> udp_ok pkt) \<and> (protocol_of pkt = IPPROTO_TCP \<longrightarrow> tcp_packet_ok pkt len)"

text \<open>What the checks of \<open>handle_ip\<close> before the dispatch add.\<close>

definition located :: "buf \<Rightarrow> nat \<Rightarrow> nat \<Rightarrow> bool" where
  "located pkt len payload \<longleftrightarrow> (if ip_version pkt = 4 then 20 else 40) \<le> len \<and> payload \<le> len \<and>
     len + 4 \<le> length pkt \<and> length pkt < 2 ^ 32"

lemma touch_ip_in: "located pkt len payload \<Longrightarrow> touch_ip pkt = State_Monad.return ()"
  by (simp add: touch_ip_def located_def touch_in)

lemma frame_handle_icmp:
  assumes "located pkt len payload" "payload + 8 \<le> len"
  shows "frame flags (handle_icmp args pkt len payload uid)"
proof -
  have r: "touch pkt payload 8 = State_Monad.return ()"
      "load pkt payload (unat (word_of_nat len - word_of_nat payload :: u64)) =
         State_Monad.return (take (unat (word_of_nat len - word_of_nat payload :: u64)) (drop payload pkt))"
    using assms diff_le(1) [of payload len] by (simp_all add: located_def touch_in load_in)
  show ?thesis
    unfolding handle_icmp_def touch_ip_in [OF assms(1)] icmp_forward_def icmp_new_session_def open_icmp_socket_def Let_def r
    by (intro frame_rules frame_store_rules; simp)
qed

lemma frame_open_udp_socket: "(\<And>w e. g (w\<lparr>w_trace := e\<rparr>) = g w) \<Longrightarrow> frame g (open_udp_socket args u)"
  unfolding open_udp_socket_def by (intro frame_rules; simp)

lemma frame_handle_udp:
  assumes "located pkt len payload" "payload + 8 \<le> len"
    and "ntohs (get16 pkt payload) \<noteq> 68" "ntohs (get16 pkt (payload + 2)) \<noteq> 67"
  shows "frame flags (handle_udp args pkt len payload uid)"
proof -
  let ?n = "unat (ucast (word_of_nat len - word_of_nat (payload + 8) :: u64) :: u32)"
  have b: "len + 4 \<le> length pkt" "len < 2 ^ 32" using assms(1) by (simp_all add: located_def)
  then have "payload + 8 + ?n \<le> length pkt" using diff_le(2) [OF assms(2)] assms(2) by linarith
  then have r: "touch pkt payload 8 = State_Monad.return ()"
      "load pkt (payload + 8) ?n = State_Monad.return (take ?n (drop (payload + 8) pkt))"
    using assms(2) b by (simp_all only: touch_in load_in)
  have dhcp: "(ntohs (get16 pkt payload) = 68 \<or> ntohs (get16 pkt (payload + 2)) = 67) = False"
    using assms(3,4) by blast
  show ?thesis
    unfolding handle_udp_def touch_ip_in [OF assms(1)] udp_forward_def udp_new_session_def Let_def r dhcp if_False
    by (intro frame_rules frame_store_rules frame_open_udp_socket; simp add: frame_return)
qed

lemma frame_block_udp:
  assumes "located pkt len payload" "payload + 8 \<le> len"
  shows "frame flags (block_udp args pkt payload uid)"
proof -
  have r: "touch pkt payload 8 = State_Monad.return ()" using assms by (simp add: located_def touch_in)
  show ?thesis
    unfolding block_udp_def touch_ip_in [OF assms(1)] r by (intro frame_rules frame_store_rules; simp)
qed

lemma frame_tcp_register: "frame flags (tcp_register args addr t allowed)"
  unfolding tcp_register_def by (intro frame_rules frame_store_rules; simp)

lemma frame_handle_tcp:
  assumes "located pkt len payload" "payload + 20 \<le> len" "h = get_tcphdr pkt payload" "tcp_dataoff h payload \<le> len"
    and syn: "h_syn h \<Longrightarrow> tcp_opts pkt (uint (tcp_optlen h)) (payload + 20) (get_default_mss (ip_version pkt)) 0 = Some (mss, ws)"
      "h_syn h \<Longrightarrow> unat ws < 32"
  shows "frame flags (handle_tcp args pkt len payload uid allowed)"
proof -
  let ?o = "tcp_dataoff h payload" and ?n = "unat (tcp_datalen h len payload)"
  have b: "len + 4 \<le> length pkt" "len < 2 ^ 32" using assms(1) by (simp_all add: located_def)
  then have "?o + ?n \<le> length pkt"
    using diff_le(3) [OF assms(4)] assms(4) unfolding tcp_datalen_def by linarith
  moreover have "payload + 20 + (if tcp_optlen h = 0 then 0 else unat (tcp_optlen h) + 3) \<le> length pkt"
    using assms(4) b by (auto simp: tcp_dataoff_def)
  ultimately have r: "touch pkt payload 20 = State_Monad.return ()"
      "touch pkt (payload + 20) (if tcp_optlen h = 0 then 0 else unat (tcp_optlen h) + 3) = State_Monad.return ()"
      "load pkt ?o ?n = State_Monad.return (take ?n (drop ?o pkt))"
    using assms(2) b by (simp_all only: touch_in load_in)
  have found: "frame flags (tcp_found args pkt len payload h uid allowed cur)" for cur
    unfolding tcp_found_def tcp_in_sequence_def tcp_other_ack_def Let_def r by (intro frame_rules; simp)
  have new: "frame flags (tcp_new args pkt len payload h uid allowed)" if "h_syn h"
    using syn that unfolding tcp_new_def r by (simp add: guarded_def) (intro frame_rules frame_store_rules frame_tcp_register; simp)
  show ?thesis
  proof (cases "h_syn h")
    case True
    show ?thesis
      unfolding handle_tcp_def touch_ip_in [OF assms(1)] Let_def assms(3) [symmetric] r True if_True
      by (intro frame_rules frame_store_rules found new [OF True]; simp)
  next
    case False
    show ?thesis
      unfolding handle_tcp_def touch_ip_in [OF assms(1)] Let_def assms(3) [symmetric]
      by (simp only: False if_False r) (intro frame_rules frame_store_rules found; simp)
  qed
qed

section \<open>The path of a packet\<close>

lemma frame_bind_returns:
  assumes "frame g m" "returns R m" "\<And>a. R a \<Longrightarrow> frame g (f a)"
  shows "frame g (State_Monad.bind m f)"
  using assms by (simp add: frame_def returns_def split: prod.splits) (metis fst_conv snd_conv)

lemma ip_locate_ok:
  assumes "packet_ok pkt len"
  shows "frame flags (ip_locate pkt len)"
    and "returns (\<lambda>r. r = None \<or> r = Some (protocol_of pkt, payload_of pkt) \<and> located pkt len (payload_of pkt)) (ip_locate pkt len)"
proof -
  have b: "len + 4 \<le> length pkt" using assms by (simp add: packet_ok_def)
  have t: "touch pkt 0 1 = State_Monad.return ()" using b by (simp add: touch_in)
  have t4: "(if len < 20 then m else do { touch pkt 0 20; f }) = (if len < 20 then m else do { State_Monad.return (); f })" for m f :: "'b prog"
    using b by (simp add: touch_in)
  have t6: "(if len < 40 then m else do { touch pkt 0 40; f }) = (if len < 40 then m else do { State_Monad.return (); f })" for m f :: "'b prog"
    using b by (simp add: touch_in)
  have l: "ip_version pkt \<noteq> 4 \<Longrightarrow> is_upper_layer (get8 pkt 6)" using assms by (simp add: packet_ok_def)
  show "frame flags (ip_locate pkt len)"
  proof (cases "ip_version pkt = 4")
    case True
    show ?thesis by (simp only: ip_locate_def t t4 True simp_thms if_True) (intro frame_rules)
  next
    case False
    show ?thesis by (simp only: ip_locate_def t t6 False if_False Let_def l [OF False] if_True) (intro frame_rules)
  qed
  show "returns (\<lambda>r. r = None \<or> r = Some (protocol_of pkt, payload_of pkt) \<and> located pkt len (payload_of pkt)) (ip_locate pkt len)"
    using assms unfolding ip_locate_def Let_def
    by (intro returns_rules) (auto simp: located_def packet_ok_def protocol_of_def payload_of_def)
qed

text \<open>What \<open>ip_ports\<close> checks: the header of the protocol is in the packet.\<close>

definition header_fits :: "u8 \<Rightarrow> nat \<Rightarrow> nat \<Rightarrow> bool" where
  "header_fits protocol len payload \<longleftrightarrow>
     (protocol \<in> {IPPROTO_ICMP, IPPROTO_ICMPV6, IPPROTO_UDP} \<longrightarrow> payload + 8 \<le> len) \<and>
     (protocol = IPPROTO_TCP \<longrightarrow> payload + 20 \<le> len)"

lemma ip_ports_ok:
  assumes "located pkt len payload"
  shows "frame flags (ip_ports protocol pkt len payload)"
    and "returns (\<lambda>r. r = None \<or> header_fits protocol len payload) (ip_ports protocol pkt len payload)"
proof -
  have b: "payload \<le> len" "len + 4 \<le> length pkt" "len < 2 ^ 32" using assms by (simp_all add: located_def)
  have n: "payload_len len payload < word_of_nat k \<longleftrightarrow> len < payload + k" if "k < 2 ^ 64" for k
    using that b diff_le(1) [of payload len] by (auto simp: payload_len_def word_less_nat_alt unat_of_nat)
  have n: "payload_len len payload < ICMP_MINLEN \<longleftrightarrow> len < payload + 8" "payload_len len payload < 8 \<longleftrightarrow> len < payload + 8"
      "payload_len len payload < 20 \<longleftrightarrow> len < payload + 20"
    using n [of 8] n [of 20] by (simp_all add: ICMP_MINLEN_def)
  have t: "(if len < payload + k then m else do { touch pkt payload i; f }) =
      (if len < payload + k then m else do { State_Monad.return (); f })" if "i \<le> k" for m f :: "'b prog" and i k
    using that b by (simp add: touch_in)
  show "frame flags (ip_ports protocol pkt len payload)"
    unfolding ip_ports_def n by (simp only: t) (intro frame_rules)
  show "returns (\<lambda>r. r = None \<or> header_fits protocol len payload) (ip_ports protocol pkt len payload)"
    unfolding ip_ports_def n Let_def by (intro returns_rules) (auto simp: header_fits_def ipproto_defs)
qed

lemma frame_ip_limited:
  assumes "located pkt len payload" "header_fits protocol len payload"
  shows "frame flags (ip_limited pkt payload protocol syn sessions maxsessions)"
proof -
  have "frame flags (has_udp_session pkt payload)" if "protocol = IPPROTO_UDP"
  proof -
    have r: "touch pkt payload 8 = State_Monad.return ()"
      using assms that by (simp add: located_def header_fits_def touch_in)
    show ?thesis
      unfolding has_udp_session_def touch_ip_in [OF assms(1)] r by (intro frame_rules)
  qed
  then show ?thesis
    unfolding ip_limited_def
    by (cases "protocol = IPPROTO_UDP") (simp_all add: frame_rules ipproto_defs)
qed

lemma frame_ip_owner:
  assumes "located pkt len payload"
  shows "frame flags (ip_owner args pkt payload f)"
proof -
  have r: "touch pkt payload 4 = State_Monad.return ()" using assms by (simp add: located_def touch_in)
  have "frame flags (get_uid_from_session pkt payload)"
    unfolding get_uid_from_session_def touch_ip_in [OF assms] r by (intro frame_rules)
  then show ?thesis
    unfolding ip_owner_def by (intro frame_bind frame_if frame_rules; simp)
qed

lemma frame_ip_server_name:
  assumes "located pkt len payload" "f_protocol f = IPPROTO_TCP \<Longrightarrow> tcp_dataoff (get_tcphdr pkt payload) payload \<le> len"
  shows "frame flags (ip_server_name args pkt len payload f uid)"
proof (cases "f_protocol f = IPPROTO_TCP")
  case True
  let ?h = "get_tcphdr pkt payload"
  have b: "len + 4 \<le> length pkt" "len < 2 ^ 32" using assms(1) by (simp_all add: located_def)
  have "unat (tcp_datalen ?h len payload) \<le> length (drop (tcp_dataoff ?h payload) pkt)"
    using diff_le(3) [OF assms(2) [OF True] b(2)] b unfolding tcp_datalen_def length_drop by linarith
  from parse_sni_safe [OF this] obtain r
    where r: "parse_sni (drop (tcp_dataoff ?h payload) pkt) (tcp_datalen ?h len payload) = Some r" by blast
  show ?thesis
    unfolding ip_server_name_def Let_def r by (cases r) (simp_all add: frame_rules)
qed (simp add: ip_server_name_def frame_rules)

lemma frame_ip_dispatch:
  assumes "located pkt len (payload_of pkt)" "packet_ok pkt len" "header_fits (protocol_of pkt) len (payload_of pkt)"
  shows "frame flags (ip_dispatch args pkt len (payload_of pkt) (protocol_of pkt) uid allowed quic)"
proof -
  let ?p = "payload_of pkt" and ?q = "protocol_of pkt"
  have icmp: "frame flags (handle_icmp args pkt len ?p uid)" if "?q = IPPROTO_ICMP \<or> ?q = IPPROTO_ICMPV6"
    using that assms by (intro frame_handle_icmp) (auto simp: header_fits_def)
  have udp: "frame flags (handle_udp args pkt len ?p uid)" "frame flags (block_udp args pkt ?p uid)" if "?q = IPPROTO_UDP"
    using that assms by (auto intro!: frame_handle_udp frame_block_udp simp: header_fits_def packet_ok_def udp_ok_def)
  have tcp: "frame flags (handle_tcp args pkt len ?p uid b)" if q: "?q = IPPROTO_TCP" for b
  proof -
    have ok: "tcp_packet_ok pkt len" using assms(2) q by (simp add: packet_ok_def)
    let ?h = "get_tcphdr pkt ?p"
    let ?r = "tcp_opts pkt (uint (tcp_optlen ?h)) (?p + 20) (get_default_mss (ip_version pkt)) 0"
    have "\<exists>mss ws. h_syn ?h \<longrightarrow> ?r = Some (mss, ws) \<and> unat ws < 32"
      using ok tcp_opts_ends [of pkt "uint (tcp_optlen ?h)" "?p + 20" "get_default_mss (ip_version pkt)" 0]
      by (cases ?r) (auto simp: tcp_packet_ok_def syn_options_ok_def Let_def)
    then obtain mss ws where "h_syn ?h \<Longrightarrow> ?r = Some (mss, ws)" "h_syn ?h \<Longrightarrow> unat ws < 32" by blast
    with assms ok q show ?thesis
      by (intro frame_handle_tcp [OF assms(1) _ refl]) (simp_all add: header_fits_def tcp_packet_ok_def Let_def)
  qed
  show ?thesis
    unfolding ip_dispatch_def
    by (cases "?q = IPPROTO_ICMP \<or> ?q = IPPROTO_ICMPV6"; cases "?q = IPPROTO_UDP"; cases "?q = IPPROTO_TCP")
      (use icmp udp tcp in \<open>simp_all add: frame_rules\<close>)
qed

lemma frame_ip_policy: "frame flags (ip_policy args f uid name)"
  unfolding ip_policy_def by (intro frame_rules; simp)

lemma frame_handle_ip:
  assumes "packet_ok pkt len"
  shows "frame flags (handle_ip args pkt len sessions maxsessions)"
  unfolding handle_ip_def
proof (rule frame_bind_returns [OF ip_locate_ok [OF assms]], goal_cases)
  case (1 r)
  let ?p = "payload_of pkt" and ?q = "protocol_of pkt"
  from 1 consider "r = None" | (some) "r = Some (?q, ?p)" "located pkt len ?p" by blast
  then show ?case
  proof cases
    case some
    show ?thesis
      unfolding some(1) option.case prod.case
    proof (rule frame_bind_returns [OF ip_ports_ok [OF some(2)]], goal_cases)
      case (1 ports)
      show ?case
      proof (cases ports)
        case (Some x)
        with 1 have h: "header_fits ?q len ?p" by simp
        have sn: "frame flags (ip_server_name args pkt len ?p \<lparr>f_version = v, f_protocol = ?q, f_saddr = sa, f_sport = sp,
            f_daddr = da, f_dport = dp\<rparr> uid)" for v sa sp da dp uid
          using assms by (intro frame_ip_server_name [OF some(2)]) (simp add: packet_ok_def tcp_packet_ok_def Let_def)
        show ?thesis
          unfolding Some option.case Let_def
          by (intro frame_case_prod frame_bind frame_if frame_return frame_guarded sn frame_ip_policy
              frame_ip_limited [OF some(2) h] frame_ip_owner [OF some(2)] frame_ip_dispatch [OF some(2) assms h])
            (intro frame_rules; simp)
      qed (simp add: frame_return)
    qed
  qed (simp add: frame_return)
qed

section \<open>Data from the sockets\<close>

text \<open>
  Of each queued segment no more was sent than it has, and its data is there. A shorter
  retransmission breaks this for the segment it replaces (\<open>queue_shrinks_below_sent\<close>).
\<close>

definition unsent_ok :: "segment \<Rightarrow> bool" where
  "unsent_ok seg \<longleftrightarrow> unat (seg_sent seg) \<le> unat (seg_len seg) \<and> unat (seg_len seg) \<le> length (seg_data seg)"

definition queue_ok :: "session \<Rightarrow> bool" where
  "queue_ok s = (case s_body s of TCP t \<Rightarrow> list_all unsent_ok (t_forward t) | _ \<Rightarrow> True)"

lemma segment_rest:
  assumes "unsent_ok seg"
  shows "unat (seg_sent seg) + unat (u16to32 (seg_len seg) - u16to32 (seg_sent seg)) \<le> length (seg_data seg)"
proof -
  have "u16to32 (seg_sent seg) \<le> u16to32 (seg_len seg)" using assms by (simp add: unsent_ok_def word_le_nat_alt)
  then have "unat (u16to32 (seg_len seg) - u16to32 (seg_sent seg)) = unat (seg_len seg) - unat (seg_sent seg)"
    by (simp add: unat_sub)
  then show ?thesis using assms by (simp add: unsent_ok_def)
qed

lemma frame_forward_flags:
  assumes "list_all unsent_ok q"
  shows "frame flags (tcp_forward args sock n fwd t q)"
  using assms
proof (induction q arbitrary: n fwd t)
  case (Cons seg q)
  then have IH: "frame flags (tcp_forward args sock n fwd t q)" for n fwd t by simp
  have l: "unat (seg_sent seg) + unat (u16to32 (seg_len seg) - u16to32 (seg_sent seg)) \<le> length (seg_data seg)"
    using Cons.prems segment_rest by simp
  show ?case
    unfolding tcp_forward.simps load_in [OF l] Let_def by (intro frame_rules IH; simp)
qed (simp add: frame_return)

lemma frame_check_sockets:
  "frame flags (check_icmp_socket args s1 events)" "frame flags (check_udp_socket args s2 events)"
  unfolding check_icmp_socket_def icmp_received_def write_icmp_def check_udp_socket_def udp_received_def Let_def
  by (intro frame_rules; simp)+

lemma frame_udp_loop: "frame flags (udp_loop args events s n)"
proof (induction n arbitrary: s)
  case (Suc n)
  show ?case
    unfolding udp_loop.simps by (intro frame_rules frame_check_sockets Suc.IH; simp)
qed (simp add: frame_return)

lemma frame_check_tcp_flags:
  assumes "list_all unsent_ok (t_forward (s_body s))"
  shows "frame flags (check_tcp_socket args s events)"
  unfolding check_tcp_socket_def socks5_receive_def socks5_advance_def socks5_send_def tcp_acknowledge_def tcp_read_def
    tcp_eof_def tcp_received_def get_receive_buffer_def Let_def
  by (intro frame_rules frame_forward_flags assms; simp)

lemma frame_session_event:
  assumes "queue_ok s"
  shows "frame flags (session_event args s events)"
proof (cases "s_body s")
  case (TCP t)
  with assms have "list_all unsent_ok (t_forward (s_body (with_body s t)))" by (simp add: queue_ok_def)
  from frame_check_tcp_flags [OF this] TCP show ?thesis
    unfolding session_event_def by (simp, intro frame_rules frame_store_rules; simp)
qed (simp_all add: session_event_def, (intro frame_rules frame_store_rules frame_check_sockets frame_udp_loop; simp)+)

section \<open>Claims\<close>


text \<open>A SYN that announces a maximum segment size of 1460 bytes, in the buffer of the tun device.\<close>

definition mss_syn :: buf where
  "mss_syn = [0x45, 0, 0, 44, 0, 0, 0, 0, 64, 6, 0, 0, 10, 1, 10, 1, 93, 184, 216, 34,
     0x9C, 0x40, 1, 0xBB, 0, 0, 3, 0xE8, 0, 0, 0, 0, 0x60, 2, 0xFF, 0xFF, 0, 0, 0, 0, 2, 4, 5, 0xB4, 0, 0, 0, 0]"

lemma mss_syn_fields: "ip_version mss_syn = 4" "payload_of mss_syn = 20" "protocol_of mss_syn = IPPROTO_TCP"
  "tcp_optlen (get_tcphdr mss_syn 20) = 4"
  by (simp_all add: mss_syn_def ip_version_def payload_of_def ip4_payload_def protocol_of_def get8_def get_tcphdr_def
      tcp_optlen_def Let_def ipproto_defs)

lemma mss_syn_opts: "tcp_opts mss_syn 4 40 m 0 = Some (1460, 0)"
  by (subst tcp_opts.simps, subst (2) tcp_opts.simps)
    (simp add: mss_syn_def get8_def get16_def le16_def ntohs_def Let_def tcp_opts_over)

lemma mss_syn_ok: "packet_ok mss_syn 44"
proof -
  have "\<not> stuck_option mss_syn 4 40" using mss_syn_opts tcp_opts_stuck by fastforce
  then show ?thesis
    by (simp add: packet_ok_def mss_syn_fields tcp_packet_ok_def syn_options_ok_def mss_syn_opts Let_def tcp_dataoff_def
        ipproto_defs) (simp add: mss_syn_def)
qed

text \<open>A connection with a segment of which one byte was sent.\<close>

definition data_session :: session where
  "data_session = with_body web_socket (TCP (web_session\<lparr>t_state := TCP_ESTABLISHED,
     t_forward := [\<lparr>seg_seq = 1001, seg_len = 3, seg_sent = 1, seg_psh = True, seg_data = [1, 2, 3]\<rparr>]\<rparr>))"

lemma data_queue_ok: "queue_ok data_session"
  by (simp add: queue_ok_def data_session_def unsent_ok_def)


end
