(* ===== verification/Alloc.thy ===== *)
theory Alloc
  imports Prelude
begin

text \<open>
  The memory profile of \<open>netguard.c\<close>, compiled with \<open>PROFILE_MEMORY\<close> (without it
  \<open>ng_add_alloc\<close> and \<open>ng_delete_alloc\<close> are empty): a table of the blocks held, with their tags and
  times, kept by the wrappers of \<open>malloc\<close>, \<open>calloc\<close>, \<open>realloc\<close> and \<open>free\<close> and by the calls that
  register references of the virtual machine. What the C library answers is an argument.
\<close>

section \<open>The table\<close>

text \<open>Pointers are numbers, 0 is \<open>NULL\<close>.\<close>

record alloc_record =
  r_tag :: string
  r_time :: int
  r_ptr :: nat

text \<open>
  The globals: the mutex exists, the balance and the array, whose length is \<open>allocs\<close>. The model
  adds a flag for undefined behaviour and the messages of \<open>ng_delete_alloc\<close>, newest first:
  whether the block was found, the balance and the number of records.
\<close>

record profile =
  p_alock :: bool
  p_balance :: int
  p_alloc :: "alloc_record list"
  p_ub :: bool
  p_log :: "(bool \<times> int \<times> nat) list"

definition no_profile :: profile where
  "no_profile = \<lparr>p_alock = False, p_balance = 0, p_alloc = [], p_ub = False, p_log = []\<rparr>"

text \<open>The two search loops: the index of the first record with a pointer, or the length.\<close>

fun record_of :: "nat \<Rightarrow> alloc_record list \<Rightarrow> nat" where
  "record_of ptr [] = 0"
| "record_of ptr (r # rs) = (if r_ptr r = ptr then 0 else Suc (record_of ptr rs))"

text \<open>
  A free record is used again, otherwise the array grows by one; when it cannot grow (\<open>room\<close> is
  false) the record is written through \<open>NULL\<close>.
\<close>

definition ng_add_alloc :: "bool \<Rightarrow> int \<Rightarrow> nat \<Rightarrow> string \<Rightarrow> profile \<Rightarrow> profile" where
  "ng_add_alloc room now ptr tag m =
     (if ptr = 0 then m
      else
        let m = m\<lparr>p_alock := True\<rparr>;
            c = record_of 0 (p_alloc m);
            r = \<lparr>r_tag = tag, r_time = now, r_ptr = ptr\<rparr>
        in if c < length (p_alloc m) then m\<lparr>p_alloc := (p_alloc m)[c := r], p_balance := p_balance m + 1\<rparr>
           else if room then m\<lparr>p_alloc := p_alloc m @ [r], p_balance := p_balance m + 1\<rparr>
           else m\<lparr>p_ub := True\<rparr>)"

text \<open>Before the first \<open>ng_add_alloc\<close> there is no mutex to lock.\<close>

definition ng_delete_alloc :: "nat \<Rightarrow> profile \<Rightarrow> profile" where
  "ng_delete_alloc ptr m =
     (if ptr = 0 then m
      else
        let m = (if p_alock m then m else m\<lparr>p_ub := True\<rparr>);
            c = record_of ptr (p_alloc m);
            found = c < length (p_alloc m);
            m = (if found
                 then m\<lparr>p_alloc := (p_alloc m)[c := (p_alloc m ! c)\<lparr>r_tag := ''[free]'', r_ptr := 0\<rparr>],
                        p_balance := p_balance m - 1\<rparr>
                 else m)
        in m\<lparr>p_log := (found, p_balance m, length (p_alloc m)) # p_log m\<rparr>)"

section \<open>The wrappers\<close>

text \<open>Each with the pointer the C library returned; the result is that pointer.\<close>

definition ng_malloc :: "bool \<Rightarrow> int \<Rightarrow> nat \<Rightarrow> string \<Rightarrow> profile \<Rightarrow> profile \<times> nat" where
  "ng_malloc room now ptr tag m = (ng_add_alloc room now ptr tag m, ptr)"

definition ng_calloc :: "bool \<Rightarrow> int \<Rightarrow> nat \<Rightarrow> string \<Rightarrow> profile \<Rightarrow> profile \<times> nat" where
  "ng_calloc room now ptr tag m = (ng_add_alloc room now ptr tag m, ptr)"

definition ng_realloc :: "bool \<Rightarrow> int \<Rightarrow> nat \<Rightarrow> nat \<Rightarrow> string \<Rightarrow> profile \<Rightarrow> profile \<times> nat" where
  "ng_realloc room now old ptr tag m = (ng_add_alloc room now ptr tag (ng_delete_alloc old m), ptr)"

definition ng_free :: "nat \<Rightarrow> profile \<Rightarrow> profile" where
  "ng_free ptr m = ng_delete_alloc ptr m"

text \<open>The lines of the dump: a number, the tag and the time of each record in use.\<close>

fun dump_from :: "nat \<Rightarrow> alloc_record list \<Rightarrow> (nat \<times> string \<times> int) list" where
  "dump_from n [] = []"
| "dump_from n (r # rs) =
     (if r_ptr r \<noteq> 0 then (n + 1, r_tag r, r_time r) # dump_from (n + 1) rs else dump_from n rs)"

definition ng_dump :: "profile \<Rightarrow> (nat \<times> string \<times> int) list" where
  "ng_dump m = dump_from 0 (p_alloc m)"

section \<open>The table as a map\<close>

text \<open>The pointers in use, and the tag and time under which a block is held.\<close>

definition live :: "alloc_record list \<Rightarrow> nat list" where
  "live rs = filter (\<lambda>p. p \<noteq> 0) (map r_ptr rs)"

definition entry :: "alloc_record list \<Rightarrow> nat \<Rightarrow> (string \<times> int) option" where
  "entry rs q = map_option (\<lambda>r. (r_tag r, r_time r)) (find (\<lambda>r. r_ptr r = q) rs)"

definition held :: "profile \<Rightarrow> nat \<Rightarrow> (string \<times> int) option" where
  "held m ptr = (if ptr = 0 then None else entry (p_alloc m) ptr)"

text \<open>No block has two records and the balance is the number of those in use.\<close>

definition profile_ok :: "profile \<Rightarrow> bool" where
  "profile_ok m \<longleftrightarrow> distinct (live (p_alloc m)) \<and> p_balance m = int (length (live (p_alloc m))) \<and>
     (p_alloc m \<noteq> [] \<longrightarrow> p_alock m) \<and> \<not> p_ub m"

text \<open>The record a search finds splits the array, and an update replaces it.\<close>

lemma record_of_split:
  assumes "ptr \<in> r_ptr ` set rs"
  obtains xs r ys where "rs = xs @ r # ys" "r_ptr r = ptr" "ptr \<notin> r_ptr ` set xs" "record_of ptr rs = length xs"
proof -
  from assms have "\<exists>xs r ys. rs = xs @ r # ys \<and> r_ptr r = ptr \<and> ptr \<notin> r_ptr ` set xs \<and> record_of ptr rs = length xs"
  proof (induction rs)
    case (Cons a rs)
    show ?case
    proof (cases "r_ptr a = ptr")
      case True
      then show ?thesis by (intro exI [of _ "[]"]) auto
    next
      case False
      with Cons obtain xs r ys where "rs = xs @ r # ys" "r_ptr r = ptr" "ptr \<notin> r_ptr ` set xs" "record_of ptr rs = length xs"
        by auto
      with False show ?thesis by (intro exI [of _ "a # xs"]) auto
    qed
  qed simp
  with that show thesis by blast
qed

lemma record_of_found: "record_of ptr rs < length rs \<longleftrightarrow> ptr \<in> r_ptr ` set rs"
  by (induction rs) auto

lemma live_simps [simp]: "live [] = []" "live (r # rs) = (if r_ptr r = 0 then live rs else r_ptr r # live rs)"
  "live (xs @ ys) = live xs @ live ys"
  by (simp_all add: live_def)

lemma set_live: "set (live rs) = r_ptr ` set rs - {0}"
  by (auto simp: live_def)

lemma entry_simps [simp]: "entry [] q = None"
  "entry (r # rs) q = (if r_ptr r = q then Some (r_tag r, r_time r) else entry rs q)"
  by (simp_all add: entry_def)

lemma entry_None: "entry rs q = None \<longleftrightarrow> q \<notin> r_ptr ` set rs"
  by (induction rs) auto

lemma entry_append: "entry (xs @ ys) q = (case entry xs q of None \<Rightarrow> entry ys q | Some e \<Rightarrow> Some e)"
  by (induction xs) auto

text \<open>Registering a block that is not held, and releasing one that may be.\<close>

lemma add_ok:
  assumes "profile_ok m" "held m ptr = None" "room"
  shows "profile_ok (ng_add_alloc room now ptr tag m)"
    and "held (ng_add_alloc room now ptr tag m) = (if ptr = 0 then held m else (held m)(ptr \<mapsto> (tag, now)))"
    and "p_log (ng_add_alloc room now ptr tag m) = p_log m"
proof -
  let ?m = "ng_add_alloc room now ptr tag m" and ?r = "\<lparr>r_tag = tag, r_time = now, r_ptr = ptr\<rparr>"
  have "profile_ok ?m \<and> held ?m = (held m)(ptr \<mapsto> (tag, now)) \<and> p_log ?m = p_log m" if "ptr \<noteq> 0"
  proof (cases "0 \<in> r_ptr ` set (p_alloc m)")
    case True
    then obtain xs r ys where s: "p_alloc m = xs @ r # ys" "r_ptr r = 0" "0 \<notin> r_ptr ` set xs" "record_of 0 (p_alloc m) = length xs"
      by (rule record_of_split)
    have e: "ptr \<notin> set (live xs) \<union> set (live ys)" "entry xs ptr = None"
      using assms(2) that s(1,2) by (auto simp: held_def entry_None set_live)
    have "?m = m\<lparr>p_alock := True, p_alloc := xs @ ?r # ys, p_balance := p_balance m + 1\<rparr>"
      using that s by (simp add: ng_add_alloc_def)
    then show ?thesis
      using assms(1) that s(1,2) e by (auto simp: profile_ok_def held_def fun_eq_iff entry_append split: option.splits)
  next
    case False
    have e: "ptr \<notin> set (live (p_alloc m))" "entry (p_alloc m) ptr = None"
      using assms(2) that by (auto simp: held_def entry_None set_live)
    have "?m = m\<lparr>p_alock := True, p_alloc := p_alloc m @ [?r], p_balance := p_balance m + 1\<rparr>"
      using that False assms(3) by (simp add: ng_add_alloc_def record_of_found)
    then show ?thesis
      using assms(1) that e by (auto simp: profile_ok_def held_def fun_eq_iff entry_append split: option.splits)
  qed
  then show "profile_ok ?m" "held ?m = (if ptr = 0 then held m else (held m)(ptr \<mapsto> (tag, now)))" "p_log ?m = p_log m"
    using assms(1) by (cases "ptr = 0"; simp add: ng_add_alloc_def)+
qed

lemma delete_ok:
  assumes "profile_ok m" "ptr = 0 \<or> held m ptr \<noteq> None"
  shows "profile_ok (ng_delete_alloc ptr m)" "held (ng_delete_alloc ptr m) = (held m)(ptr := None)"
    and "p_log (ng_delete_alloc ptr m) =
      (if ptr = 0 then [] else [(True, p_balance m - 1, length (p_alloc m))]) @ p_log m"
proof -
  let ?m = "ng_delete_alloc ptr m"
  have "profile_ok ?m \<and> held ?m = (held m)(ptr := None) \<and>
      p_log ?m = (True, p_balance m - 1, length (p_alloc m)) # p_log m" if z: "ptr \<noteq> 0"
  proof -
    have "ptr \<in> r_ptr ` set (p_alloc m)" using assms(2) z by (auto simp: held_def entry_None)
    then obtain xs r ys where s: "p_alloc m = xs @ r # ys" "r_ptr r = ptr" "ptr \<notin> r_ptr ` set xs" "record_of ptr (p_alloc m) = length xs"
      by (rule record_of_split)
    have e: "ptr \<notin> set (live ys)" "entry ys ptr = None" "entry xs ptr = None"
      using assms(1) s z by (auto simp: profile_ok_def entry_None set_live)
    have l: "p_alock m" using assms(1) s by (auto simp: profile_ok_def)
    have "?m = m\<lparr>p_alloc := xs @ r\<lparr>r_tag := ''[free]'', r_ptr := 0\<rparr> # ys, p_balance := p_balance m - 1,
        p_log := (True, p_balance m - 1, length (p_alloc m)) # p_log m\<rparr>"
      using z s l by (simp add: ng_delete_alloc_def Let_def)
    then show ?thesis
      using assms(1) z s(1,2) e by (auto simp: profile_ok_def held_def fun_eq_iff entry_append split: option.splits)
  qed
  then show "profile_ok ?m" "held ?m = (held m)(ptr := None)"
      "p_log ?m = (if ptr = 0 then [] else [(True, p_balance m - 1, length (p_alloc m))]) @ p_log m"
    using assms(1) by (cases "ptr = 0"; simp add: ng_delete_alloc_def held_def fun_eq_iff)+
qed

lemma length_dump_from: "length (dump_from n rs) = length (live rs)"
  by (induction rs arbitrary: n) auto

lemma set_dump_from: "snd ` set (dump_from n rs) = {(r_tag r, r_time r) |r. r \<in> set rs \<and> r_ptr r \<noteq> 0}"
  by (induction rs arbitrary: n) auto

section \<open>A client of the wrappers\<close>

text \<open>The calls of a client, each with the pointers it passes and the one it gets.\<close>

datatype heap_op = Malloc nat string | Calloc nat string | Realloc nat nat string | Free nat

fun perform :: "int \<Rightarrow> heap_op \<Rightarrow> profile \<Rightarrow> profile" where
  "perform now (Malloc p tag) m = fst (ng_malloc True now p tag m)"
| "perform now (Calloc p tag) m = fst (ng_calloc True now p tag m)"
| "perform now (Realloc old p tag) m = fst (ng_realloc True now old p tag m)"
| "perform now (Free p) m = ng_free p m"

text \<open>The heap itself: the blocks the client holds.\<close>

type_synonym heap = "nat \<Rightarrow> (string \<times> int) option"

fun heap_step :: "int \<Rightarrow> heap_op \<Rightarrow> heap \<Rightarrow> heap" where
  "heap_step now (Malloc p tag) h = (if p = 0 then h else h(p \<mapsto> (tag, now)))"
| "heap_step now (Calloc p tag) h = (if p = 0 then h else h(p \<mapsto> (tag, now)))"
| "heap_step now (Realloc old p tag) h = (if p = 0 then h else (h(old := None))(p \<mapsto> (tag, now)))"
| "heap_step now (Free p) h = h(p := None)"

text \<open>
  The C library returns no block that is held, the client frees only what it holds, and no
  block is reallocated without success.
\<close>

fun legal :: "heap_op \<Rightarrow> heap \<Rightarrow> bool" where
  "legal (Malloc p tag) h \<longleftrightarrow> h p = None"
| "legal (Calloc p tag) h \<longleftrightarrow> h p = None"
| "legal (Realloc old p tag) h \<longleftrightarrow> (old = 0 \<or> h old \<noteq> None \<and> p \<noteq> 0) \<and> (p = old \<or> h p = None)"
| "legal (Free p) h \<longleftrightarrow> p = 0 \<or> h p \<noteq> None"

fun legal_run :: "(int \<times> heap_op) list \<Rightarrow> heap \<Rightarrow> bool" where
  "legal_run [] h \<longleftrightarrow> True"
| "legal_run ((now, c) # cs) h \<longleftrightarrow> legal c h \<and> legal_run cs (heap_step now c h)"

definition profile_run :: "(int \<times> heap_op) list \<Rightarrow> profile \<Rightarrow> profile" where
  "profile_run cs m = fold (\<lambda>(now, c). perform now c) cs m"

definition heap_run :: "(int \<times> heap_op) list \<Rightarrow> heap \<Rightarrow> heap" where
  "heap_run cs h = fold (\<lambda>(now, c). heap_step now c) cs h"

lemma held_0 [simp]: "held m 0 = None"
  by (simp add: held_def)

lemma perform_refines:
  assumes "profile_ok m" "legal c (held m)"
  shows "profile_ok (perform now c m) \<and> held (perform now c m) = heap_step now c (held m) \<and>
    (\<exists>l. p_log (perform now c m) = l @ p_log m \<and> list_all fst l)"
proof (cases c)
  case (Realloc old p tag)
  note d = delete_ok [OF assms(1), of old]
  have "held (ng_delete_alloc old m) p = None"
    using assms(2) Realloc d by auto
  from add_ok [OF _ this, of True now tag] d show ?thesis
    using assms(2) unfolding Realloc perform.simps heap_step.simps ng_realloc_def by (auto simp: fun_eq_iff)
next
  case (Free p)
  with delete_ok [OF assms(1), of p] assms(2) show ?thesis by (auto simp: ng_free_def)
qed (use assms add_ok [OF assms(1), of _ True now] in \<open>auto simp: ng_malloc_def ng_calloc_def\<close>)

lemma run_refines:
  assumes "profile_ok m" "legal_run cs (held m)"
  shows "profile_ok (profile_run cs m) \<and> held (profile_run cs m) = heap_run cs (held m) \<and>
    (\<exists>l. p_log (profile_run cs m) = l @ p_log m \<and> list_all fst l)"
  using assms
proof (induction cs arbitrary: m)
  case (Cons nc cs)
  obtain now c where nc: "nc = (now, c)" by fastforce
  with Cons.prems have "profile_ok m" "legal c (held m)" by simp_all
  from perform_refines [OF this, of now] obtain l where step: "profile_ok (perform now c m)"
      "held (perform now c m) = heap_step now c (held m)" "p_log (perform now c m) = l @ p_log m" "list_all fst l"
    by blast
  with Cons.IH [of "perform now c m"] Cons.prems nc show ?case
    by (auto simp: profile_run_def heap_run_def)
qed (simp add: profile_run_def heap_run_def)

lemma held_dom: "dom (held m) = set (live (p_alloc m))"
proof (rule set_eqI)
  fix q
  show "q \<in> dom (held m) \<longleftrightarrow> q \<in> set (live (p_alloc m))"
    using entry_None [of "p_alloc m" q] by (auto simp: held_def domIff set_live)
qed

lemma held_ran:
  assumes "distinct (live (p_alloc m))"
  shows "ran (held m) = {(r_tag r, r_time r) |r. r \<in> set (p_alloc m) \<and> r_ptr r \<noteq> 0}"
proof -
  have "distinct (live rs) \<Longrightarrow> r \<in> set rs \<Longrightarrow> r_ptr r \<noteq> 0 \<Longrightarrow> entry rs (r_ptr r) = Some (r_tag r, r_time r)" for r rs
    by (induction rs) (auto simp: set_live split: if_splits)
  moreover have "entry rs q = Some e \<Longrightarrow> \<exists>r \<in> set rs. r_ptr r = q \<and> e = (r_tag r, r_time r)" for rs q e
    by (induction rs) (auto split: if_splits)
  ultimately have "(\<exists>q. held m q = Some e) \<longleftrightarrow> (\<exists>r. e = (r_tag r, r_time r) \<and> r \<in> set (p_alloc m) \<and> r_ptr r \<noteq> 0)" for e
    using assms unfolding held_def by (metis option.distinct(1))
  then show ?thesis by (simp add: ran_def)
qed

section \<open>Claims\<close>



text \<open>
  A block whose reallocation fails is still the client's, but the profile has dropped it: to
  free it later is reported as the release of an unknown block.
\<close>

theorem failed_realloc_forgets_block:
  assumes "profile_ok m" "held m old \<noteq> None" "m' = fst (ng_realloc room now old 0 tag m)"
  shows "held m' old = None \<and> (\<exists>b n. p_log (ng_free old m') = (False, b, n) # p_log m')"
proof -
  have o: "old \<noteq> 0" using assms(2) by (cases "old = 0") simp_all
  have m: "m' = ng_delete_alloc old m" using assms(3) by (simp add: ng_realloc_def ng_add_alloc_def)
  then have "profile_ok m'" "held m' = (held m)(old := None)" using delete_ok [OF assms(1)] assms(2) by simp_all
  moreover from this have "old \<notin> dom (held m')" by auto
  then have "\<not> record_of old (p_alloc m') < length (p_alloc m')"
    using o by (simp add: held_dom record_of_found set_live)
  ultimately show ?thesis using o by (simp add: ng_free_def ng_delete_alloc_def Let_def)
qed

end
