(* ===== verification/Spec2Isabelle.thy ===== *)
theory Spec2Isabelle
  imports Util Tls Dns World Pcap Packet Jni Timeout Udp_Write Udp Tcp_Write Tcp_Queue Tcp Tcp_Handle Tcp_Machine
    Tcp_Options Tcp_Stream Tcp_Download Tcp_Policy Icmp Uid Uid_Table Ip Ip_Policy Delivery Session Tcp_Handshake
    Entry Engine Account Expiry Safety Alloc
begin

text \<open>
  NetGuard's native packet engine, verified as a library of theories. The sources are the C
  files of \<open>src/android/app/src/main/jni/netguard\<close>; file names below are relative to it.

  \<^bold>\<open>The program.\<close> The Android VPN service hands the engine a tun device. The engine reads the
  packets of the applications from it, asks the service (Java) whether each is allowed, keeps
  a session for every flow, forwards the data over sockets of its own and writes the answers
  back to the tun device as packets it builds itself. One thread runs the event loop
  (\<open>session.c\<close>); \<open>ip.c\<close> finds protocol, ports, owner and policy of a packet and dispatches it
  to \<open>icmp.c\<close>, \<open>udp.c\<close> or \<open>tcp.c\<close>; \<open>dns.c\<close>, \<open>dhcp.c\<close> and \<open>tls.c\<close> parse payloads; \<open>pcap.c\<close>
  records packets; \<open>netguard.c\<close> has the entry points and the calls into the service; \<open>util.c\<close>
  the checksum, sequence comparison and conversions.

  \<^bold>\<open>The model.\<close> \<open>Prelude\<close> has the words at their C widths, buffers with checked reads, byte
  order, and a weakest precondition calculus for the state monad. \<open>World\<close> has the structures
  of \<open>netguard.h\<close> as records, the state \<^typ>\<open>world\<close> (session list, caches, settings, flags)
  and the environment: the kernel and the service are one function that answers every call
  from the calls made before, and each call with its answer is added to a trace. An access
  outside an object sets \<open>w_ub\<close>, a loop that does not end sets \<open>w_hang\<close>. Handlers are programs
  over that state, one definition per C function, with its early returns. \<open>World\<close> also has
  the rules by which a program's calls (\<open>emits\<close>), the components it leaves alone (\<open>frame\<close>),
  its results (\<open>returns\<close>) and its invariants (\<open>keeps\<close>, \<open>evolves\<close>) are proved along its
  structure.

  \<^bold>\<open>The theories and their sources.\<close>
  \<^item> \<open>Util\<close>: \<open>util.c\<close>. The checksum is the ones' complement sum and a stored checksum
    verifies; \<open>compare_u32\<close> is the order of a window of sequence numbers; \<open>trim\<close> strips the
    blanks of a string. What \<open>util.c\<close> asks of the kernel is in \<open>Jni\<close>.
  \<^item> \<open>Tls\<close>: \<open>tls.c\<close>; \<open>Dns\<close>: \<open>dns.c\<close>. No read leaves the data, and what a sender encodes is
    found; with the places where the parsers go wrong.
  \<^item> \<open>Pcap\<close>: \<open>pcap.c\<close>; \<open>Packet\<close>: the headers shared by the packet writers, with the locale
    of a writer to the tun device; \<open>Jni\<close>: the calls into the service of \<open>netguard.c\<close>;
    \<open>Timeout\<close>: the locale of the idle timeouts that shrink with the number of sessions.
  \<^item> \<open>Udp_Write\<close>, \<open>Udp\<close>: \<open>udp.c\<close> and \<open>dhcp.c\<close>. Forwarding and delivery byte by byte, the
    invariant of a session and its store, blocked flows.
  \<^item> \<open>Icmp\<close>: \<open>icmp.c\<close>. Echo requests and answers with their identifiers and checksums.
  \<^item> \<open>Tcp_Write\<close> (packets), \<open>Tcp_Queue\<close> (reassembly and windows), \<open>Tcp\<close> (periodic check,
    events, sockets, SOCKS5, forwarding, reading), \<open>Tcp_Handle\<close> (packets of the
    application): \<open>tcp.c\<close>. \<open>Tcp_Machine\<close> refines every operation to an automaton of states
    that ties them to the ownership of the socket; \<open>Tcp_Stream\<close> shows that what is sent is
    what the application wrote, in order, and \<open>Tcp_Download\<close> that what is received is what the
    application reads from its packets; \<open>Tcp_Handshake\<close> the opening of a connection, from the
    SYN to the established session; \<open>Tcp_Options\<close> when the option loop ends and what
    it reads; \<open>Tcp_Policy\<close> what happens to flows that are not allowed.
  \<^item> \<open>Uid\<close>, \<open>Uid_Table\<close>: \<open>get_uid\<close> and \<open>get_uid_sub\<close> of \<open>ip.c\<close>, with \<open>fgets\<close> and \<open>sscanf\<close>. A
    table as the kernel prints it is read back, and the cache agrees with it.
  \<^item> \<open>Ip\<close>, \<open>Ip_Policy\<close>, \<open>Delivery\<close>: the rest of \<open>ip.c\<close>. Nothing is sent for a packet before the
    service allowed it; the loop over the extension headers ends; a datagram that is allowed
    goes all the way from the tun device to its server.
  \<^item> \<open>Session\<close>, \<open>Entry\<close>, \<open>Engine\<close>, \<open>Expiry\<close>: \<open>session.c\<close> and the entry points of
    \<open>netguard.c\<close>, from \<open>jni_init\<close>, which makes the context and its pipe, to \<open>jni_done\<close>. The
    reachable states of the engine as an inductive predicate and their invariant, the account
    of descriptors, the review of the sessions at a restart; the sweep ends the sessions whose
    idle time has passed and the wait after it ends in time for the next.
  \<^item> \<open>Account\<close>: the books of the descriptors over whole runs of the engine: what its sessions
    own and have closed against what was opened. Every handler keeps them, from a packet of
    the tun device to a round of the loop, so that over any run no descriptor is lost or
    closed twice and no two sessions share one.
  \<^item> \<open>Safety\<close>: the path of a packet through \<open>ip.c\<close> and the handlers, and of an event through the
    sockets, accesses nothing outside its objects, with the conditions the code does not check.
  \<^item> \<open>Alloc\<close>: the memory profile of \<open>netguard.c\<close> and the allocation wrappers (a build with
    \<open>PROFILE_MEMORY\<close>). The table refines the blocks a client holds.

  \<^bold>\<open>Interfaces.\<close> The protocols meet in the store of sessions: the locales \<open>udp_store\<close>,
  \<open>icmp_store\<close> and \<open>tcp_store\<close> state what each handler needs of the invariant of a stored
  session and prove that it keeps the store; they are interpreted for each protocol alone and
  for the invariant of the whole engine in \<open>Engine\<close>. The packet writers interpret
  \<open>tun_writer\<close>, the timeouts \<open>timeout_policy\<close>.

  \<^bold>\<open>Loops.\<close> Parsers and list loops are total functions. The loops over TCP options and IPv6
  extension headers are partial functions, and when they end is a theorem. The event loop
  runs until it is stopped: \<open>events_loop\<close> follows it for a given number of rounds and the
  reachable states of \<open>Engine\<close> for any number; no property depends on the number.

  \<^bold>\<open>Hypotheses on the environment.\<close> Only what is documented of it: \<open>epoll_wait\<close> reports a
  descriptor once and only sessions that are registered with an open socket (\<open>kernel_ok\<close>);
  \<open>socket\<close> gives out no descriptor that is open (\<open>kernel_fds\<close>);
  \<open>send\<close> does not take more than it was given (\<open>send_bounded\<close>); the tables of \<open>/proc/net\<close>
  have the format of the kernel (\<open>table_open\<close>); during one sweep the clock stands still
  (\<open>clock_at\<close>); the handshake is followed for calls that succeed (\<open>serving\<close>).

  \<^bold>\<open>Not modelled.\<close> Logging; JNI references and the registration of the library; the mutexes, as
  one thread changes the sessions (what the other entry points do is a step of its own); the
  Java service and the Flutter application, which the engine sees only through the calls of
  the environment.
\<close>

end
